(* ===== verification/Prelude.thy ===== *)
theory Prelude
  imports Main "HOL-Library.Word"
begin

text \<open>
  Shared vocabulary of the development: the machine types of the program, byte strings,
  the outcome type that makes panics and undefined behaviour visible, results, slicing,
  UTF-8 validation as \<open>std::str::from_utf8\<close> does it, little-endian integers, and the
  generic lemmas on lists and association lists that the components share.
\<close>

unbundle bit_operations_syntax

named_theorems outcome_simps \<open>evaluation rules of the outcome combinators\<close>
named_theorems frame_simps \<open>what an operation leaves unchanged\<close>

subsection \<open>Machine types\<close>

type_synonym u8 = "8 word"
type_synonym u32 = "32 word"
type_synonym u64 = "64 word"
type_synonym usize = "64 word"
type_synonym bytes = "8 word list"

text \<open>
  A Rust \<open>&str\<close> is a byte string that is valid UTF-8; a literal of the source is turned
  into its bytes by \<open>str\<close>.
\<close>

definition str :: "string \<Rightarrow> bytes" where
  "str s = map (\<lambda>c. word_of_nat (of_char c)) s"

subsection \<open>Outcomes: normal return, panic, undefined behaviour\<close>

text \<open>
  \<open>Panic\<close> is an unwinding panic (\<open>unwrap\<close> on \<open>None\<close>, a failed \<open>assert!\<close>, an index out of
  range, \<open>unreachable!\<close>); \<open>Undef\<close> is undefined behaviour, which only an \<open>unsafe\<close>
  operation with a violated contract reaches.
\<close>

datatype 'a outcome = Done 'a | Panic | Undef

fun obind :: "'a outcome \<Rightarrow> ('a \<Rightarrow> 'b outcome) \<Rightarrow> 'b outcome" where
  "obind (Done x) f = f x"
| "obind Panic f = Panic"
| "obind Undef f = Undef"

declare obind.simps [outcome_simps]

lemma obind_Done_iff: "obind m f = Done y \<longleftrightarrow> (\<exists>x. m = Done x \<and> f x = Done y)"
  by (cases m) auto

lemma obind_Done_Panic [simp]: "obind m (\<lambda>x. Done (g x)) = Panic \<longleftrightarrow> m = Panic"
  by (cases m) auto

definition unwrap :: "'a option \<Rightarrow> 'a outcome" where
  "unwrap x = (case x of Some v \<Rightarrow> Done v | None \<Rightarrow> Panic)"

definition unwrap_unchecked :: "'a option \<Rightarrow> 'a outcome" where
  "unwrap_unchecked x = (case x of Some v \<Rightarrow> Done v | None \<Rightarrow> Undef)"

definition rust_assert :: "bool \<Rightarrow> unit outcome" where
  "rust_assert b = (if b then Done () else Panic)"

lemma unwrap_simps [simp, outcome_simps]:
  "unwrap (Some v) = Done v" "unwrap None = Panic"
  "unwrap_unchecked (Some v) = Done v" "unwrap_unchecked None = Undef"
  "rust_assert True = Done ()" "rust_assert False = Panic"
  by (simp_all add: unwrap_def unwrap_unchecked_def rust_assert_def)

definition is_done :: "'a outcome \<Rightarrow> bool" where
  "is_done m = (case m of Done _ \<Rightarrow> True | _ \<Rightarrow> False)"

lemma is_done_simps [simp]:
  "is_done (Done x)" "\<not> is_done Panic" "\<not> is_done Undef"
  by (simp_all add: is_done_def)

lemma is_done_iff: "is_done m \<longleftrightarrow> (\<exists>x. m = Done x)"
  by (cases m) auto

subsection \<open>Results\<close>

text \<open>\<open>Result<T, E>\<close> is \<open>'e + 'a\<close>: \<open>Inl\<close> carries \<open>Err\<close>, \<open>Inr\<close> carries \<open>Ok\<close>.\<close>

definition map_err :: "('e \<Rightarrow> 'f) \<Rightarrow> 'e + 'a \<Rightarrow> 'f + 'a" where
  "map_err f r = (case r of Inl e \<Rightarrow> Inl (f e) | Inr x \<Rightarrow> Inr x)"

definition ok_or :: "'e \<Rightarrow> 'a option \<Rightarrow> 'e + 'a" where
  "ok_or e x = (case x of None \<Rightarrow> Inl e | Some v \<Rightarrow> Inr v)"

lemma map_err_simps [simp]:
  "map_err f (Inl e) = Inl (f e)" "map_err f (Inr x) = Inr x"
  by (simp_all add: map_err_def)

lemma ok_or_simps [simp]: "ok_or e None = Inl e" "ok_or e (Some v) = Inr v"
  by (simp_all add: ok_or_def)

lemma map_err_Inr_iff [simp]: "map_err f r = Inr x \<longleftrightarrow> r = Inr x"
  by (cases r) auto

lemma sum_unit_exhausted: "\<forall>e. r \<noteq> Inl e \<Longrightarrow> r \<noteq> Inr () \<Longrightarrow> False"
  by (cases r) auto

text \<open>Polling a future gives \<open>Pending\<close> or a value.\<close>

datatype 'a poll = Pending | Ready_now 'a

subsection \<open>Slices\<close>

definition sub_bytes :: "nat \<Rightarrow> nat \<Rightarrow> bytes \<Rightarrow> bytes" where
  "sub_bytes lo hi bs = take (hi - lo) (drop lo bs)"

text \<open>\<open>&buf[lo..hi]\<close>: panics when the range is inverted or reaches past the end.\<close>

definition index_range :: "bytes \<Rightarrow> nat \<Rightarrow> nat \<Rightarrow> bytes outcome" where
  "index_range bs lo hi =
     (if lo \<le> hi \<and> hi \<le> length bs then Done (sub_bytes lo hi bs) else Panic)"

lemma sub_bytes_mid [simp]: "sub_bytes (length xs) (length xs + length ys) (xs @ ys @ zs) = ys"
  by (simp add: sub_bytes_def)

lemma sub_bytes_all [simp]: "sub_bytes 0 (length ys) (ys @ zs) = ys"
  by (simp add: sub_bytes_def)

lemma index_range_inverted: "hi < lo \<Longrightarrow> index_range bs lo hi = Panic"
  by (simp add: index_range_def)

lemma index_range_DoneD: "index_range bs lo hi = Done x \<Longrightarrow> lo \<le> hi \<and> hi \<le> length bs \<and> length x = hi - lo"
  by (auto simp: index_range_def sub_bytes_def split: if_splits)

subsection \<open>UTF-8 validation\<close>

text \<open>
  The width of the well-formed UTF-8 sequence at the head of the input, 0 if there is
  none: the table \<open>std::str::from_utf8\<close> follows, which refuses overlong forms,
  surrogates and code points past U+10FFFF.
\<close>

definition cont_byte :: "u8 \<Rightarrow> bool" where
  "cont_byte b \<longleftrightarrow> 0x80 \<le> b \<and> b \<le> 0xBF"

fun utf8_second :: "u8 \<Rightarrow> u8 \<Rightarrow> bool" where
  "utf8_second a b =
     (if a = 0xE0 then 0xA0 \<le> b \<and> b \<le> 0xBF
      else if a = 0xED then 0x80 \<le> b \<and> b \<le> 0x9F
      else if a = 0xF0 then 0x90 \<le> b \<and> b \<le> 0xBF
      else if a = 0xF4 then 0x80 \<le> b \<and> b \<le> 0x8F
      else cont_byte b)"

fun utf8_width :: "bytes \<Rightarrow> nat" where
  "utf8_width [] = 0"
| "utf8_width (a # bs) =
     (if a < 0x80 then 1
      else if 0xC2 \<le> a \<and> a \<le> 0xDF then
        (case bs of b # _ \<Rightarrow> if cont_byte b then 2 else 0 | [] \<Rightarrow> 0)
      else if 0xE0 \<le> a \<and> a \<le> 0xEF then
        (case bs of b # c # _ \<Rightarrow> if utf8_second a b \<and> cont_byte c then 3 else 0 | _ \<Rightarrow> 0)
      else if 0xF0 \<le> a \<and> a \<le> 0xF4 then
        (case bs of b # c # d # _ \<Rightarrow>
           if utf8_second a b \<and> cont_byte c \<and> cont_byte d then 4 else 0 | _ \<Rightarrow> 0)
      else 0)"

function utf8_check :: "nat \<Rightarrow> bytes \<Rightarrow> nat + unit" where
  "utf8_check pos bs =
     (if bs = [] then Inr ()
      else if utf8_width bs = 0 then Inl pos
      else utf8_check (pos + utf8_width bs) (drop (utf8_width bs) bs))"
  by pat_completeness auto
termination
  by (relation "measure (\<lambda>(pos, bs). length bs)") auto

declare utf8_check.simps [simp del]

text \<open>\<open>Utf8Error\<close>, of which the model keeps \<open>valid_up_to\<close>.\<close>

datatype utf8_error = Utf8Error (valid_up_to: nat)

definition from_utf8 :: "bytes \<Rightarrow> utf8_error + bytes" where
  "from_utf8 bs = (case utf8_check 0 bs of Inl n \<Rightarrow> Inl (Utf8Error n) | Inr _ \<Rightarrow> Inr bs)"

definition utf8_valid :: "bytes \<Rightarrow> bool" where
  "utf8_valid bs \<longleftrightarrow> utf8_check 0 bs = Inr ()"

lemma from_utf8_valid: "from_utf8 bs = Inr bs \<longleftrightarrow> utf8_valid bs"
  by (auto simp: from_utf8_def utf8_valid_def split: sum.splits)

lemma from_utf8_InrD: "from_utf8 bs = Inr x \<Longrightarrow> x = bs \<and> utf8_valid bs"
  by (auto simp: from_utf8_def utf8_valid_def split: sum.splits)

lemma from_utf8_simps [simp]: "utf8_valid bs \<Longrightarrow> from_utf8 bs = Inr bs"
  by (simp add: from_utf8_valid)

lemma utf8_check_ascii: "\<forall>b\<in>set bs. b < 0x80 \<Longrightarrow> utf8_check pos bs = Inr ()"
proof (induction bs arbitrary: pos)
  case Nil
  then show ?case by (simp add: utf8_check.simps)
next
  case (Cons a bs)
  then show ?case by (subst utf8_check.simps) simp
qed

lemma utf8_valid_ascii: "\<forall>b\<in>set bs. b < 0x80 \<Longrightarrow> utf8_valid bs"
  by (simp add: utf8_valid_def utf8_check_ascii)

lemma utf8_valid_Nil [simp]: "utf8_valid []"
  by (rule utf8_valid_ascii) simp

subsection \<open>Little-endian integers\<close>

definition u64_to_le :: "u64 \<Rightarrow> bytes" where
  "u64_to_le w = map (\<lambda>i. ucast (drop_bit (8 * i) w)) [0..<8]"

fun u64_from_le :: "bytes \<Rightarrow> u64" where
  "u64_from_le [] = 0"
| "u64_from_le (b # bs) = ucast b OR push_bit 8 (u64_from_le bs)"

lemma length_u64_to_le [simp]: "length (u64_to_le w) = 8"
  by (simp add: u64_to_le_def)

lemma bit_u64_from_le:
  "bit (u64_from_le bs) n \<longleftrightarrow> n < 64 \<and> n < 8 * length bs \<and> bit (bs ! (n div 8)) (n mod 8)"
proof (induction bs arbitrary: n)
  case Nil
  then show ?case by simp
next
  case (Cons b bs)
  show ?case
  proof (cases "n < 8")
    case True
    then show ?thesis by (auto simp: bit_simps)
  next
    case False
    then have "n div 8 = Suc ((n - 8) div 8)" "n mod 8 = (n - 8) mod 8"
      by (simp_all add: div_if mod_if)
    moreover have "\<not> bit b n" using False by (auto dest: bit_imp_le_length)
    ultimately show ?thesis using False Cons.IH [of "n - 8"]
      by (auto simp: bit_simps)
  qed
qed

lemma u64_le_roundtrip [simp]: "u64_from_le (u64_to_le w) = w"
proof (rule bit_eqI)
  fix n
  assume "possible_bit TYPE(u64) n"
  then have n: "n < 64" by simp
  then have "n div 8 < 8" by simp
  then show "bit (u64_from_le (u64_to_le w)) n = bit w n"
    using n by (simp add: bit_u64_from_le u64_to_le_def bit_simps)
qed

lemma u64_to_le_from_le:
  assumes "length bs = 8" shows "u64_to_le (u64_from_le bs) = bs"
proof (rule nth_equalityI)
  show "length (u64_to_le (u64_from_le bs)) = length bs" using assms by simp
  fix i assume "i < length (u64_to_le (u64_from_le bs))"
  then have i: "i < 8" by simp
  show "u64_to_le (u64_from_le bs) ! i = bs ! i"
  proof (rule bit_eqI)
    fix n assume "possible_bit TYPE(u8) n"
    then have "n < 8" by simp
    with i assms show "bit (u64_to_le (u64_from_le bs) ! i) n = bit (bs ! i) n"
      by (simp add: u64_to_le_def bit_simps bit_u64_from_le)
  qed
qed

subsection \<open>Association lists\<close>

text \<open>
  A hash map of the program is an association list with distinct keys: the order of its
  entries carries no meaning, the iteration the program does over it does not depend on it.
\<close>

definition alist_remove :: "'k \<Rightarrow> ('k \<times> 'v) list \<Rightarrow> ('k \<times> 'v) list" where
  "alist_remove k m = filter (\<lambda>(k', _). k' \<noteq> k) m"

lemma map_of_alist_remove [simp]:
  "map_of (alist_remove k m) k' = (if k' = k then None else map_of m k')"
  by (induction m) (auto simp: alist_remove_def)

lemma distinct_alist_remove [intro]:
  "distinct (map fst m) \<Longrightarrow> distinct (map fst (alist_remove k m))"
  by (induction m) (auto simp: alist_remove_def)

lemma set_alist_remove [simp]: "set (alist_remove k m) = {e \<in> set m. fst e \<noteq> k}"
  by (auto simp: alist_remove_def)

lemma map_of_eq_Some_iff_mem:
  "distinct (map fst m) \<Longrightarrow> map_of m k = Some v \<longleftrightarrow> (k, v) \<in> set m"
  by (rule map_of_eq_Some_iff)

end
