(* ===== verification/Defs.thy ===== *)
theory Defs
  imports Prelude
begin

text \<open>
  The basic types of \<open>src/lib.rs\<close> (module \<open>defs\<close>): 32-bit ranges into a received buffer,
  ranges whose end is never zero, and the 64-bit non-zero request identifiers.
\<close>

subsection \<open>Ranges\<close>

text \<open>\<open>Range<SizeType>\<close>, the range type the codecs report positions in.\<close>

type_synonym std_range = "u32 \<times> u32"

text \<open>\<open>RangeType([SizeType; 2])\<close>.\<close>

datatype range_type = RangeType (range_start: u32) (range_end: u32)

definition range_from :: "std_range \<Rightarrow> range_type" where
  "range_from r = RangeType (fst r) (snd r)"

definition range_default :: range_type where
  "range_default = RangeType 0 0"

text \<open>\<open>RangeType::range\<close> widens both ends to \<open>usize\<close>; indexing a buffer with the result.\<close>

definition range_usize :: "range_type \<Rightarrow> nat \<times> nat" where
  "range_usize r = (unat (range_start r), unat (range_end r))"

definition index_by :: "bytes \<Rightarrow> range_type \<Rightarrow> bytes outcome" where
  "index_by buf r = (case range_usize r of (lo, hi) \<Rightarrow> index_range buf lo hi)"

text \<open>\<open>NonZeroRangeType(SizeType, NonzeroSizeType)\<close>: the end is a \<open>NonZeroU32\<close>.\<close>

definition nonzero_u32_new :: "u32 \<Rightarrow> u32 option" where
  "nonzero_u32_new n = (if n = 0 then None else Some n)"

datatype nonzero_range = NonZeroRange (nz_begin: u32) (nz_end: u32)

definition nz_range_usize :: "nonzero_range \<Rightarrow> nat \<times> nat" where
  "nz_range_usize r = (unat (nz_begin r), unat (nz_end r))"

lemma index_by_eq: "index_by buf (RangeType a b) = index_range buf (unat a) (unat b)"
  by (simp add: index_by_def range_usize_def)

lemma range_from_simps [simp]:
  "range_start (range_from r) = fst r" "range_end (range_from r) = snd r"
  by (simp_all add: range_from_def)

subsection \<open>Request identifiers\<close>

text \<open>\<open>RequestId(NonZeroU64)\<close>, with its derived comparison.\<close>

datatype request_id = RequestId (request_id_value: u64)

definition nonzero_u64_new :: "u64 \<Rightarrow> u64 option" where
  "nonzero_u64_new n = (if n = 0 then None else Some n)"

definition request_id_ok :: "request_id \<Rightarrow> bool" where
  "request_id_ok i \<longleftrightarrow> request_id_value i \<noteq> 0"

instantiation request_id :: linorder
begin

definition less_eq_request_id :: "request_id \<Rightarrow> request_id \<Rightarrow> bool" where
  "less_eq_request_id a b \<longleftrightarrow> request_id_value a \<le> request_id_value b"

definition less_request_id :: "request_id \<Rightarrow> request_id \<Rightarrow> bool" where
  "less_request_id a b \<longleftrightarrow> request_id_value a < request_id_value b"

instance
  by standard
    (auto simp: less_eq_request_id_def less_request_id_def intro: request_id.expand)

end

text \<open>
  \<open>RequestId::generate\<close> draws a random \<open>NonZeroU64\<close>. The generator of the crate \<open>rand\<close> is
  a parameter: it maps its state to a value and a new state.
\<close>

definition request_id_generate :: "('g \<Rightarrow> u64 \<times> 'g) \<Rightarrow> 'g \<Rightarrow> request_id \<times> 'g" where
  "request_id_generate rnd g = (case rnd g of (v, g') \<Rightarrow> (RequestId v, g'))"

lemma nonzero_u64_new_Some [simp]: "nonzero_u64_new n = Some m \<longleftrightarrow> m = n \<and> n \<noteq> 0"
  by (auto simp: nonzero_u64_new_def)

lemma nonzero_u64_new_None [simp]: "nonzero_u64_new n = None \<longleftrightarrow> n = 0"
  by (simp add: nonzero_u64_new_def)

end
