(* ===== verification/Codec_Types.thy ===== *)
theory Codec_Types
  imports Defs
begin

text \<open>
  \<open>src/codec.rs\<close>: the predefined response error codes and their string and byte codings,
  the frame description a codec reports, the encode and decode errors, and the trait
  \<open>Codec\<close> as a record of its methods. The type parameters of the record are the type
  \<open>'p\<close> of the serialisable values and \<open>'d\<close> of the payload deserializers.
\<close>

subsection \<open>Response errors\<close>

datatype response_error =
  Unknown | InvalidArgument | Unauthorized | Busy | MethodNotFound | Aborted | Unhandled
| NonUtf8MethodName | ParseFailed

definition response_error_default :: response_error where
  "response_error_default = Unknown"

fun is_error_code :: "response_error \<Rightarrow> bool" where
  "is_error_code Unknown = False"
| "is_error_code _ = True"

text \<open>The text of the \<open>#[error(...)]\<close> attribute of each variant, which \<open>to_string\<close> gives.\<close>

fun response_error_display :: "response_error \<Rightarrow> string" where
  "response_error_display Unknown =
     ''Error code couldn't parsed. Parse the payload to acquire more information''"
| "response_error_display InvalidArgument = ''Server failed to parse the request argument.''"
| "response_error_display Unauthorized = ''Unauthorized access to the requested method''"
| "response_error_display Busy = ''Server is too busy!''"
| "response_error_display MethodNotFound = ''Requested method was not routed''"
| "response_error_display Aborted = ''Server explicitly aborted the request''"
| "response_error_display Unhandled = ''Server unhandled the request''"
| "response_error_display NonUtf8MethodName = ''Non UTF-8 Method Name''"
| "response_error_display ParseFailed = ''Couldn't parse the request message''"

fun to_str :: "response_error \<Rightarrow> string" where
  "to_str Unknown = ''RPC_IT_UNKNOWN''"
| "to_str InvalidArgument = ''RPC_IT_INVALID_ARGUMENT''"
| "to_str Unauthorized = ''RPC_IT_UNAUTHORIZED''"
| "to_str Busy = ''RPC_IT_BUSY''"
| "to_str MethodNotFound = ''RPC_IT_METHOD_NOT_FOUND''"
| "to_str Aborted = ''RPC_IT_ABORTED''"
| "to_str Unhandled = ''RPC_IT_UNHANDLED''"
| "to_str NonUtf8MethodName = ''RPC_IT_NON_UTF8_METHOD_NAME''"
| "to_str ParseFailed = ''RPC_IT_PARSE_FAILED''"

text \<open>\<open>FromStr::from_str\<close>, on the bytes of the string.\<close>

definition response_error_from_str :: "bytes \<Rightarrow> unit + response_error" where
  "response_error_from_str s =
     (if s = str ''RPC_IT_UNKNOWN'' then Inr Unknown
      else if s = str ''RPC_IT_INVALID_ARGUMENT'' then Inr InvalidArgument
      else if s = str ''RPC_IT_UNAUTHORIZED'' then Inr Unauthorized
      else if s = str ''RPC_IT_BUSY'' then Inr Busy
      else if s = str ''RPC_IT_METHOD_NOT_FOUND'' then Inr MethodNotFound
      else if s = str ''RPC_IT_ABORTED'' then Inr Aborted
      else if s = str ''RPC_IT_UNHANDLED'' then Inr Unhandled
      else if s = str ''RPC_IT_NON_UTF8_METHOD_NAME'' then Inr NonUtf8MethodName
      else if s = str ''RPC_IT_PARSE_FAILED'' then Inr ParseFailed
      else Inl ())"

definition response_error_of_u8 :: "u8 \<Rightarrow> response_error" where
  "response_error_of_u8 code =
     (if code = 0 then Unknown else if code = 1 then InvalidArgument
      else if code = 2 then Unauthorized else if code = 3 then Busy
      else if code = 4 then MethodNotFound else if code = 5 then Aborted
      else if code = 6 then Unhandled else if code = 7 then NonUtf8MethodName
      else if code = 8 then ParseFailed else Unknown)"

fun u8_of_response_error :: "response_error \<Rightarrow> u8" where
  "u8_of_response_error Unknown = 0"
| "u8_of_response_error InvalidArgument = 1"
| "u8_of_response_error Unauthorized = 2"
| "u8_of_response_error Busy = 3"
| "u8_of_response_error MethodNotFound = 4"
| "u8_of_response_error Aborted = 5"
| "u8_of_response_error Unhandled = 6"
| "u8_of_response_error NonUtf8MethodName = 7"
| "u8_of_response_error ParseFailed = 8"

lemma response_error_of_u8_inverse [simp]:
  "response_error_of_u8 (u8_of_response_error e) = e"
  by (cases e) (simp_all add: response_error_of_u8_def)

lemma response_error_of_u8_Unknown: "8 < code \<Longrightarrow> response_error_of_u8 code = Unknown"
  by (auto simp: response_error_of_u8_def)

lemma response_error_from_str_to_str [simp]: "response_error_from_str (str (to_str e)) = Inr e"
  by (cases e) (simp_all add: response_error_from_str_def str_def)

subsection \<open>Payloads, frames and errors\<close>

datatype 's encode_response_payload =
  PayloadOk 's | ErrCodeOnly response_error | ErrObjectOnly 's | PayloadErr response_error 's

text \<open>\<open>InboundFrameType\<close>: positions of the parts of a received frame.\<close>

datatype inbound_frame_type =
  FrameRequest std_range std_range std_range
    \<comment> \<open>\<open>raw_request_id\<close>, \<open>method\<close>, \<open>params\<close>\<close>
| FrameNotify std_range std_range
    \<comment> \<open>\<open>method\<close>, \<open>params\<close>\<close>
| FrameResponse request_id "response_error option" std_range
    \<comment> \<open>\<open>request_id\<close>, \<open>errc\<close>, \<open>payload\<close>\<close>

text \<open>\<open>SerDeError\<close> is \<open>anyhow::Error\<close>; the model keeps its message.\<close>

datatype serde_error = SerDeError string

datatype encode_error =
  EncUnsupportedAction | NonUtf8StringMethodName | NonUtf8StringPayloadContent
| InvalidRequestId | SerializeFailed serde_error | NotReusable | RequestIdAllocationFailed

datatype decode_error =
  DecUnsupportedAction | UnsupportedProtocol | InvalidFormat | NonUtf8Input
| BufferSizeExceeded u64 | DecParseFailed serde_error

subsection \<open>The trait \<open>Codec\<close>\<close>

text \<open>
  An encoder receives the current content of the caller's buffer and returns the new
  content together with its result, because a failing encoder may leave part of its
  output behind. A decoder gets the scratch buffer and the frame, both of which it may
  change, and may panic.
\<close>

record ('p, 'd) codec =
  codec_reusability_id :: usize
  encode_notify :: "bytes \<Rightarrow> 'p \<Rightarrow> bytes \<Rightarrow> bytes \<times> (encode_error + unit)"
  encode_request :: "request_id \<Rightarrow> bytes \<Rightarrow> 'p \<Rightarrow> bytes \<Rightarrow> bytes \<times> (encode_error + request_id)"
  encode_response ::
    "bytes \<Rightarrow> 'p encode_response_payload \<Rightarrow> bytes \<Rightarrow> bytes \<times> (encode_error + unit)"
  payload_deserializer :: "bytes \<Rightarrow> serde_error + 'd"
  decode_inbound ::
    "bytes \<Rightarrow> bytes \<Rightarrow> (bytes \<times> bytes \<times> (decode_error + inbound_frame_type)) outcome"
  restore_request_id :: "bytes \<Rightarrow> decode_error + request_id"

text \<open>The provided method \<open>codec_reusability_id\<close> of the trait: not reusable.\<close>

definition default_codec_reusability_id :: usize where
  "default_codec_reusability_id = 0"

text \<open>
  \<open>ParseMessage::parse\<close> on a codec and payload bytes: \<open>deserialize\<close> is serde's
  \<open>R::deserialize\<close> on the codec's deserializer.
\<close>

definition parse_message ::
  "('p, 'd) codec \<Rightarrow> ('d \<Rightarrow> string + 'r) \<Rightarrow> bytes \<Rightarrow> serde_error + 'r" where
  "parse_message c deserialize payload =
     (case payload_deserializer c payload of
        Inl e \<Rightarrow> Inl e
      | Inr de \<Rightarrow> map_err SerDeError (deserialize de))"

end
