(* ===== verification/Jsonrpc.thy ===== *)
theory Jsonrpc
  imports Codec_Types
begin

text \<open>
  The JSON-RPC 2.0 codec of \<open>src/ext_codec/jsonrpc.rs\<close>: the request identifier as a
  hexadecimal string, the mapping of the error codes to JSON-RPC codes, the objects the
  encoders write and the classification of a received object. Reading and writing JSON
  text is the crate \<open>serde_json\<close>, a parameter: \<open>js_write\<close> is what it appends for an object
  (all of it, or a part and an error) and \<open>js_read\<close> the fields it finds in a frame. Their
  strings and raw values are references; nothing in the types says that they point into the
  frame, so a reference is a position relative to the frame, of either sign, and its text.
\<close>

subsection \<open>Hexadecimal identifiers\<close>

text \<open>\<open>format!("{:x}", value)\<close>.\<close>

definition hex_digit :: "nat \<Rightarrow> u8" where
  "hex_digit d = (if d < 10 then word_of_nat (48 + d) else word_of_nat (87 + d))"

fun hex_digits :: "nat \<Rightarrow> bytes" where
  "hex_digits n = (if n < 16 then [hex_digit n] else hex_digits (n div 16) @ [hex_digit (n mod 16)])"

declare hex_digits.simps [simp del]

definition request_id_to_hex :: "request_id \<Rightarrow> bytes" where
  "request_id_to_hex i = hex_digits (unat (request_id_value i))"

text \<open>
  \<open>u64::from_str_radix(s, 16)\<close>: a single sign character is no number, a leading plus is
  accepted, digits are of either case, and the value has to fit.
\<close>

definition hex_value :: "u8 \<Rightarrow> nat option" where
  "hex_value b =
     (if 48 \<le> b \<and> b \<le> 57 then Some (unat b - 48)
      else if 97 \<le> b \<and> b \<le> 102 then Some (unat b - 87)
      else if 65 \<le> b \<and> b \<le> 70 then Some (unat b - 55)
      else None)"

fun hex_fold :: "nat \<Rightarrow> bytes \<Rightarrow> nat option" where
  "hex_fold acc [] = Some acc"
| "hex_fold acc (b # bs) =
     (case hex_value b of
        None \<Rightarrow> None
      | Some d \<Rightarrow> if 16 * acc + d < 2 ^ 64 then hex_fold (16 * acc + d) bs else None)"

definition u64_from_str_radix16 :: "bytes \<Rightarrow> u64 option" where
  "u64_from_str_radix16 s =
     (case s of
        [] \<Rightarrow> None
      | b # bs \<Rightarrow>
          if bs = [] \<and> (b = 43 \<or> b = 45) then None
          else map_option word_of_nat (hex_fold 0 (if b = 43 then bs else s)))"

definition req_id_from_str :: "bytes \<Rightarrow> decode_error + request_id" where
  "req_id_from_str s =
     (case u64_from_str_radix16 s of
        None \<Rightarrow> Inl InvalidFormat
      | Some v \<Rightarrow> map_sum id RequestId (ok_or InvalidFormat (nonzero_u64_new v)))"

definition json_restore_request_id :: "bytes \<Rightarrow> decode_error + request_id" where
  "json_restore_request_id raw =
     (case from_utf8 raw of Inl _ \<Rightarrow> Inl NonUtf8Input | Inr s \<Rightarrow> req_id_from_str s)"

subsection \<open>Error codes\<close>

text \<open>
  The codes are \<open>i64\<close>, here integers in that range; subtraction panics on overflow with
  overflow checks on and wraps otherwise.
\<close>

definition INVALID_REQUEST :: int where "INVALID_REQUEST = - 32600"
definition METHOD_NOT_FOUND :: int where "METHOD_NOT_FOUND = - 32601"
definition INVALID_PARAMS :: int where "INVALID_PARAMS = - 32602"
definition INTERNAL_ERROR :: int where "INTERNAL_ERROR = - 32603"
definition PARSE_ERROR :: int where "PARSE_ERROR = - 32700"
definition INTERNAL_ERROR_OFFSET :: int where "INTERNAL_ERROR_OFFSET = - 41000"

lemmas errc_defs = INVALID_REQUEST_def METHOD_NOT_FOUND_def INVALID_PARAMS_def INTERNAL_ERROR_def
  PARSE_ERROR_def INTERNAL_ERROR_OFFSET_def

fun error_to_errc :: "response_error \<Rightarrow> int" where
  "error_to_errc InvalidArgument = INVALID_PARAMS"
| "error_to_errc MethodNotFound = METHOD_NOT_FOUND"
| "error_to_errc NonUtf8MethodName = INVALID_REQUEST"
| "error_to_errc ParseFailed = PARSE_ERROR"
| "error_to_errc Unauthorized = INVALID_REQUEST"
| "error_to_errc ec = uint (u8_of_response_error ec) + INTERNAL_ERROR_OFFSET"

definition i64_wrap :: "int \<Rightarrow> int" where
  "i64_wrap x = (x + 2 ^ 63) mod 2 ^ 64 - 2 ^ 63"

definition i64_sub :: "bool \<Rightarrow> int \<Rightarrow> int \<Rightarrow> int outcome" where
  "i64_sub checked a b =
     (if checked \<and> (a - b < - (2 ^ 63) \<or> 2 ^ 63 \<le> a - b) then Panic else Done (i64_wrap (a - b)))"

text \<open>\<open>u8::try_from(...).unwrap_or_default()\<close> is 0 out of range.\<close>

definition u8_try_from :: "int \<Rightarrow> u8" where
  "u8_try_from x = (if 0 \<le> x \<and> x < 256 then word_of_int x else 0)"

definition errc_to_error :: "bool \<Rightarrow> int \<Rightarrow> response_error outcome" where
  "errc_to_error checked errc =
     (if errc = INVALID_REQUEST then Done InvalidArgument
      else if errc = METHOD_NOT_FOUND then Done MethodNotFound
      else if errc = INVALID_PARAMS then Done InvalidArgument
      else if errc = PARSE_ERROR then Done ParseFailed
      else obind (i64_sub checked errc INTERNAL_ERROR_OFFSET)
             (\<lambda>d. Done (response_error_of_u8 (u8_try_from d))))"

subsection \<open>The objects that are written\<close>

text \<open>A JSON object as the list of its fields, in order; \<open>JValue\<close> is a value of the user.\<close>

datatype 'p json_field =
  JStr string bytes | JInt string int | JValue string 'p | JObject string "'p json_field list"

record 'p json_ops =
  js_write :: "'p json_field list \<Rightarrow> bytes \<times> (serde_error + unit)"

definition json_serialize ::
  "'p json_ops \<Rightarrow> 'p json_field list \<Rightarrow> bytes \<Rightarrow> bytes \<times> (encode_error + unit)" where
  "json_serialize js obj buf =
     (case js_write js obj of (out, r) \<Rightarrow> (buf @ out, map_err SerializeFailed r))"

definition json_encode_notify ::
  "'p json_ops \<Rightarrow> bytes \<Rightarrow> 'p \<Rightarrow> bytes \<Rightarrow> bytes \<times> (encode_error + unit)" where
  "json_encode_notify js meth params buf =
     json_serialize js [JStr ''jsonrpc'' (str ''2.0''), JStr ''method'' meth, JValue ''params'' params] buf"

definition json_encode_request ::
  "'p json_ops \<Rightarrow> request_id \<Rightarrow> bytes \<Rightarrow> 'p \<Rightarrow> bytes \<Rightarrow> bytes \<times> (encode_error + request_id)" where
  "json_encode_request js i meth params buf =
     (case json_serialize js
         [JStr ''jsonrpc'' (str ''2.0''), JStr ''method'' meth, JValue ''params'' params,
          JStr ''id'' (request_id_to_hex i)] buf of
        (buf1, r) \<Rightarrow> (buf1, map_sum id (\<lambda>_. i) r))"

text \<open>The fields \<open>result\<close> and \<open>error\<close> are skipped when they are \<open>None\<close>.\<close>

fun json_response_fields :: "bytes \<Rightarrow> 'p encode_response_payload \<Rightarrow> 'p json_field list" where
  "json_response_fields i (PayloadOk r) =
     [JStr ''jsonrpc'' (str ''2.0''), JValue ''result'' r, JStr ''id'' i]"
| "json_response_fields i (ErrCodeOnly ec) =
     [JStr ''jsonrpc'' (str ''2.0''),
      JObject ''error'' [JInt ''code'' (error_to_errc ec),
        JStr ''message'' (str (response_error_display ec)),
        JStr ''data'' (str (response_error_display ec))],
      JStr ''id'' i]"
| "json_response_fields i (ErrObjectOnly obj) =
     [JStr ''jsonrpc'' (str ''2.0''),
      JObject ''error'' [JInt ''code'' INTERNAL_ERROR, JStr ''message'' (str ''internal error''),
        JValue ''data'' obj],
      JStr ''id'' i]"
| "json_response_fields i (PayloadErr ec obj) =
     [JStr ''jsonrpc'' (str ''2.0''),
      JObject ''error'' [JInt ''code'' (error_to_errc ec),
        JStr ''message'' (str (response_error_display ec)), JValue ''data'' obj],
      JStr ''id'' i]"

definition json_encode_response ::
  "'p json_ops \<Rightarrow> bytes \<Rightarrow> 'p encode_response_payload \<Rightarrow> bytes \<Rightarrow> bytes \<times> (encode_error + unit)" where
  "json_encode_response js raw result buf =
     (case from_utf8 raw of
        Inl _ \<Rightarrow> (buf, Inl InvalidRequestId)
      | Inr i \<Rightarrow> json_serialize js (json_response_fields i result) buf)"

subsection \<open>Classifying a received object\<close>

text \<open>
  A borrowed string: the distance of its first byte from the first byte of the frame, and its
  text. \<open>borrow\<close> is the reference to a part of the frame.
\<close>

record json_slice =
  str_at :: int
  str_text :: bytes

definition borrow :: "bytes \<Rightarrow> nat \<Rightarrow> nat \<Rightarrow> json_slice" where
  "borrow frame start len = \<lparr>str_at = int start, str_text = sub_bytes start (start + len) frame\<rparr>"

text \<open>\<open>RawData\<close> and \<open>RawErrorObject\<close>.\<close>

record raw_error_object =
  re_code :: "int option"
  re_data :: "json_slice option"

record raw_data =
  rd_jsonrpc :: json_slice
  rd_method :: "json_slice option"
  rd_params :: "json_slice option"
  rd_result :: "json_slice option"
  rd_error :: "raw_error_object option"
  rd_id :: "json_slice option"

text \<open>
  The subtraction of the two addresses panics with overflow checks on when the string starts
  in front of the frame, and wraps otherwise; no allocation wraps around the address space, so
  the sum with the length does not overflow by itself. Both bounds are truncated to 32 bits.
\<close>

definition json_range_of :: "bool \<Rightarrow> json_slice \<Rightarrow> std_range outcome" where
  "json_range_of checked s =
     (if checked \<and> str_at s < 0 then Panic
      else Done (word_of_int (str_at s), word_of_int (str_at s + int (length (str_text s)))))"

text \<open>The fields of a \<open>Response\<close> are evaluated in order: identifier, error code, payload.\<close>

definition json_response ::
  "json_slice \<Rightarrow> response_error option outcome \<Rightarrow> std_range outcome
   \<Rightarrow> (decode_error + inbound_frame_type) outcome" where
  "json_response i errc payload =
     (case req_id_from_str (str_text i) of
        Inl e \<Rightarrow> Done (Inl e)
      | Inr rid \<Rightarrow> obind errc (\<lambda>e. obind payload (\<lambda>p. Done (Inr (FrameResponse rid e p)))))"

definition json_classify ::
  "bool \<Rightarrow> raw_data \<Rightarrow> (decode_error + inbound_frame_type) outcome" where
  "json_classify checked raw =
     (case (rd_method raw, rd_params raw, rd_result raw, rd_error raw, rd_id raw) of
        (Some meth, Some params, _, _, Some i) \<Rightarrow>
          obind (json_range_of checked i) (\<lambda>ri.
          obind (json_range_of checked meth) (\<lambda>rm.
          obind (json_range_of checked params) (\<lambda>rp. Done (Inr (FrameRequest ri rm rp)))))
      | (Some meth, Some params, _, _, None) \<Rightarrow>
          obind (json_range_of checked meth) (\<lambda>rm.
          obind (json_range_of checked params) (\<lambda>rp. Done (Inr (FrameNotify rm rp))))
      | (_, _, Some result, _, Some i) \<Rightarrow>
          json_response i (Done None) (json_range_of checked result)
      | (_, _, None, Some err, Some i) \<Rightarrow>
          json_response i
            (obind (errc_to_error checked (case re_code err of None \<Rightarrow> INTERNAL_ERROR | Some n \<Rightarrow> n))
               (\<lambda>e. Done (Some e)))
            (case re_data err of None \<Rightarrow> Done (0, 0) | Some d \<Rightarrow> json_range_of checked d)
      | _ \<Rightarrow> Done (Inl (DecParseFailed (SerDeError ''Invalid JSON-RPC frame received''))))"

definition json_decode_inbound ::
  "(bytes \<Rightarrow> serde_error + raw_data) \<Rightarrow> bool \<Rightarrow> bytes \<Rightarrow> bytes
   \<Rightarrow> (bytes \<times> bytes \<times> (decode_error + inbound_frame_type)) outcome" where
  "json_decode_inbound js_read checked scratch frame =
     (case from_utf8 frame of
        Inl _ \<Rightarrow> Done (scratch, frame, Inl NonUtf8Input)
      | Inr _ \<Rightarrow>
          (case js_read frame of
             Inl e \<Rightarrow> Done (scratch, frame, Inl (DecParseFailed e))
           | Inr raw \<Rightarrow>
               if str_text (rd_jsonrpc raw) \<noteq> str ''2.0''
               then Done (scratch, frame, Inl UnsupportedProtocol)
               else obind (json_classify checked raw) (\<lambda>r. Done (scratch, frame, r))))"

definition json_codec ::
  "'p json_ops \<Rightarrow> (bytes \<Rightarrow> serde_error + raw_data) \<Rightarrow> (bytes \<Rightarrow> 'd) \<Rightarrow> bool \<Rightarrow> usize \<Rightarrow> ('p, 'd) codec" where
  "json_codec js js_read de checked addr =
     \<lparr>codec_reusability_id = addr,
      encode_notify = json_encode_notify js,
      encode_request = json_encode_request js,
      encode_response = json_encode_response js,
      payload_deserializer = (\<lambda>payload. Inr (de payload)),
      decode_inbound = json_decode_inbound js_read checked,
      restore_request_id = json_restore_request_id\<rparr>"

subsection \<open>Facts about hexadecimal numbers\<close>

lemma hex_value_digit: "d < 16 \<Longrightarrow> hex_value (hex_digit d) = Some d"
proof -
  assume "d < 16"
  then have "d \<in> {0, 1, 2, 3, 4, 5, 6, 7, 8, 9, 10, 11, 12, 13, 14, 15}" by (simp, presburger)
  then show ?thesis by (elim insertE; simp add: hex_digit_def hex_value_def)
qed

lemma hex_digit_ascii: "d < 16 \<Longrightarrow> hex_digit d < 0x80 \<and> hex_digit d \<noteq> 43 \<and> hex_digit d \<noteq> 45"
proof -
  assume "d < 16"
  then have "d \<in> {0, 1, 2, 3, 4, 5, 6, 7, 8, 9, 10, 11, 12, 13, 14, 15}" by (simp, presburger)
  then show ?thesis by (elim insertE; simp add: hex_digit_def)
qed

lemma hex_fold_append:
  "hex_fold acc (xs @ [b]) = (case hex_fold acc xs of None \<Rightarrow> None | Some n \<Rightarrow> hex_fold n [b])"
  by (induction acc xs rule: hex_fold.induct) (auto split: option.splits)

lemma hex_fold_digits: "n < 2 ^ 64 \<Longrightarrow> hex_fold 0 (hex_digits n) = Some n"
proof (induction n rule: hex_digits.induct)
  case (1 n)
  show ?case
  proof (cases "n < 16")
    case True
    then show ?thesis by (simp add: hex_digits.simps [of n] hex_value_digit)
  next
    case False
    have "hex_fold 0 (hex_digits (n div 16)) = Some (n div 16)" using 1 False by simp
    moreover have "16 * (n div 16) + n mod 16 = n" by simp
    ultimately show ?thesis using 1(2) False
      by (simp add: hex_digits.simps [of n] hex_fold_append hex_value_digit)
  qed
qed

lemma hex_digits_shape:
  "hex_digits n \<noteq> [] \<and> (\<forall>b \<in> set (hex_digits n). b < 0x80 \<and> b \<noteq> 43 \<and> b \<noteq> 45)"
proof (induction n rule: hex_digits.induct)
  case (1 n)
  show ?case
  proof (cases "n < 16")
    case True
    then show ?thesis using hex_digit_ascii [of n] by (simp add: hex_digits.simps [of n])
  next
    case False
    then show ?thesis using 1 hex_digit_ascii [of "n mod 16"] by (auto simp: hex_digits.simps [of n])
  qed
qed

lemma from_str_radix_digits: "n < 2 ^ 64 \<Longrightarrow> u64_from_str_radix16 (hex_digits n) = Some (word_of_nat n)"
  using hex_digits_shape [of n] hex_fold_digits [of n]
  by (cases "hex_digits n") (auto simp: u64_from_str_radix16_def)

lemma hex_fold_bound: "hex_fold acc bs = Some n \<Longrightarrow> acc < 2 ^ 64 \<Longrightarrow> n < 2 ^ 64"
  by (induction acc bs rule: hex_fold.induct) (auto split: option.splits if_splits)

subsection \<open>Properties\<close>

lemma hex_roundtrip:
  assumes "request_id_ok i"
  shows "req_id_from_str (request_id_to_hex i) = Inr i \<and>
    json_restore_request_id (request_id_to_hex i) = Inr i \<and>
    (\<forall>b \<in> set (request_id_to_hex i). b < 0x80)"
proof -
  have "unat (request_id_value i) < 2 ^ LENGTH(64)" by (rule unsigned_less)
  then have bound: "unat (request_id_value i) < 2 ^ 64" by simp
  have "req_id_from_str (request_id_to_hex i) = Inr i"
    using assms from_str_radix_digits [OF bound]
    by (cases i) (simp add: req_id_from_str_def request_id_to_hex_def request_id_ok_def nonzero_u64_new_def)
  moreover have ascii: "\<forall>b \<in> set (request_id_to_hex i). b < 0x80"
    using hex_digits_shape by (simp add: request_id_to_hex_def)
  ultimately show ?thesis
    using utf8_valid_ascii [OF ascii] by (simp add: json_restore_request_id_def)
qed

text \<open>Request identifiers survive JSON: the hexadecimal string an identifier is written as is
  plain ASCII, and reading it back, as the response decoder and \<open>restore_request_id\<close> do,
  gives the same identifier, for every non-zero 64-bit identifier.\<close>

theorem json_request_id_roundtrip:
  assumes "request_id_ok i"
  shows "req_id_from_str (request_id_to_hex i) = Inr i \<and>
    json_restore_request_id (request_id_to_hex i) = Inr i \<and>
    (\<forall>b \<in> set (request_id_to_hex i). b < 0x80)"
  using assms by (rule hex_roundtrip)

theorem json_request_id_roundtrip_witness:
  "request_id_to_hex (RequestId 0xBEEF) = str ''beef'' \<and> req_id_from_str (str ''beef'') = Inr (RequestId 0xBEEF)"
proof -
  have "request_id_to_hex (RequestId 0xBEEF) = str ''beef''"
    by (simp add: request_id_to_hex_def hex_digits.simps hex_digit_def str_def)
  then show ?thesis
    using json_request_id_roundtrip [of "RequestId 0xBEEF"] by (simp add: request_id_ok_def)
qed

text \<open>
  Decoding the code an error is written with gives the same error, up to two that are written
  as an invalid request; the code written for an error object alone arrives as \<open>Unknown\<close>.
\<close>

lemma json_codes:
  "errc_to_error checked (error_to_errc e) =
     Done (if e = Unauthorized \<or> e = NonUtf8MethodName then InvalidArgument else e) \<and>
   errc_to_error checked INTERNAL_ERROR = Done Unknown"
  by (cases e)
    (simp_all add: errc_defs errc_to_error_def i64_sub_def i64_wrap_def u8_try_from_def response_error_of_u8_def)

lemma errc_to_error_panics:
  "- (2 ^ 63) \<le> n \<Longrightarrow> n < 2 ^ 63 \<Longrightarrow> errc_to_error checked n = Panic \<longleftrightarrow> checked \<and> 2 ^ 63 - 41000 \<le> n"
  "errc_to_error checked INTERNAL_ERROR \<noteq> Panic"
  by (auto simp: errc_to_error_def errc_defs i64_sub_def)

definition codes_in_range :: "raw_data \<Rightarrow> bool" where
  "codes_in_range raw \<longleftrightarrow>
     (\<forall>err n. rd_error raw = Some err \<longrightarrow> re_code err = Some n \<longrightarrow> - (2 ^ 63) \<le> n \<and> n < 2 ^ 63)"

definition overflowing_error :: "raw_data \<Rightarrow> bool" where
  "overflowing_error raw \<longleftrightarrow>
     (rd_method raw = None \<or> rd_params raw = None) \<and> rd_result raw = None \<and>
     (\<exists>err n i rid. rd_error raw = Some err \<and> re_code err = Some n \<and> 2 ^ 63 - 41000 \<le> n \<and>
        rd_id raw = Some i \<and> req_id_from_str (str_text i) = Inr rid)"

text \<open>The references whose position the decoder computes.\<close>

definition json_converted :: "raw_data \<Rightarrow> json_slice list" where
  "json_converted raw =
     (case (rd_method raw, rd_params raw, rd_id raw) of
        (Some m, Some p, Some i) \<Rightarrow> [i, m, p]
      | (Some m, Some p, None) \<Rightarrow> [m, p]
      | (_, _, None) \<Rightarrow> []
      | (_, _, Some i) \<Rightarrow>
          (case (req_id_from_str (str_text i), rd_result raw, rd_error raw) of
             (Inl _, _, _) \<Rightarrow> []
           | (Inr _, Some r, _) \<Rightarrow> [r]
           | (Inr _, None, Some err) \<Rightarrow> (case re_data err of None \<Rightarrow> [] | Some d \<Rightarrow> [d])
           | (Inr _, None, None) \<Rightarrow> []))"

lemma obind_Panic_iff: "obind m f = Panic \<longleftrightarrow> m = Panic \<or> (\<exists>x. m = Done x \<and> f x = Panic)"
  by (cases m) auto

lemma json_range_of_Panic: "json_range_of checked s = Panic \<longleftrightarrow> checked \<and> str_at s < 0"
  by (simp add: json_range_of_def)

lemma json_range_of_Done:
  "json_range_of checked s \<noteq> Panic \<Longrightarrow> \<exists>r. json_range_of checked s = Done r"
  by (simp add: json_range_of_def split: if_splits)

text \<open>The five branches of the classification.\<close>

definition not_call :: "raw_data \<Rightarrow> bool" where
  "not_call raw \<longleftrightarrow> rd_method raw = None \<or> rd_params raw = None"

lemma json_classify_call:
  "rd_method raw = Some meth \<Longrightarrow> rd_params raw = Some params \<Longrightarrow> json_classify checked raw =
     (case rd_id raw of
        Some i \<Rightarrow>
          obind (json_range_of checked i) (\<lambda>ri.
          obind (json_range_of checked meth) (\<lambda>rm.
          obind (json_range_of checked params) (\<lambda>rp. Done (Inr (FrameRequest ri rm rp)))))
      | None \<Rightarrow>
          obind (json_range_of checked meth) (\<lambda>rm.
          obind (json_range_of checked params) (\<lambda>rp. Done (Inr (FrameNotify rm rp)))))"
  by (cases "rd_id raw"; cases "rd_result raw"; cases "rd_error raw") (simp_all add: json_classify_def)

lemma json_classify_result:
  "not_call raw \<Longrightarrow> rd_id raw = Some i \<Longrightarrow> rd_result raw = Some result \<Longrightarrow>
     json_classify checked raw = json_response i (Done None) (json_range_of checked result)"
  by (cases "rd_method raw"; cases "rd_params raw"; cases "rd_error raw")
    (simp_all add: json_classify_def not_call_def)

lemma json_classify_error:
  "not_call raw \<Longrightarrow> rd_id raw = Some i \<Longrightarrow> rd_result raw = None \<Longrightarrow> rd_error raw = Some err \<Longrightarrow>
     json_classify checked raw = json_response i
       (obind (errc_to_error checked (case re_code err of None \<Rightarrow> INTERNAL_ERROR | Some n \<Rightarrow> n))
          (\<lambda>e. Done (Some e)))
       (case re_data err of None \<Rightarrow> Done (0, 0) | Some d \<Rightarrow> json_range_of checked d)"
  by (cases "rd_method raw"; cases "rd_params raw") (simp_all add: json_classify_def not_call_def)

lemma json_classify_other:
  "not_call raw \<Longrightarrow> rd_id raw = None \<or> rd_result raw = None \<and> rd_error raw = None \<Longrightarrow>
     json_classify checked raw =
       Done (Inl (DecParseFailed (SerDeError ''Invalid JSON-RPC frame received'')))"
  by (cases "rd_method raw"; cases "rd_params raw"; cases "rd_result raw"; cases "rd_error raw"; cases "rd_id raw")
    (simp_all add: json_classify_def not_call_def)

lemma json_response_panics:
  "json_response i errc p = Panic \<longleftrightarrow>
     (\<exists>rid. req_id_from_str (str_text i) = Inr rid) \<and> (errc = Panic \<or> (\<exists>e. errc = Done e) \<and> p = Panic)"
  by (auto simp: json_response_def obind_Panic_iff split: sum.splits)

lemma errc_to_error_defined: "errc_to_error checked n \<noteq> Undef"
  by (simp add: errc_to_error_def i64_sub_def)

text \<open>What a panic of the classification comes from.\<close>

lemma json_classify_panics:
  assumes "codes_in_range raw"
  shows "json_classify checked raw = Panic \<longleftrightarrow>
    checked \<and> (overflowing_error raw \<or> (\<exists>s \<in> set (json_converted raw). str_at s < 0))"
proof (cases "not_call raw")
  case False
  then obtain m p where call: "rd_method raw = Some m" "rd_params raw = Some p" by (auto simp: not_call_def)
  then show ?thesis using json_range_of_Done
    by (cases "rd_id raw")
      (auto simp: json_classify_call json_converted_def overflowing_error_def obind_Panic_iff json_range_of_Panic)
next
  case call: True
  then have conv: "json_converted raw = (case rd_id raw of None \<Rightarrow> [] | Some i \<Rightarrow>
      (case (req_id_from_str (str_text i), rd_result raw, rd_error raw) of
         (Inl _, _, _) \<Rightarrow> []
       | (Inr _, Some r, _) \<Rightarrow> [r]
       | (Inr _, None, Some err) \<Rightarrow> (case re_data err of None \<Rightarrow> [] | Some d \<Rightarrow> [d])
       | (Inr _, None, None) \<Rightarrow> []))"
    by (auto simp: json_converted_def not_call_def split: option.split)
  show ?thesis
  proof (cases "rd_id raw = None \<or> rd_result raw = None \<and> rd_error raw = None")
    case True
    then show ?thesis using json_classify_other [OF call]
      by (auto simp: overflowing_error_def conv split: option.split sum.split)
  next
    case False
    then obtain i where i: "rd_id raw = Some i" by auto
    show ?thesis
    proof (cases "rd_result raw")
      case (Some result)
      then show ?thesis using json_classify_result [OF call i Some]
        by (auto simp: overflowing_error_def json_response_panics json_range_of_Panic conv i split: sum.split)
    next
      case None
      then obtain err where err: "rd_error raw = Some err" using False by auto
      let ?code = "case re_code err of None \<Rightarrow> INTERNAL_ERROR | Some n \<Rightarrow> n"
      have panic: "errc_to_error checked ?code = Panic \<longleftrightarrow> checked \<and> (\<exists>n. re_code err = Some n \<and> 2 ^ 63 - 41000 \<le> n)"
        using assms err errc_to_error_panics
        by (cases "re_code err") (simp_all add: codes_in_range_def)
      have "\<exists>e. errc_to_error checked ?code = Done e" if "errc_to_error checked ?code \<noteq> Panic"
        using that errc_to_error_defined by (cases "errc_to_error checked ?code") auto
      then have "json_classify checked raw = Panic \<longleftrightarrow> (\<exists>rid. req_id_from_str (str_text i) = Inr rid) \<and>
          (errc_to_error checked ?code = Panic \<or>
           (\<exists>d. re_data err = Some d \<and> checked \<and> str_at d < 0))"
        unfolding json_classify_error [OF call i None err]
        by (cases "re_data err") (auto simp: json_response_panics obind_Panic_iff obind_Done_iff json_range_of_Panic)
      then show ?thesis using call i None err panic
        by (cases "re_data err") (auto simp: overflowing_error_def not_call_def conv split: sum.split)
    qed
  qed
qed

text \<open>C30: A frame can make the JSON decoder panic only in a build with overflow checks, and only in
  one of two ways: it is an error response whose error code is within 41000 of the top of
  the 64-bit range, so that subtracting the offset overflows; or one of the references
  whose position is computed (identifier, method and parameters of a call, result or error
  data of a response with a readable identifier) starts in front of the frame, so that
  subtracting the addresses overflows, as the comment on \<open>range_of\<close> warns. A remote can
  bring about the first; the second takes a JSON library that hands out strings which do
  not point into the frame. Whatever else the JSON reader finds, the decoder returns.\<close>

theorem json_decode_panics_iff:
  assumes "js_read frame = Inr raw" and "codes_in_range raw"
  shows "json_decode_inbound js_read checked scratch frame = Panic \<longleftrightarrow>
    checked \<and> utf8_valid frame \<and> str_text (rd_jsonrpc raw) = str ''2.0'' \<and>
    (overflowing_error raw \<or> (\<exists>s \<in> set (json_converted raw). str_at s < 0))"
proof (cases "utf8_valid frame")
  case True
  then show ?thesis
    using assms(1) json_classify_panics [OF assms(2)] by (simp add: json_decode_inbound_def)
next
  case False
  then obtain e where "from_utf8 frame = Inl e"
    by (cases "from_utf8 frame") (auto dest: from_utf8_InrD)
  then show ?thesis using False by (simp add: json_decode_inbound_def)
qed

text \<open>
  Readers for the witness: one finds an error response with the identifier \<open>7\<close> in any frame,
  the other a notification whose method does not come from the frame.
\<close>

definition read_error :: "int \<Rightarrow> bytes \<Rightarrow> serde_error + raw_data" where
  "read_error n frame = Inr \<lparr>rd_jsonrpc = borrow frame 0 3, rd_method = None, rd_params = None, rd_result = None,
     rd_error = Some \<lparr>re_code = Some n, re_data = None\<rparr>, rd_id = Some (borrow frame 3 1)\<rparr>"

definition read_stray :: "bytes \<Rightarrow> serde_error + raw_data" where
  "read_stray frame = Inr \<lparr>rd_jsonrpc = borrow frame 0 3, rd_method = Some \<lparr>str_at = - 8, str_text = [0x41]\<rparr>,
     rd_params = Some (borrow frame 3 1), rd_result = None, rd_error = None, rd_id = None\<rparr>"

theorem json_decode_panics_iff_witness:
  "json_decode_inbound (read_error (2 ^ 63 - 1)) True [] (str ''2.07'') = Panic \<and>
   json_decode_inbound (read_error (2 ^ 63 - 1)) False [] (str ''2.07'') \<noteq> Panic \<and>
   json_decode_inbound (read_error (- 32601)) True [] (str ''2.07'') \<noteq> Panic \<and>
   json_decode_inbound read_stray True [] (str ''2.07'') = Panic"
proof -
  let ?f = "str ''2.07''"
  let ?raw = "\<lambda>n. \<lparr>rd_jsonrpc = borrow ?f 0 3, rd_method = None, rd_params = None, rd_result = None,
     rd_error = Some \<lparr>re_code = Some n, re_data = None\<rparr>, rd_id = Some (borrow ?f 3 1)\<rparr> :: raw_data"
  let ?stray = "\<lparr>rd_jsonrpc = borrow ?f 0 3, rd_method = Some \<lparr>str_at = - 8, str_text = [0x41]\<rparr>,
     rd_params = Some (borrow ?f 3 1), rd_result = None, rd_error = None, rd_id = None\<rparr> :: raw_data"
  have head: "utf8_valid ?f" "str_text (borrow ?f 0 3) = str ''2.0''"
    by (rule utf8_valid_ascii, simp add: str_def) code_simp
  have "str_text (borrow ?f 3 1) = [0x37]" by code_simp
  moreover have "req_id_from_str [0x37] = Inr (RequestId 7)"
    by (simp add: req_id_from_str_def u64_from_str_radix16_def hex_value_def nonzero_u64_new_def)
  ultimately have over: "overflowing_error (?raw n) \<longleftrightarrow> 2 ^ 63 - 41000 \<le> n"
    "json_converted (?raw n) = []" for n
    by (simp_all add: overflowing_error_def json_converted_def)
  have err: "read_error n ?f = Inr (?raw n)" for n by (simp add: read_error_def)
  have stray: "read_stray ?f = Inr ?stray" by (simp add: read_stray_def)
  have range: "codes_in_range (?raw (2 ^ 63 - 1))" "codes_in_range (?raw (- 32601))" "codes_in_range ?stray"
    by (simp_all add: codes_in_range_def)
  have "\<exists>s \<in> set (json_converted ?stray). str_at s < 0" by (simp add: json_converted_def)
  then show ?thesis
    using json_decode_panics_iff [where js_read = "read_error (2 ^ 63 - 1)", OF err range(1)]
      json_decode_panics_iff [where js_read = "read_error (- 32601)", OF err range(2)]
      json_decode_panics_iff [where js_read = read_stray, OF stray range(3)] head over
    by simp
qed

text \<open>The decoder's answer depends on the fields that are present and on nothing else: a method
  and parameters make a request when there is an identifier and a notification when there
  is none; otherwise a result with an identifier is a successful response, an error with
  an identifier and no result an error response, and everything else is rejected, as is
  any frame that does not name version 2.0.\<close>

theorem json_decode_classifies:
  assumes "utf8_valid frame" and "js_read frame = Inr raw"
    and "json_decode_inbound js_read checked s frame = Done (s', frame', Inr ft)"
  shows "s' = s \<and> frame' = frame \<and> str_text (rd_jsonrpc raw) = str ''2.0'' \<and>
    (case ft of
       FrameRequest i m p \<Rightarrow> \<exists>is ms ps. rd_id raw = Some is \<and> rd_method raw = Some ms \<and> rd_params raw = Some ps \<and>
         json_range_of checked is = Done i \<and> json_range_of checked ms = Done m \<and> json_range_of checked ps = Done p
     | FrameNotify m p \<Rightarrow> \<exists>ms ps. rd_id raw = None \<and> rd_method raw = Some ms \<and> rd_params raw = Some ps \<and>
         json_range_of checked ms = Done m \<and> json_range_of checked ps = Done p
     | FrameResponse i e p \<Rightarrow> (rd_method raw = None \<or> rd_params raw = None) \<and>
         (\<exists>is. rd_id raw = Some is \<and> req_id_from_str (str_text is) = Inr i) \<and>
         (if e = None then \<exists>rs. rd_result raw = Some rs \<and> json_range_of checked rs = Done p
          else rd_result raw = None \<and> rd_error raw \<noteq> None))"
proof -
  have head: "str_text (rd_jsonrpc raw) = str ''2.0''" "s' = s" "frame' = frame"
    and cls: "json_classify checked raw = Done (Inr ft)"
    using assms by (auto simp: json_decode_inbound_def obind_Done_iff split: if_splits)
  have resp: "\<exists>rid e' r. req_id_from_str (str_text i) = Inr rid \<and> errc = Done e' \<and> p = Done r \<and>
      ft = FrameResponse rid e' r"
    if "json_response i errc p = Done (Inr ft)" for i errc p
    using that by (auto simp: json_response_def obind_Done_iff split: sum.splits)
  consider "\<not> not_call raw" | "not_call raw" "rd_id raw = None \<or> rd_result raw = None \<and> rd_error raw = None"
    | i result where "not_call raw" "rd_id raw = Some i" "rd_result raw = Some result"
    | i err where "not_call raw" "rd_id raw = Some i" "rd_result raw = None" "rd_error raw = Some err"
    by (cases "not_call raw"; cases "rd_id raw"; cases "rd_result raw"; cases "rd_error raw") simp_all
  then show ?thesis
  proof cases
    case 1
    then obtain meth params where "rd_method raw = Some meth" "rd_params raw = Some params"
      by (auto simp: not_call_def)
    then show ?thesis
      using head cls json_classify_call [of raw meth params checked]
      by (cases "rd_id raw") (auto simp: obind_Done_iff)
  next
    case 2
    then show ?thesis using cls json_classify_other by simp
  next
    case (3 i result)
    then show ?thesis using head cls json_classify_result [OF 3, of checked]
        resp [of i "Done None" "json_range_of checked result"]
      by (auto simp: not_call_def)
  next
    case (4 i err)
    let ?errc = "obind (errc_to_error checked (case re_code err of None \<Rightarrow> INTERNAL_ERROR | Some n \<Rightarrow> n))
        (\<lambda>e. Done (Some e))"
    let ?p = "case re_data err of None \<Rightarrow> Done (0, 0) | Some d \<Rightarrow> json_range_of checked d"
    have "json_response i ?errc ?p = Done (Inr ft)"
      using cls json_classify_error [OF 4, of checked] by simp
    then obtain rid e' r where "req_id_from_str (str_text i) = Inr rid" "?errc = Done e'"
      "ft = FrameResponse rid e' r"
      using resp by metis
    then show ?thesis using head 4 by (auto simp: not_call_def obind_Done_iff)
  qed
qed

text \<open>A reader that finds a notification in the frame.\<close>

definition read_notify :: "bytes \<Rightarrow> serde_error + raw_data" where
  "read_notify frame = Inr \<lparr>rd_jsonrpc = borrow frame 0 3, rd_method = Some (borrow frame 3 1),
     rd_params = Some (borrow frame 4 1), rd_result = None, rd_error = None, rd_id = None\<rparr>"

theorem json_decode_classifies_witness:
  "json_decode_inbound read_notify True [] (str ''2.0M1'') = Done ([], str ''2.0M1'', Inr (FrameNotify (3, 4) (4, 5))) \<and>
   (\<exists>raw. read_notify (str ''2.0M1'') = Inr raw \<and> str_text (rd_jsonrpc raw) = str ''2.0'')"
proof -
  let ?f = "str ''2.0M1''"
  have valid: "utf8_valid ?f" by (rule utf8_valid_ascii) (simp add: str_def)
  obtain raw where read: "read_notify ?f = Inr raw" by (simp add: read_notify_def)
  have "str_text (borrow ?f 0 3) = str ''2.0''" "str_text (borrow ?f 3 1) = [0x4D]" "str_text (borrow ?f 4 1) = [0x31]"
    by code_simp+
  then have dec: "json_decode_inbound read_notify True [] ?f = Done ([], ?f, Inr (FrameNotify (3, 4) (4, 5)))"
    using valid
    by (simp add: json_decode_inbound_def read_notify_def json_classify_def json_range_of_def) (simp add: borrow_def)
  show ?thesis using dec read json_decode_classifies [OF valid read dec] by simp
qed

end
