(* ===== verification/Codec_Contract.thy ===== *)
theory Codec_Contract
  imports Codec_Types
begin

text \<open>
  What a connection relies on from its codec, as the documentation of the trait \<open>Codec\<close> in
  \<open>src/codec.rs\<close> describes it: a frame that was encoded is decoded as the same kind of
  message with the same method, payload and identifier, and the raw identifier found in a
  request frame is the one a response to it has to carry. The locale \<open>codec_contract\<close> is
  interpreted for the codecs of the crate in their own theories.
\<close>

text \<open>The error code and the object a response carries.\<close>

fun payload_errc :: "'p encode_response_payload \<Rightarrow> response_error option" where
  "payload_errc (PayloadOk p) = None"
| "payload_errc (ErrCodeOnly e) = Some e"
| "payload_errc (ErrObjectOnly p) = Some Unknown"
| "payload_errc (PayloadErr e p) = Some e"

fun payload_object :: "'p encode_response_payload \<Rightarrow> 'p option" where
  "payload_object (PayloadOk p) = Some p"
| "payload_object (ErrCodeOnly e) = None"
| "payload_object (ErrObjectOnly p) = Some p"
| "payload_object (PayloadErr e p) = Some p"

text \<open>
  \<open>good_method\<close> are the method names the codec transports, \<open>payload_of\<close> is the encoding of
  a value, and \<open>carried\<close> what becomes of an error code on the way. A codec may keep the
  contract for some request identifiers and some responses only: \<open>good_id\<close> and
  \<open>good_response\<close>.
\<close>

locale codec_contract =
  fixes c :: "('p, 'd) codec"
    and good_method :: "bytes \<Rightarrow> bool"
    and payload_of :: "'p \<Rightarrow> bytes"
    and carried :: "response_error \<Rightarrow> response_error"
    and good_id :: "request_id \<Rightarrow> bool"
    and good_response :: "'p encode_response_payload \<Rightarrow> bool"
  assumes good_method_utf8: "good_method m \<Longrightarrow> utf8_valid m"
    and notify_decodes:
      "good_method m \<Longrightarrow> encode_notify c m p [] = (f, Inr ()) \<Longrightarrow> length f < 2 ^ 32 \<Longrightarrow>
       \<exists>mr pr. decode_inbound c s f = Done (s, f, Inr (FrameNotify mr pr)) \<and>
         index_by f (range_from mr) = Done m \<and> index_by f (range_from pr) = Done (payload_of p)"
    and request_decodes:
      "request_id_ok i \<Longrightarrow> good_method m \<Longrightarrow> encode_request c i m p [] = (f, Inr i') \<Longrightarrow>
       length f < 2 ^ 32 \<Longrightarrow> good_id i' \<Longrightarrow>
       \<exists>rid mr pr raw. decode_inbound c s f = Done (s, f, Inr (FrameRequest rid mr pr)) \<and>
         index_by f (range_from mr) = Done m \<and> index_by f (range_from pr) = Done (payload_of p) \<and>
         snd rid \<noteq> 0 \<and> index_by f (range_from rid) = Done raw \<and> restore_request_id c raw = Inr i'"
    and response_decodes:
      "restore_request_id c raw = Inr i \<Longrightarrow> encode_response c raw r [] = (f, Inr ()) \<Longrightarrow>
       length f < 2 ^ 32 \<Longrightarrow> good_response r \<Longrightarrow>
       \<exists>pr. decode_inbound c s f =
           Done (s, f, Inr (FrameResponse i (map_option carried (payload_errc r)) pr)) \<and>
         (\<forall>p. payload_object r = Some p \<longrightarrow> index_by f (range_from pr) = Done (payload_of p))"

end
