(* ===== verification/Json_Contract.thy ===== *)
theory Json_Contract
  imports Jsonrpc Codec_Contract
begin

text \<open>
  The JSON-RPC codec keeps the contract of a connection, given that \<open>serde_json\<close> reads back
  the objects it writes. A string the codec borrows from the frame has to stand there
  literally, so it must not contain characters that JSON escapes.
\<close>

subsection \<open>The contract of the JSON library\<close>

text \<open>What JSON writes without an escape: no quote, no backslash, no control character.\<close>

definition plain_byte :: "u8 \<Rightarrow> bool" where
  "plain_byte b \<longleftrightarrow> 0x20 \<le> b \<and> b \<noteq> 0x22 \<and> b \<noteq> 0x5C"

definition plain :: "bytes \<Rightarrow> bool" where
  "plain s \<longleftrightarrow> (\<forall>b \<in> set s. plain_byte b)"

fun field_name :: "'p json_field \<Rightarrow> string" where
  "field_name (JStr k _) = k"
| "field_name (JInt k _) = k"
| "field_name (JValue k _) = k"
| "field_name (JObject k _) = k"

definition field_named :: "string \<Rightarrow> 'p json_field list \<Rightarrow> 'p json_field option" where
  "field_named k obj = find (\<lambda>f. field_name f = k) obj"

text \<open>A reference that points into the frame.\<close>

definition slice_in :: "bytes \<Rightarrow> json_slice \<Rightarrow> bool" where
  "slice_in frame s \<longleftrightarrow>
     0 \<le> str_at s \<and> nat (str_at s) + length (str_text s) \<le> length frame \<and>
     str_text s = sub_bytes (nat (str_at s)) (nat (str_at s) + length (str_text s)) frame"

lemma slice_in_borrow:
  assumes "a + n \<le> length frame"
  shows "slice_in frame (borrow frame a n)"
proof -
  have "length (sub_bytes a (a + n) frame) = n" using assms by (simp add: sub_bytes_def)
  then show ?thesis using assms by (simp add: slice_in_def borrow_def)
qed

text \<open>
  How a field of \<open>RawData\<close> relates to the field that was written: a string is borrowed, a
  value is borrowed with its text \<open>value_bytes\<close>, a missing field is \<open>None\<close>.
\<close>

fun reads_str :: "bytes \<Rightarrow> 'p json_field option \<Rightarrow> json_slice option \<Rightarrow> bool" where
  "reads_str out None sl \<longleftrightarrow> sl = None"
| "reads_str out (Some (JStr _ s)) sl \<longleftrightarrow> (\<exists>x. sl = Some x \<and> slice_in out x \<and> str_text x = s)"
| "reads_str out (Some _) sl \<longleftrightarrow> False"

fun reads_value :: "('p \<Rightarrow> bytes) \<Rightarrow> bytes \<Rightarrow> 'p json_field option \<Rightarrow> json_slice option \<Rightarrow> bool" where
  "reads_value value_bytes out None sl \<longleftrightarrow> sl = None"
| "reads_value value_bytes out (Some (JValue _ p)) sl \<longleftrightarrow>
     (\<exists>x. sl = Some x \<and> slice_in out x \<and> str_text x = value_bytes p)"
| "reads_value value_bytes out (Some _) sl \<longleftrightarrow> (\<exists>x. sl = Some x \<and> slice_in out x)"

fun reads_error :: "('p \<Rightarrow> bytes) \<Rightarrow> bytes \<Rightarrow> 'p json_field option \<Rightarrow> raw_error_object option \<Rightarrow> bool" where
  "reads_error value_bytes out None e \<longleftrightarrow> e = None"
| "reads_error value_bytes out (Some (JObject _ fs)) e \<longleftrightarrow> (\<exists>x. e = Some x \<and>
     (\<forall>k n. field_named ''code'' fs = Some (JInt k n) \<longrightarrow> re_code x = Some n) \<and>
     reads_value value_bytes out (field_named ''data'' fs) (re_data x))"
| "reads_error value_bytes out (Some _) e \<longleftrightarrow> False"

definition reads_object :: "('p \<Rightarrow> bytes) \<Rightarrow> bytes \<Rightarrow> 'p json_field list \<Rightarrow> raw_data \<Rightarrow> bool" where
  "reads_object value_bytes out obj raw \<longleftrightarrow>
     reads_str out (field_named ''jsonrpc'' obj) (Some (rd_jsonrpc raw)) \<and>
     reads_str out (field_named ''method'' obj) (rd_method raw) \<and>
     reads_value value_bytes out (field_named ''params'' obj) (rd_params raw) \<and>
     reads_value value_bytes out (field_named ''result'' obj) (rd_result raw) \<and>
     reads_error value_bytes out (field_named ''error'' obj) (rd_error raw) \<and>
     reads_str out (field_named ''id'' obj) (rd_id raw)"

text \<open>
  The objects the law speaks of: no name twice, each name with a field of its type, and the
  strings that are borrowed without escapes.
\<close>

fun typed_field :: "'p json_field \<Rightarrow> bool" where
  "typed_field (JStr k s) \<longleftrightarrow> k \<in> {''jsonrpc'', ''method'', ''id''} \<and> plain s \<and> utf8_valid s"
| "typed_field (JInt k n) \<longleftrightarrow> False"
| "typed_field (JValue k p) \<longleftrightarrow> k \<in> {''params'', ''result''}"
| "typed_field (JObject k fs) \<longleftrightarrow> k = ''error'' \<and> map field_name fs = [''code'', ''message'', ''data''] \<and>
     (\<exists>n. fs ! 0 = JInt ''code'' n \<and> - (2 ^ 63) \<le> n \<and> n < 2 ^ 63) \<and> (\<exists>s. fs ! 1 = JStr ''message'' s \<and> utf8_valid s) \<and>
     ((\<exists>s. fs ! 2 = JStr ''data'' s \<and> utf8_valid s) \<or> (\<exists>p. fs ! 2 = JValue ''data'' p))"

definition typed_object :: "'p json_field list \<Rightarrow> bool" where
  "typed_object obj \<longleftrightarrow> distinct (map field_name obj) \<and> list_all typed_field obj \<and> field_named ''jsonrpc'' obj \<noteq> None"

locale serde_json =
  fixes js :: "'p json_ops" and js_read :: "bytes \<Rightarrow> serde_error + raw_data" and value_bytes :: "'p \<Rightarrow> bytes"
  assumes reads_back: "js_write js obj = (out, Inr ()) \<Longrightarrow> typed_object obj \<Longrightarrow>
    utf8_valid out \<and> (\<exists>raw. js_read out = Inr raw \<and> reads_object value_bytes out obj raw)"

subsection \<open>What the codec writes\<close>

text \<open>The names a method may have, and what becomes of an error code.\<close>

definition json_method :: "bytes \<Rightarrow> bool" where
  "json_method m \<longleftrightarrow> utf8_valid m \<and> plain m"

definition json_carried :: "response_error \<Rightarrow> response_error" where
  "json_carried e = (if e = Unauthorized \<or> e = NonUtf8MethodName then InvalidArgument else e)"

lemma str_plain: "plain (str ''2.0'')" "utf8_valid (str ''2.0'')"
  by (simp add: plain_def plain_byte_def str_def, rule utf8_valid_ascii) (simp add: str_def)

lemma hex_value_byte: "hex_value b = Some d \<Longrightarrow> plain_byte b \<and> b < 0x80"
proof -
  assume "hex_value b = Some d"
  then consider "48 \<le> b" "b \<le> 57" | "97 \<le> b" "b \<le> 102" | "65 \<le> b" "b \<le> 70"
    by (auto simp: hex_value_def split: if_splits)
  then show ?thesis by cases (auto simp: plain_byte_def word_le_nat_alt word_less_nat_alt word_unat_eq_iff)
qed

lemma hex_fold_plain: "hex_fold acc bs = Some n \<Longrightarrow> b \<in> set bs \<Longrightarrow> plain_byte b \<and> b < 0x80"
  by (induction acc bs rule: hex_fold.induct) (auto split: option.splits if_splits dest: hex_value_byte)

text \<open>An identifier that can be read is not empty and needs no escapes.\<close>

lemma req_id_plain:
  assumes "req_id_from_str s = Inr i"
  shows "s \<noteq> [] \<and> plain s"
proof -
  obtain v where v: "u64_from_str_radix16 s = Some v"
    using assms by (auto simp: req_id_from_str_def split: option.splits)
  then obtain b bs where s: "s = b # bs" by (cases s) (auto simp: u64_from_str_radix16_def)
  have plus: "plain_byte 43" by (simp add: plain_byte_def)
  show ?thesis
    using v hex_fold_plain [of 0 bs] hex_fold_plain [of 0 s] plus
    by (auto simp: s u64_from_str_radix16_def plain_def simp del: hex_fold.simps split: if_splits)
qed

lemma json_range:
  assumes "slice_in frame x" and "length frame < 2 ^ 32"
  obtains r where "json_range_of checked x = Done r" "index_by frame (range_from r) = Done (str_text x)"
    "str_text x \<noteq> [] \<longrightarrow> snd r \<noteq> 0"
proof -
  let ?a = "nat (str_at x)" and ?b = "nat (str_at x) + length (str_text x)"
  let ?r = "(word_of_int (str_at x), word_of_int (str_at x + int (length (str_text x)))) :: std_range"
  have pos: "0 \<le> str_at x" and bound: "?b \<le> length frame" and part: "str_text x = sub_bytes ?a ?b frame"
    using assms(1) by (simp_all add: slice_in_def)
  have r: "?r = (word_of_nat ?a, word_of_nat ?b)" using pos by (simp add: of_nat_nat)
  have a: "unat (word_of_nat ?a :: u32) = ?a" and b: "unat (word_of_nat ?b :: u32) = ?b"
    using bound assms(2) by (simp_all add: unsigned_of_nat take_bit_nat_eq_self del: of_nat_add)
  have "index_by frame (range_from ?r) = Done (str_text x)"
    using a b bound part unfolding r
    by (simp add: range_from_def index_by_eq index_range_def del: of_nat_add)
  moreover have "snd ?r \<noteq> 0" if "str_text x \<noteq> []"
  proof
    assume "snd ?r = 0"
    then have "?b = 0" using b unfolding r by (simp del: of_nat_add)
    then show False using that by simp
  qed
  moreover have "json_range_of checked x = Done ?r" using pos by (simp add: json_range_of_def)
  ultimately show thesis using that by blast
qed

lemma json_serialize_ok: "json_serialize js obj [] = (f, Inr ()) \<Longrightarrow> js_write js obj = (f, Inr ())"
  by (cases "js_write js obj") (auto simp: json_serialize_def)

lemma error_codes_in_range: "- (2 ^ 63) \<le> error_to_errc e" "error_to_errc e < 2 ^ 63"
  by (cases e; simp add: errc_defs)+

lemma response_fields_typed:
  assumes "plain i" and "utf8_valid i"
  shows "typed_object (json_response_fields i r)"
proof -
  have "utf8_valid (str (response_error_display e))" for e
    by (rule utf8_valid_ascii) (cases e; simp add: str_def)
  moreover have "utf8_valid (str ''internal error'')" by (rule utf8_valid_ascii) (simp add: str_def)
  ultimately show ?thesis
    using assms str_plain error_codes_in_range
    by (cases r) (simp_all add: typed_object_def field_named_def errc_defs)
qed

lemma call_typed:
  assumes "json_method m" and "plain i" and "utf8_valid i"
  shows "typed_object [JStr ''jsonrpc'' (str ''2.0''), JStr ''method'' m, JValue ''params'' p]"
    and "typed_object [JStr ''jsonrpc'' (str ''2.0''), JStr ''method'' m, JValue ''params'' p, JStr ''id'' i]"
  using assms str_plain by (simp_all add: typed_object_def field_named_def json_method_def)

subsection \<open>What the codec reads back\<close>

context serde_json
begin

text \<open>The frame is accepted, and what is left is the classification of the fields.\<close>

lemma read_frame:
  assumes "json_serialize js obj [] = (f, Inr ())" and "typed_object obj"
    and "field_named ''jsonrpc'' obj = Some (JStr k (str ''2.0''))"
  obtains raw where "reads_object value_bytes f obj raw"
    "json_decode_inbound js_read checked s f = obind (json_classify checked raw) (\<lambda>r. Done (s, f, r))"
proof -
  obtain raw where raw: "utf8_valid f" "js_read f = Inr raw" "reads_object value_bytes f obj raw"
    using reads_back [OF json_serialize_ok [OF assms(1)] assms(2)] by blast
  then show thesis using that assms(3) by (simp add: json_decode_inbound_def reads_object_def)
qed

lemma notify_decodes:
  assumes "json_method m" and "json_encode_notify js m p [] = (f, Inr ())" and "length f < 2 ^ 32"
  shows "\<exists>mr pr. json_decode_inbound js_read checked s f = Done (s, f, Inr (FrameNotify mr pr)) \<and>
    index_by f (range_from mr) = Done m \<and> index_by f (range_from pr) = Done (value_bytes p)"
proof -
  let ?obj = "[JStr ''jsonrpc'' (str ''2.0''), JStr ''method'' m, JValue ''params'' p]"
  obtain raw where raw: "reads_object value_bytes f ?obj raw"
    "json_decode_inbound js_read checked s f = obind (json_classify checked raw) (\<lambda>r. Done (s, f, r))"
  proof (rule read_frame)
    show "json_serialize js ?obj [] = (f, Inr ())" using assms(2) by (simp add: json_encode_notify_def)
    show "typed_object ?obj" using call_typed(1) [OF assms(1), of "[]"] by (simp add: plain_def)
    show "field_named ''jsonrpc'' ?obj = Some (JStr ''jsonrpc'' (str ''2.0''))" by (simp add: field_named_def)
  qed
  then obtain ms ps where "rd_method raw = Some ms" "slice_in f ms" "str_text ms = m"
    "rd_params raw = Some ps" "slice_in f ps" "str_text ps = value_bytes p" "rd_id raw = None"
    by (auto simp: reads_object_def field_named_def)
  moreover from this obtain mr pr where "json_range_of checked ms = Done mr" "index_by f (range_from mr) = Done m"
    "json_range_of checked ps = Done pr" "index_by f (range_from pr) = Done (value_bytes p)"
    by (metis json_range [OF _ assms(3)])
  ultimately show ?thesis using raw(2) json_classify_call [of raw ms ps checked] by auto
qed

lemma request_decodes:
  assumes "request_id_ok i" and "json_method m" and "json_encode_request js i m p [] = (f, Inr i')"
    and "length f < 2 ^ 32"
  shows "\<exists>rid mr pr raw. json_decode_inbound js_read checked s f = Done (s, f, Inr (FrameRequest rid mr pr)) \<and>
    index_by f (range_from mr) = Done m \<and> index_by f (range_from pr) = Done (value_bytes p) \<and>
    snd rid \<noteq> 0 \<and> index_by f (range_from rid) = Done raw \<and> json_restore_request_id raw = Inr i'"
proof -
  let ?i = "request_id_to_hex i"
  let ?obj = "[JStr ''jsonrpc'' (str ''2.0''), JStr ''method'' m, JValue ''params'' p, JStr ''id'' ?i]"
  have id: "req_id_from_str ?i = Inr i" "json_restore_request_id ?i = Inr i" "\<forall>b \<in> set ?i. b < 0x80"
    using hex_roundtrip [OF assms(1)] by simp_all
  have ser: "json_serialize js ?obj [] = (f, Inr ())" "i' = i"
    using assms(3) by (auto simp: json_encode_request_def map_sum_def split: prod.split_asm sum.split_asm)
  obtain raw where raw: "reads_object value_bytes f ?obj raw"
    "json_decode_inbound js_read checked s f = obind (json_classify checked raw) (\<lambda>r. Done (s, f, r))"
  proof (rule read_frame [OF ser(1)])
    show "typed_object ?obj"
      using call_typed(2) [OF assms(2), of ?i p] req_id_plain [OF id(1)] utf8_valid_ascii [OF id(3)] by simp
    show "field_named ''jsonrpc'' ?obj = Some (JStr ''jsonrpc'' (str ''2.0''))" by (simp add: field_named_def)
  qed
  then obtain ms ps "is" where found: "rd_method raw = Some ms" "slice_in f ms" "str_text ms = m"
    "rd_params raw = Some ps" "slice_in f ps" "str_text ps = value_bytes p"
    "rd_id raw = Some is" "slice_in f is" "str_text is = ?i"
    by (auto simp: reads_object_def field_named_def)
  obtain ri where ri: "json_range_of checked is = Done ri" "index_by f (range_from ri) = Done ?i" "snd ri \<noteq> 0"
    using json_range [OF found(8) assms(4), of checked] found(9) req_id_plain [OF id(1)] by metis
  obtain rm rp where "json_range_of checked ms = Done rm" "index_by f (range_from rm) = Done m"
    "json_range_of checked ps = Done rp" "index_by f (range_from rp) = Done (value_bytes p)"
    using found by (metis json_range [OF _ assms(4)])
  then show ?thesis
    using raw(2) found ri json_classify_call [of raw ms ps checked] id(2) ser(2) by auto
qed

lemma response_decodes:
  assumes "json_restore_request_id raw_id = Inr i" and "json_encode_response js raw_id r [] = (f, Inr ())"
    and "length f < 2 ^ 32"
  shows "\<exists>pr. json_decode_inbound js_read checked s f =
      Done (s, f, Inr (FrameResponse i (map_option json_carried (payload_errc r)) pr)) \<and>
    (\<forall>p. payload_object r = Some p \<longrightarrow> index_by f (range_from pr) = Done (value_bytes p))"
proof -
  have id: "utf8_valid raw_id" "req_id_from_str raw_id = Inr i"
    using assms(1) by (auto simp: json_restore_request_id_def dest: from_utf8_InrD split: sum.split_asm)
  let ?obj = "json_response_fields raw_id r"
  obtain raw where raw: "reads_object value_bytes f ?obj raw"
    "json_decode_inbound js_read checked s f = obind (json_classify checked raw) (\<lambda>r. Done (s, f, r))"
  proof (rule read_frame)
    show "json_serialize js ?obj [] = (f, Inr ())" using assms(2) id(1) by (simp add: json_encode_response_def)
    show "typed_object ?obj" using response_fields_typed id req_id_plain by blast
    show "field_named ''jsonrpc'' ?obj = Some (JStr ''jsonrpc'' (str ''2.0''))"
      by (cases r) (simp_all add: field_named_def)
  qed
  have head: "not_call raw" "\<exists>is. rd_id raw = Some is \<and> str_text is = raw_id"
    using raw(1) by (cases r; auto simp: reads_object_def field_named_def not_call_def)+
  then obtain "is" where ids: "rd_id raw = Some is" "str_text is = raw_id" by blast
  show ?thesis
  proof (cases "payload_errc r")
    case None
    then obtain p where r: "r = PayloadOk p" by (cases r) simp_all
    then obtain ps where "rd_result raw = Some ps" "slice_in f ps" "str_text ps = value_bytes p"
      using raw(1) by (auto simp: reads_object_def field_named_def)
    moreover from this obtain pr where "json_range_of checked ps = Done pr"
      "index_by f (range_from pr) = Done (value_bytes p)"
      by (metis json_range [OF _ assms(3)])
    ultimately show ?thesis
      using raw(2) r ids id(2) json_classify_result [OF head(1) ids(1), of ps checked]
      by (auto simp: json_response_def)
  next
    case (Some e)
    let ?code = "if payload_object r \<noteq> None \<and> (\<exists>p. r = ErrObjectOnly p) then INTERNAL_ERROR else error_to_errc e"
    obtain err where err: "rd_error raw = Some err" "rd_result raw = None" "re_code err = Some ?code"
      and data: "\<exists>d. re_data err = Some d \<and> slice_in f d \<and>
        (\<forall>p. payload_object r = Some p \<longrightarrow> str_text d = value_bytes p)"
      using raw(1) Some by (cases r) (auto simp: reads_object_def field_named_def)
    have "errc_to_error checked ?code = Done (json_carried e)"
      using json_codes [of checked e] Some by (cases r) (auto simp: json_carried_def)
    moreover obtain d pr where "re_data err = Some d" "json_range_of checked d = Done pr"
      "\<forall>p. payload_object r = Some p \<longrightarrow> index_by f (range_from pr) = Done (value_bytes p)"
      using data by (metis json_range [OF _ assms(3)])
    ultimately show ?thesis
      using raw(2) Some ids id(2) err json_classify_error [OF head(1) ids(1) err(2,1), of checked]
      by (auto simp: json_response_def)
  qed
qed

end

sublocale serde_json \<subseteq> json: codec_contract "json_codec js js_read de checked addr" json_method value_bytes json_carried "\<lambda>_. True" "\<lambda>_. True"
  for de checked addr
  by unfold_locales
    (use notify_decodes request_decodes response_decodes in \<open>auto simp: json_codec_def json_method_def\<close>)

context serde_json
begin

lemma contract: "codec_contract (json_codec js js_read de checked addr) json_method value_bytes json_carried (\<lambda>_. True) (\<lambda>_. True)"
  by (rule json.codec_contract_axioms)

end

end
