(* ===== verification/Json_Text.thy ===== *)
theory Json_Text
  imports Json_Contract
begin

text \<open>
  An instance of the contract \<open>serde_json\<close>: a writer and a reader of JSON text without white
  space and without escapes. It refuses to write strings that would need an escape or are
  not ASCII. Values are such strings. The reader gives positions in the frame, as lengths
  of what follows.
\<close>

subsection \<open>Writing\<close>

definition clean :: "bytes \<Rightarrow> bool" where
  "clean s \<longleftrightarrow> plain s \<and> (\<forall>b \<in> set s. b < 0x80)"

definition quoted :: "bytes \<Rightarrow> bytes" where
  "quoted s = 0x22 # s @ [0x22]"

fun dec_digits :: "nat \<Rightarrow> bytes" where
  "dec_digits n = (if n < 10 then [word_of_nat (48 + n)] else dec_digits (n div 10) @ [word_of_nat (48 + n mod 10)])"

declare dec_digits.simps [simp del]

definition int_text :: "int \<Rightarrow> bytes" where
  "int_text n = (if n < 0 then 0x2D # dec_digits (nat (- n)) else dec_digits (nat n))"

text \<open>The members of an object, with the closing brace.\<close>

fun members_text :: "('p json_field \<Rightarrow> bytes option) \<Rightarrow> 'p json_field list \<Rightarrow> bytes option" where
  "members_text val [] = Some [0x7D]"
| "members_text val (f # fs) =
     (if clean (str (field_name f)) then
        (case (val f, members_text val fs) of
           (Some v, Some rest) \<Rightarrow>
             Some (quoted (str (field_name f)) @ [0x3A] @ v @ (if fs = [] then [] else [0x2C]) @ rest)
         | _ \<Rightarrow> None)
      else None)"

fun scalar_text :: "bytes json_field \<Rightarrow> bytes option" where
  "scalar_text (JStr k s) = (if clean s then Some (quoted s) else None)"
| "scalar_text (JInt k n) = Some (int_text n)"
| "scalar_text (JValue k p) = (if clean p then Some (quoted p) else None)"
| "scalar_text (JObject k fs) = None"

fun value_text :: "bytes json_field \<Rightarrow> bytes option" where
  "value_text (JObject k fs) = map_option (\<lambda>t. 0x7B # t) (members_text scalar_text fs)"
| "value_text f = scalar_text f"

definition text_ops :: "bytes json_ops" where
  "text_ops = \<lparr>js_write = (\<lambda>obj. case members_text value_text obj of
      None \<Rightarrow> ([], Inl (SerDeError ''not supported'')) | Some t \<Rightarrow> (0x7B # t, Inr ()))\<rparr>"

subsection \<open>Reading\<close>

text \<open>A member is its name, what is left at the start and at the end of its value, and its token.\<close>

datatype json_token = TokText | TokNum int | TokObject "(bytes \<times> nat \<times> nat \<times> json_token) list"

type_synonym json_entry = "bytes \<times> nat \<times> nat \<times> json_token"

definition read_quoted :: "bytes \<Rightarrow> (bytes \<times> bytes) option" where
  "read_quoted bs =
     (case bs of [] \<Rightarrow> None
      | q # r \<Rightarrow> if q = 0x22 then
          (case dropWhile (\<lambda>b. b \<noteq> 0x22) r of [] \<Rightarrow> None | _ # r' \<Rightarrow> Some (takeWhile (\<lambda>b. b \<noteq> 0x22) r, r'))
        else None)"

definition is_digit :: "u8 \<Rightarrow> bool" where
  "is_digit b \<longleftrightarrow> 48 \<le> b \<and> b \<le> 57"

definition dec_value :: "bytes \<Rightarrow> nat" where
  "dec_value ds = foldl (\<lambda>acc b. 10 * acc + (unat b - 48)) 0 ds"

definition read_int :: "bytes \<Rightarrow> int \<times> bytes" where
  "read_int bs =
     (case bs of
        b # r \<Rightarrow> if b = 0x2D then (- int (dec_value (takeWhile is_digit r)), dropWhile is_digit r)
          else (int (dec_value (takeWhile is_digit bs)), dropWhile is_digit bs)
      | [] \<Rightarrow> (0, []))"

definition read_scalar :: "bytes \<Rightarrow> (json_token \<times> bytes) option" where
  "read_scalar bs =
     (case read_quoted bs of
        Some (_, r) \<Rightarrow> Some (TokText, r)
      | None \<Rightarrow> (case read_int bs of (n, r) \<Rightarrow> Some (TokNum n, r)))"

fun read_members :: "nat \<Rightarrow> (bytes \<Rightarrow> (json_token \<times> bytes) option) \<Rightarrow> bytes
   \<Rightarrow> (json_entry list \<times> bytes) option" where
  "read_members 0 rv bs = None"
| "read_members (Suc n) rv bs =
     (if bs = [] then None
      else if hd bs = 0x7D then Some ([], tl bs)
      else (case read_quoted bs of
          None \<Rightarrow> None
        | Some (k, r1) \<Rightarrow>
            (case rv (tl r1) of
               None \<Rightarrow> None
             | Some (t, r2) \<Rightarrow>
                 map_option (\<lambda>(es, r). ((k, length (tl r1), length r2, t) # es, r))
                   (read_members n rv (if r2 \<noteq> [] \<and> hd r2 = 0x2C then tl r2 else r2)))))"

definition read_value :: "bytes \<Rightarrow> (json_token \<times> bytes) option" where
  "read_value bs =
     (if bs \<noteq> [] \<and> hd bs = 0x7B then
        map_option (\<lambda>(es, r). (TokObject es, r)) (read_members (length bs) read_scalar (tl bs))
      else read_scalar bs)"

fun whole_slice :: "bytes \<Rightarrow> nat \<times> nat \<times> json_token \<Rightarrow> json_slice" where
  "whole_slice frame (a, b, t) = borrow frame (length frame - a) (a - b)"

fun text_slice :: "bytes \<Rightarrow> nat \<times> nat \<times> json_token \<Rightarrow> json_slice option" where
  "text_slice frame (a, b, TokText) = Some (borrow frame (length frame - a + 1) (a - b - 2))"
| "text_slice frame (a, b, t) = None"

fun error_of :: "bytes \<Rightarrow> nat \<times> nat \<times> json_token \<Rightarrow> raw_error_object option" where
  "error_of frame (a, b, TokObject ms) =
     Some \<lparr>re_code = (case map_of ms (str ''code'') of Some (_, _, TokNum n) \<Rightarrow> Some n | _ \<Rightarrow> None),
       re_data = map_option (whole_slice frame) (map_of ms (str ''data''))\<rparr>"
| "error_of frame (a, b, t) = None"

definition raw_of :: "bytes \<Rightarrow> json_entry list \<Rightarrow> raw_data option" where
  "raw_of frame es =
     (let text_at = (\<lambda>k. Option.bind (map_of es (str k)) (text_slice frame));
          value_at = (\<lambda>k. map_option (whole_slice frame) (map_of es (str k)))
      in map_option (\<lambda>v. \<lparr>rd_jsonrpc = v, rd_method = text_at ''method'', rd_params = value_at ''params'',
             rd_result = value_at ''result'', rd_error = Option.bind (map_of es (str ''error'')) (error_of frame),
             rd_id = text_at ''id''\<rparr>)
           (text_at ''jsonrpc''))"

definition text_read :: "bytes \<Rightarrow> serde_error + raw_data" where
  "text_read frame =
     (case Option.bind (read_members (length frame) read_value (tl frame)) (\<lambda>(es, _). raw_of frame es) of
        None \<Rightarrow> Inl (SerDeError ''malformed'')
      | Some raw \<Rightarrow> Inr raw)"

subsection \<open>Scalars are read back\<close>

lemma read_quoted_text:
  assumes "\<forall>b \<in> set s. b \<noteq> 0x22"
  shows "read_quoted (quoted s @ rest) = Some (s, rest)"
proof -
  have "takeWhile (\<lambda>b. b \<noteq> 0x22) (s @ 0x22 # rest) = s" "dropWhile (\<lambda>b. b \<noteq> 0x22) (s @ 0x22 # rest) = 0x22 # rest"
    using assms by (simp_all add: takeWhile_append2 dropWhile_append2)
  then show ?thesis by (simp add: read_quoted_def quoted_def)
qed

lemma clean_no_quote: "clean s \<Longrightarrow> \<forall>b \<in> set s. b \<noteq> 0x22"
  by (auto simp: clean_def plain_def plain_byte_def)

lemma digit_byte: "d < 10 \<Longrightarrow> is_digit (word_of_nat (48 + d)) \<and> unat (word_of_nat (48 + d) :: u8) = 48 + d"
proof -
  assume "d < 10"
  then have "d \<in> {0, 1, 2, 3, 4, 5, 6, 7, 8, 9}" by (simp, presburger)
  then show ?thesis by (elim insertE; simp add: is_digit_def)
qed

lemma dec_digits_read: "(\<forall>b \<in> set (dec_digits n). is_digit b) \<and> dec_value (dec_digits n) = n \<and> dec_digits n \<noteq> []"
proof (induction n rule: dec_digits.induct)
  case (1 n)
  show ?case
  proof (cases "n < 10")
    case True
    then show ?thesis using digit_byte [of n] by (simp add: dec_digits.simps [of n] dec_value_def)
  next
    case False
    then show ?thesis using 1 digit_byte [of "n mod 10"]
      by (auto simp: dec_digits.simps [of n] dec_value_def)
  qed
qed

text \<open>A number ends at a comma or a closing brace.\<close>

definition stops :: "bytes \<Rightarrow> bool" where
  "stops rest \<longleftrightarrow> (\<exists>b r. rest = b # r \<and> (b = 0x2C \<or> b = 0x7D))"

lemma digits_stop:
  assumes "stops rest"
  shows "takeWhile is_digit (dec_digits n @ rest) = dec_digits n" "dropWhile is_digit (dec_digits n @ rest) = rest"
proof -
  obtain b r where "rest = b # r" "\<not> is_digit b" using assms by (auto simp: stops_def is_digit_def)
  then show "takeWhile is_digit (dec_digits n @ rest) = dec_digits n" "dropWhile is_digit (dec_digits n @ rest) = rest"
    using dec_digits_read [of n] by (simp_all add: takeWhile_append2 dropWhile_append2)
qed

lemma read_int_text:
  assumes "stops rest"
  shows "read_int (int_text n @ rest) = (n, rest)" and "read_quoted (int_text n @ rest) = None"
proof -
  obtain b ds where ds: "dec_digits (nat \<bar>n\<bar>) = b # ds" "is_digit b"
    using dec_digits_read [of "nat \<bar>n\<bar>"] by (cases "dec_digits (nat \<bar>n\<bar>)") auto
  then have b: "b \<noteq> 0x2D" "b \<noteq> 0x22" by (auto simp: is_digit_def)
  note stop = digits_stop [OF assms, of "nat \<bar>n\<bar>"]
  have val: "dec_value (dec_digits (nat \<bar>n\<bar>)) = nat \<bar>n\<bar>" using dec_digits_read by blast
  show "read_int (int_text n @ rest) = (n, rest)"
  proof (cases "n < 0")
    case True
    then show ?thesis using stop val by (simp add: read_int_def int_text_def)
  next
    case False
    then have "int_text n = b # ds" using ds by (simp add: int_text_def)
    then show ?thesis using stop val ds b False by (simp add: read_int_def)
  qed
  show "read_quoted (int_text n @ rest) = None"
    using ds b by (cases "n < 0") (simp_all add: int_text_def read_quoted_def)
qed

fun scalar_token :: "bytes json_field \<Rightarrow> json_token" where
  "scalar_token (JInt k n) = TokNum n"
| "scalar_token f = TokText"

lemma read_scalar_text:
  assumes "scalar_text f = Some v" and "stops rest"
  shows "read_scalar (v @ rest) = Some (scalar_token f, rest)"
  using assms read_quoted_text [OF clean_no_quote] read_int_text [OF assms(2)]
  by (cases f) (auto simp: read_scalar_def split: if_splits)

subsection \<open>Objects are read back\<close>

text \<open>\<open>ok\<close> says which token a field has to give.\<close>

definition entry_of ::
  "bytes \<Rightarrow> ('f \<Rightarrow> bytes option) \<Rightarrow> ('f \<Rightarrow> json_token \<Rightarrow> bool) \<Rightarrow> ('f \<Rightarrow> string) \<Rightarrow> 'f \<Rightarrow> json_entry \<Rightarrow> bool" where
  "entry_of frame val ok nm f e \<longleftrightarrow>
     (\<exists>pre v post t. val f = Some v \<and> frame = pre @ v @ post \<and> e = (str (nm f), length (v @ post), length post, t) \<and> ok f t)"

lemma members_length: "members_text val fs = Some body \<Longrightarrow> length fs < length body"
  by (induction fs arbitrary: body) (fastforce simp: quoted_def split: if_splits option.splits)+

lemma members_head:
  "members_text val fs = Some body \<Longrightarrow> fs \<noteq> [] \<Longrightarrow> \<exists>r. body = 0x22 # r"
  by (cases fs) (auto simp: quoted_def split: if_splits option.splits)

lemma members_stop:
  assumes "members_text val fs = Some body"
  shows "stops ((if fs = [] then [] else [0x2C]) @ body @ rest)"
  using assms by (cases fs) (auto simp: stops_def)

lemma read_members_text:
  assumes rv: "\<And>f v rest. f \<in> set fs \<Longrightarrow> val f = Some v \<Longrightarrow> stops rest \<Longrightarrow> (\<exists>pre. frame = pre @ v @ rest) \<Longrightarrow>
      \<exists>t. rv (v @ rest) = Some (t, rest) \<and> ok f t"
    and "members_text val fs = Some body" and "length fs < n" and "\<exists>pre. frame = pre @ body @ rest"
  shows "\<exists>es. read_members n rv (body @ rest) = Some (es, rest) \<and> list_all2 (entry_of frame val ok field_name) fs es"
  using assms
proof (induction fs arbitrary: n body)
  case Nil
  then show ?case by (cases n) auto
next
  case (Cons f fs)
  obtain m where n: "n = Suc m" "length fs < m" using Cons.prems(3) by (cases n) auto
  obtain v tail where v: "val f = Some v" and tail: "members_text val fs = Some tail"
    and key: "clean (str (field_name f))"
    and body: "body = quoted (str (field_name f)) @ [0x3A] @ v @ (if fs = [] then [] else [0x2C]) @ tail"
    using Cons.prems(2) by (auto split: if_splits option.splits)
  let ?sep = "if fs = [] then [] else [0x2C] :: bytes"
  obtain pre where pre: "frame = pre @ body @ rest" using Cons.prems(4) by blast
  have here: "frame = (pre @ quoted (str (field_name f)) @ [0x3A]) @ v @ (?sep @ tail @ rest)"
    using pre by (simp add: body)
  obtain t where t: "rv (v @ ?sep @ tail @ rest) = Some (t, ?sep @ tail @ rest)" "ok f t"
    using Cons.prems(1) [of f v "?sep @ tail @ rest"] v members_stop [OF tail, of rest] here by fastforce
  have "frame = (pre @ quoted (str (field_name f)) @ [0x3A] @ v @ ?sep) @ tail @ rest" using pre by (simp add: body)
  then obtain es where es: "read_members m rv (tail @ rest) = Some (es, rest)"
    "list_all2 (entry_of frame val ok field_name) fs es"
    using Cons.IH [OF _ tail n(2)] Cons.prems(1) by (metis list.set_intros(2))
  have skip: "(if ?sep @ tail @ rest \<noteq> [] \<and> hd (?sep @ tail @ rest) = 0x2C then tl (?sep @ tail @ rest)
      else ?sep @ tail @ rest) = tail @ rest"
    using tail by (cases fs) auto
  have "read_members n rv (body @ rest) =
      Some ((str (field_name f), length (v @ ?sep @ tail @ rest), length (?sep @ tail @ rest), t) # es, rest)"
    using read_quoted_text [OF clean_no_quote [OF key], of "[0x3A] @ v @ ?sep @ tail @ rest"] t(1) es(1) skip
    by (simp add: n(1) body quoted_def)
  moreover have "entry_of frame val ok field_name f
      (str (field_name f), length (v @ ?sep @ tail @ rest), length (?sep @ tail @ rest), t)"
    unfolding entry_of_def using v here t(2) by blast
  ultimately show ?case using es(2) by auto
qed

lemma str_inject: "str a = str b \<longleftrightarrow> a = b"
proof -
  have "inj (\<lambda>c :: char. word_of_nat (of_char c) :: u8)"
  proof (rule injI)
    fix c d :: char
    assume "(word_of_nat (of_char c) :: u8) = word_of_nat (of_char d)"
    then have "unat (word_of_nat (of_char c) :: u8) = unat (word_of_nat (of_char d) :: u8)" by simp
    then have "(of_char c :: nat) = of_char d" by (simp add: unsigned_of_nat take_bit_nat_eq_self)
    then show "c = d" by simp
  qed
  then show ?thesis by (simp add: str_def inj_map_eq_map)
qed

lemma lookup_entry:
  assumes "list_all2 (entry_of frame val ok field_name) fs es"
  shows "case field_named k fs of
      None \<Rightarrow> map_of es (str k) = None
    | Some f \<Rightarrow> \<exists>x. map_of es (str k) = Some x \<and> entry_of frame val ok field_name f (str k, x)"
  using assms
proof (induction rule: list_all2_induct)
  case Nil
  then show ?case by (simp add: field_named_def)
next
  case (Cons f fs e es)
  obtain x where e: "e = (str (field_name f), x)" using Cons.hyps(1) by (auto simp: entry_of_def)
  show ?case
  proof (cases "field_name f = k")
    case True
    then show ?thesis using Cons.hyps(1) e by (simp add: field_named_def)
  next
    case False
    have "map_of (e # es) (str k) = map_of es (str k)" "field_named k (f # fs) = field_named k fs"
      using False e by (simp_all add: field_named_def str_inject)
    then show ?thesis using Cons.IH by (simp only:)
  qed
qed

lemma entry_slice:
  assumes "entry_of frame val ok nm f (k, x)" and "val f = Some v"
  shows "slice_in frame (whole_slice frame x)" and "str_text (whole_slice frame x) = v"
proof -
  obtain pre post t where "frame = pre @ v @ post" "x = (length (v @ post), length post, t)"
    using assms by (auto simp: entry_of_def)
  then show "slice_in frame (whole_slice frame x)" "str_text (whole_slice frame x) = v"
    by (simp_all add: slice_in_def borrow_def sub_bytes_def)
qed

lemma entry_text_slice:
  assumes "entry_of frame val ok nm f (k, x)" and "val f = Some (quoted s)" and "\<And>t. ok f t \<Longrightarrow> t = TokText"
  shows "\<exists>y. text_slice frame x = Some y \<and> slice_in frame y \<and> str_text y = s"
proof -
  obtain pre post t where fr: "frame = pre @ quoted s @ post" and "x = (length (quoted s @ post), length post, t)" "ok f t"
    using assms(1,2) by (auto simp: entry_of_def)
  then have x: "x = (length (quoted s @ post), length post, TokText)" using assms(3) by blast
  have "nat (1 + int (length pre)) = Suc (length pre)" by simp
  then show ?thesis by (simp add: x fr slice_in_def borrow_def sub_bytes_def quoted_def)
qed

text \<open>The tokens of the two levels.\<close>

definition ok_scalar :: "bytes json_field \<Rightarrow> json_token \<Rightarrow> bool" where
  "ok_scalar f t \<longleftrightarrow> t = scalar_token f"

definition ok_value :: "bytes \<Rightarrow> bytes json_field \<Rightarrow> json_token \<Rightarrow> bool" where
  "ok_value frame f t \<longleftrightarrow>
     (case f of
        JObject k fs \<Rightarrow> \<exists>es. t = TokObject es \<and> list_all2 (entry_of frame scalar_text ok_scalar field_name) fs es
      | _ \<Rightarrow> t = scalar_token f)"

lemma read_value_text:
  assumes "value_text f = Some v" and "stops rest" and "\<exists>pre. frame = pre @ v @ rest"
  shows "\<exists>t. read_value (v @ rest) = Some (t, rest) \<and> ok_value frame f t"
proof (cases "\<exists>k fs. f = JObject k fs")
  case True
  then obtain k fs body where f: "f = JObject k fs" and body: "members_text scalar_text fs = Some body" and v: "v = 0x7B # body"
    using assms(1) by auto
  have n: "length fs < length (v @ rest)" using members_length [OF body] v by simp
  have pre: "\<exists>pre. frame = pre @ body @ rest"
  proof -
    obtain pre where "frame = (pre @ [0x7B]) @ body @ rest" using assms(3) v by auto
    then show ?thesis by blast
  qed
  have "\<exists>es. read_members (length (v @ rest)) read_scalar (body @ rest) = Some (es, rest) \<and>
      list_all2 (entry_of frame scalar_text ok_scalar field_name) fs es"
    by (rule read_members_text [OF _ body n pre]) (auto simp: read_scalar_text ok_scalar_def)
  then show ?thesis using v f by (auto simp: read_value_def ok_value_def)
next
  case False
  then have sc: "scalar_text f = Some v" using assms(1) by (cases f) auto
  obtain b r where "v = b # r" "b \<noteq> 0x7B"
  proof (cases f)
    case (JInt k n)
    obtain b ds where "dec_digits (nat \<bar>n\<bar>) = b # ds" "is_digit b"
      using dec_digits_read [of "nat \<bar>n\<bar>"] by (cases "dec_digits (nat \<bar>n\<bar>)") auto
    moreover have "b \<noteq> 0x7B" using calculation(2) by (auto simp: is_digit_def)
    ultimately show ?thesis using that [of b ds] that [of "0x2D" "dec_digits (nat (- n))"] sc JInt
      by (cases "n < 0") (auto simp: int_text_def is_digit_def)
  qed (use that sc in \<open>auto simp: quoted_def split: if_splits\<close>)
  then have "read_value (v @ rest) = Some (scalar_token f, rest)"
    using read_scalar_text [OF sc assms(2)] by (simp add: read_value_def)
  then show ?thesis using False by (cases f) (auto simp: ok_value_def)
qed

subsection \<open>The contract\<close>

lemma field_named_SomeD: "field_named k obj = Some f \<Longrightarrow> f \<in> set obj \<and> field_name f = k"
  by (auto simp: field_named_def find_Some_iff)

lemma string_field:
  assumes "list_all2 (entry_of frame value_text (ok_value frame) field_name) obj es" and "list_all typed_field obj"
    and "k \<in> {''jsonrpc'', ''method'', ''id''}"
  shows "reads_str frame (field_named k obj) (Option.bind (map_of es (str k)) (text_slice frame))"
proof (cases "field_named k obj")
  case None
  then show ?thesis using lookup_entry [OF assms(1), of k] by simp
next
  case (Some f)
  then obtain x where x: "map_of es (str k) = Some x" "entry_of frame value_text (ok_value frame) field_name f (str k, x)"
    using lookup_entry [OF assms(1), of k] by auto
  have "typed_field f" "field_name f = k" using assms(2) field_named_SomeD [OF Some] by (auto simp: list_all_iff)
  then obtain s where f: "f = JStr k s" using assms(3) by (cases f) auto
  have "value_text f = Some (quoted s)" using x(2) f by (auto simp: entry_of_def split: if_splits)
  then have "\<exists>y. text_slice frame x = Some y \<and> slice_in frame y \<and> str_text y = s"
    by (rule entry_text_slice [OF x(2)]) (simp add: ok_value_def f)
  then show ?thesis using Some x(1) f by auto
qed

lemma value_field:
  assumes "list_all2 (entry_of frame value_text (ok_value frame) field_name) obj es" and "list_all typed_field obj"
    and "k \<in> {''params'', ''result''}"
  shows "reads_value quoted frame (field_named k obj) (map_option (whole_slice frame) (map_of es (str k)))"
proof (cases "field_named k obj")
  case None
  then show ?thesis using lookup_entry [OF assms(1), of k] by simp
next
  case (Some f)
  then obtain x where x: "map_of es (str k) = Some x" "entry_of frame value_text (ok_value frame) field_name f (str k, x)"
    using lookup_entry [OF assms(1), of k] by auto
  have "typed_field f" "field_name f = k" using assms(2) field_named_SomeD [OF Some] by (auto simp: list_all_iff)
  then obtain p where f: "f = JValue k p" using assms(3) by (cases f) auto
  have "value_text f = Some (quoted p)" using x(2) f by (auto simp: entry_of_def split: if_splits)
  then show ?thesis using Some x(1) f entry_slice [OF x(2)] by simp
qed

lemma error_data:
  assumes "list_all2 (entry_of frame scalar_text ok_scalar field_name) fs ms"
    and "field_named ''data'' fs = Some (JStr k s) \<or> field_named ''data'' fs = Some (JValue k p)"
  shows "reads_value quoted frame (field_named ''data'' fs) (map_option (whole_slice frame) (map_of ms (str ''data'')))"
proof -
  obtain f where f: "field_named ''data'' fs = Some f" "f = JStr k s \<or> f = JValue k p" using assms(2) by blast
  then obtain x where x: "map_of ms (str ''data'') = Some x"
    "entry_of frame scalar_text ok_scalar field_name f (str ''data'', x)"
    using lookup_entry [OF assms(1), of "''data''"] by auto
  obtain v where v: "scalar_text f = Some v" using x(2) by (auto simp: entry_of_def)
  then show ?thesis using f x(1) entry_slice [OF x(2) v] by (auto split: if_splits)
qed

lemma error_field:
  assumes "list_all2 (entry_of frame value_text (ok_value frame) field_name) obj es" and "list_all typed_field obj"
  shows "reads_error quoted frame (field_named ''error'' obj) (Option.bind (map_of es (str ''error'')) (error_of frame))"
proof (cases "field_named ''error'' obj")
  case None
  then show ?thesis using lookup_entry [OF assms(1), of "''error''"] by simp
next
  case (Some f)
  then obtain x where x: "map_of es (str ''error'') = Some x"
    "entry_of frame value_text (ok_value frame) field_name f (str ''error'', x)"
    using lookup_entry [OF assms(1), of "''error''"] by auto
  have "typed_field f" "field_name f = ''error''" using assms(2) field_named_SomeD [OF Some] by (auto simp: list_all_iff)
  then obtain fs where f: "f = JObject ''error'' fs" and names: "map field_name fs = [''code'', ''message'', ''data'']"
    and typed: "\<exists>n. fs ! 0 = JInt ''code'' n"
      "(\<exists>s. fs ! 2 = JStr ''data'' s) \<or> (\<exists>p. fs ! 2 = JValue ''data'' p)"
    by (cases f) auto
  obtain a b d where fs: "fs = [a, b, d]" using names by (auto simp: map_eq_Cons_conv)
  obtain n where a: "a = JInt ''code'' n" using typed(1) fs by auto
  have d: "field_named ''data'' fs = Some d" "field_named ''code'' fs = Some (JInt ''code'' n)"
    using names fs a by (simp_all add: field_named_def)
  obtain p q ms where t: "x = (p, q, TokObject ms)"
    and ms: "list_all2 (entry_of frame scalar_text ok_scalar field_name) fs ms"
    using x(2) f by (auto simp: entry_of_def ok_value_def)
  have "\<exists>y z. map_of ms (str ''code'') = Some (y, z, TokNum n)"
    using lookup_entry [OF ms, of "''code''"] d(2) by (auto simp: entry_of_def ok_scalar_def)
  moreover have "reads_value quoted frame (field_named ''data'' fs) (map_option (whole_slice frame) (map_of ms (str ''data'')))"
    using error_data [OF ms] d(1) typed(2) fs by auto
  ultimately show ?thesis using Some f x(1) t d(2) by auto
qed

lemma raw_of_reads:
  assumes "list_all2 (entry_of frame value_text (ok_value frame) field_name) obj es" and "typed_object obj"
  shows "\<exists>raw. raw_of frame es = Some raw \<and> reads_object quoted frame obj raw"
proof -
  have typed: "list_all typed_field obj" and "field_named ''jsonrpc'' obj \<noteq> None"
    using assms(2) by (simp_all add: typed_object_def)
  then obtain f where "field_named ''jsonrpc'' obj = Some f" by blast
  moreover have "reads_str frame (field_named ''jsonrpc'' obj) (Option.bind (map_of es (str ''jsonrpc'')) (text_slice frame))"
    by (rule string_field [OF assms(1) typed]) simp
  ultimately obtain v where v: "Option.bind (map_of es (str ''jsonrpc'')) (text_slice frame) = Some v"
    by (cases f) auto
  then show ?thesis
    using string_field [OF assms(1) typed, of "''jsonrpc''"] string_field [OF assms(1) typed, of "''method''"]
      string_field [OF assms(1) typed, of "''id''"] value_field [OF assms(1) typed, of "''params''"]
      value_field [OF assms(1) typed, of "''result''"] error_field [OF assms(1) typed]
    by (simp add: raw_of_def Let_def reads_object_def)
qed

definition ascii :: "bytes \<Rightarrow> bool" where
  "ascii s \<longleftrightarrow> (\<forall>b \<in> set s. b < 0x80)"

lemma scalar_ascii:
  assumes "scalar_text f = Some v"
  shows "ascii v"
proof -
  have "b < 0x80" if "b \<in> set (dec_digits n)" for b n
  proof -
    have "b \<le> 57" using dec_digits_read [of n] that by (auto simp: is_digit_def)
    then show ?thesis by (simp add: word_le_nat_alt word_less_nat_alt)
  qed
  then have "ascii (int_text n)" for n by (auto simp: ascii_def int_text_def)
  then show ?thesis using assms by (cases f) (auto simp: ascii_def quoted_def clean_def split: if_splits)
qed

lemma members_ascii:
  "(\<And>f v. val f = Some v \<Longrightarrow> ascii v) \<Longrightarrow> members_text val fs = Some body \<Longrightarrow> ascii body"
proof (induction fs arbitrary: body)
  case (Cons f fs)
  obtain v tail where "val f = Some v" "members_text val fs = Some tail" "clean (str (field_name f))"
    "body = quoted (str (field_name f)) @ [0x3A] @ v @ (if fs = [] then [] else [0x2C]) @ tail"
    using Cons.prems(2) by (auto split: if_splits option.splits)
  moreover from this have "ascii v" "ascii tail" using Cons by blast+
  ultimately show ?case by (auto simp: ascii_def quoted_def clean_def)
qed (auto simp: ascii_def)

lemma value_ascii: "value_text f = Some v \<Longrightarrow> ascii v"
proof (cases f)
  case (JObject k fs)
  moreover assume "value_text f = Some v"
  ultimately obtain body where "members_text scalar_text fs = Some body" "v = 0x7B # body" by auto
  then show ?thesis using members_ascii [of scalar_text fs body] scalar_ascii by (auto simp: ascii_def)
qed (use scalar_ascii [of f v] in auto)

interpretation json_text: serde_json text_ops text_read quoted
proof unfold_locales
  fix obj :: "bytes json_field list" and out
  assume wr: "js_write text_ops obj = (out, Inr ())" and typed: "typed_object obj"
  obtain body where body: "members_text value_text obj = Some body" and out: "out = 0x7B # body"
    using wr by (auto simp: text_ops_def split: option.splits)
  have "length obj < length out" using members_length [OF body] out by simp
  moreover have "\<exists>pre. out = pre @ body @ []" using out by (intro exI [of _ "[0x7B]"]) simp
  ultimately have "\<exists>es. read_members (length out) read_value (body @ []) = Some (es, []) \<and>
      list_all2 (entry_of out value_text (ok_value out) field_name) obj es"
    using body read_value_text by (intro read_members_text)
  then obtain es where es: "read_members (length out) read_value body = Some (es, [])"
    "list_all2 (entry_of out value_text (ok_value out) field_name) obj es" by auto
  obtain raw where "raw_of out es = Some raw" "reads_object quoted out obj raw"
    using raw_of_reads [OF es(2) typed] by blast
  moreover have "utf8_valid out"
    using members_ascii [OF value_ascii body] out by (intro utf8_valid_ascii) (auto simp: ascii_def)
  ultimately show "utf8_valid out \<and> (\<exists>raw. text_read out = Inr raw \<and> reads_object quoted out obj raw)"
    using es(1) out by (simp add: text_read_def)
qed

subsection \<open>Properties\<close>

text \<open>C28: The JSON-RPC codec keeps the contract of a connection. When the JSON library reads back the
  objects the codec writes, a notification, a request or a response that was encoded is
  decoded as the same kind of message, with the method and the text of the parameters, the
  result or the error object; the identifier found in a request is the one a response has
  to carry and leads back to the request; an error code arrives unchanged, except that
  \<open>Unauthorized\<close> and \<open>NonUtf8MethodName\<close> arrive as \<open>InvalidArgument\<close>. It holds for methods
  whose names JSON writes without escapes.\<close>

theorem json_codec_keeps_contract:
  assumes "serde_json js js_read value_bytes"
  shows "codec_contract (json_codec js js_read de checked addr) json_method value_bytes json_carried (\<lambda>_. True) (\<lambda>_. True)"
  using assms by (rule serde_json.contract)

text \<open>The notification \<open>m\<close> with the parameter \<open>"1"\<close> as JSON text.\<close>

definition notify_text :: bytes where
  "notify_text = [0x7B] @ quoted (str ''jsonrpc'') @ [0x3A] @ quoted (str ''2.0'') @ [0x2C] @
     quoted (str ''method'') @ [0x3A] @ quoted (str ''m'') @ [0x2C] @
     quoted (str ''params'') @ [0x3A] @ quoted (str ''1'') @ [0x7D]"

lemma notify_text_written: "json_encode_notify text_ops (str ''m'') (str ''1'') [] = (notify_text, Inr ())"
  by (simp add: json_encode_notify_def json_serialize_def text_ops_def notify_text_def clean_def plain_def
      plain_byte_def str_def)

theorem json_codec_keeps_contract_witness:
  "\<exists>mr pr. decode_inbound (json_codec text_ops text_read (\<lambda>b. b) True 1) [] notify_text =
      Done ([], notify_text, Inr (FrameNotify mr pr)) \<and>
    index_by notify_text (range_from mr) = Done (str ''m'') \<and>
    index_by notify_text (range_from pr) = Done (quoted (str ''1''))"
proof -
  have c: "codec_contract (json_codec text_ops text_read (\<lambda>b. b) True 1) json_method quoted json_carried (\<lambda>_. True) (\<lambda>_. True)"
    by (rule json_codec_keeps_contract [OF json_text.serde_json_axioms])
  have m: "json_method (str ''m'')"
    by (simp add: json_method_def plain_def plain_byte_def str_def utf8_valid_ascii)
  have w: "encode_notify (json_codec text_ops text_read (\<lambda>b. b) True 1) (str ''m'') (str ''1'') [] = (notify_text, Inr ())"
    using notify_text_written by (simp add: json_codec_def)
  have "length notify_text < 2 ^ 32" by (simp add: notify_text_def quoted_def str_def)
  from codec_contract.notify_decodes [OF c m w this] show ?thesis .
qed

end
