(* ===== verification/Msgpack_Rpc.thy ===== *)
theory Msgpack_Rpc
  imports Codec_Contract
begin

text \<open>
  The MessagePack-RPC codec of \<open>src/ext_codec/msgpack_rpc.rs\<close>. Writing and reading
  MessagePack are the crates \<open>rmp_serde\<close> and \<open>rmp\<close>, parameters of the model: \<open>pk_write\<close> is
  what the serializer appends for a value (all of it, or a part and an error), and each
  reader gives the value at the head of its input with the number of bytes it took. What
  the codec relies on is the locale \<open>rmp\<close>, interpreted below on a MessagePack format that
  computes.
\<close>

subsection \<open>Values and readers\<close>

datatype 'p pack_value =
  PkU8 u8 | PkU32 u32 | PkStr bytes | PkUnit | PkValue 'p | PkTuple "'p pack_value list"

record ('p, 'd) rmp_ops =
  pk_write :: "'p pack_value \<Rightarrow> bytes \<times> (serde_error + unit)"
  read_array_len :: "bytes \<Rightarrow> serde_error + u32 \<times> nat"
  read_int_u8 :: "bytes \<Rightarrow> serde_error + u8 \<times> nat"
  read_int_u32 :: "bytes \<Rightarrow> serde_error + u32 \<times> nat"
  read_str_len :: "bytes \<Rightarrow> serde_error + u32 \<times> nat"
  read_nil :: "bytes \<Rightarrow> serde_error + nat"
  read_u32 :: "bytes \<Rightarrow> serde_error + u32 \<times> nat"
  read_str_from_slice :: "bytes \<Rightarrow> serde_error + bytes \<times> nat"
  pk_deserializer :: "bytes \<Rightarrow> 'd"

definition TYPE_ID_REQUEST :: u8 where "TYPE_ID_REQUEST = 0"
definition TYPE_ID_RESPONSE :: u8 where "TYPE_ID_RESPONSE = 1"
definition TYPE_ID_NOTIFICATION :: u8 where "TYPE_ID_NOTIFICATION = 2"

lemmas type_id_defs = TYPE_ID_REQUEST_def TYPE_ID_RESPONSE_def TYPE_ID_NOTIFICATION_def

text \<open>The marker of \<open>nil\<close>, \<open>Marker::Null.to_u8()\<close> of the MessagePack format.\<close>

definition marker_null :: u8 where "marker_null = 0xC0"

definition retrieve_req_id :: "('p, 'd) rmp_ops \<Rightarrow> bytes \<Rightarrow> u32 option" where
  "retrieve_req_id mp raw = (case read_u32 mp raw of Inl _ \<Rightarrow> None | Inr (v, _) \<Rightarrow> Some v)"

definition pack_restore_request_id :: "('p, 'd) rmp_ops \<Rightarrow> bytes \<Rightarrow> decode_error + request_id" where
  "pack_restore_request_id mp raw =
     (case ok_or InvalidFormat (map_option (\<lambda>x. ucast x :: u64) (retrieve_req_id mp raw)) of
        Inl e \<Rightarrow> Inl e
      | Inr v \<Rightarrow> map_sum id RequestId (ok_or InvalidFormat (nonzero_u64_new v)))"

subsection \<open>Encoding\<close>

definition pack_serialize ::
  "('p, 'd) rmp_ops \<Rightarrow> 'p pack_value \<Rightarrow> bytes \<Rightarrow> bytes \<times> (encode_error + unit)" where
  "pack_serialize mp v buf = (case pk_write mp v of (out, r) \<Rightarrow> (buf @ out, map_err SerializeFailed r))"

definition pack_encode_notify ::
  "('p, 'd) rmp_ops \<Rightarrow> bytes \<Rightarrow> 'p \<Rightarrow> bytes \<Rightarrow> bytes \<times> (encode_error + unit)" where
  "pack_encode_notify mp meth params buf =
     pack_serialize mp (PkTuple [PkU8 TYPE_ID_NOTIFICATION, PkStr meth, PkValue params]) buf"

text \<open>The identifier is made to fit in 32 bits; the one case that gives zero becomes one.\<close>

definition fit_request_id :: "request_id \<Rightarrow> request_id" where
  "fit_request_id i =
     (if 0xFFFFFFFF < request_id_value i then
        RequestId (case nonzero_u64_new (request_id_value i AND 0xFFFFFFFF) of Some v \<Rightarrow> v | None \<Rightarrow> 1)
      else i)"

definition pack_encode_request ::
  "('p, 'd) rmp_ops \<Rightarrow> request_id \<Rightarrow> bytes \<Rightarrow> 'p \<Rightarrow> bytes \<Rightarrow> bytes \<times> (encode_error + request_id)" where
  "pack_encode_request mp i meth params buf =
     (let i' = fit_request_id i in
      case pack_serialize mp
          (PkTuple [PkU8 TYPE_ID_REQUEST, PkU32 (ucast (request_id_value i')), PkStr meth, PkValue params]) buf of
        (buf1, r) \<Rightarrow> (buf1, map_sum id (\<lambda>_. i') r))"

fun pack_response_value :: "u32 \<Rightarrow> 'p encode_response_payload \<Rightarrow> 'p pack_value" where
  "pack_response_value i (PayloadOk p) = PkTuple [PkU8 TYPE_ID_RESPONSE, PkU32 i, PkUnit, PkValue p]"
| "pack_response_value i (ErrCodeOnly ec) =
     PkTuple [PkU8 TYPE_ID_RESPONSE, PkU32 i, PkTuple [PkStr (str (to_str ec)), PkUnit], PkUnit]"
| "pack_response_value i (ErrObjectOnly p) = PkTuple [PkU8 TYPE_ID_RESPONSE, PkU32 i, PkValue p, PkUnit]"
| "pack_response_value i (PayloadErr ec p) =
     PkTuple [PkU8 TYPE_ID_RESPONSE, PkU32 i, PkTuple [PkStr (str (to_str ec)), PkValue p], PkUnit]"

definition pack_encode_response ::
  "('p, 'd) rmp_ops \<Rightarrow> bytes \<Rightarrow> 'p encode_response_payload \<Rightarrow> bytes \<Rightarrow> bytes \<times> (encode_error + unit)" where
  "pack_encode_response mp raw result buf =
     (case retrieve_req_id mp raw of
        None \<Rightarrow> (buf, Inl InvalidRequestId)
      | Some i \<Rightarrow> pack_serialize mp (pack_response_value i result) buf)"

subsection \<open>Decoding\<close>

text \<open>
  The decoder keeps a cursor, here the number of bytes read so far. \<open>pos\<close> truncates it to
  32 bits, \<open>rd.advance\<close> panics past the end of the frame, and a failing reader ends the
  decoder (\<open>?\<close>).
\<close>

definition pos :: "nat \<Rightarrow> u32" where
  "pos p = word_of_nat p"

definition advance :: "bytes \<Rightarrow> nat \<Rightarrow> nat \<Rightarrow> nat outcome" where
  "advance frame p n = (if n \<le> length frame - p then Done (p + n) else Panic)"

definition question :: "serde_error + 'a \<Rightarrow> ('a \<Rightarrow> (serde_error + 'b) outcome) \<Rightarrow> (serde_error + 'b) outcome" where
  "question r k = (case r of Inl e \<Rightarrow> Done (Inl e) | Inr x \<Rightarrow> k x)"

lemma question_simps [simp]: "question (Inl e) k = Done (Inl e)" "question (Inr x) k = k x"
  by (simp_all add: question_def)

text \<open>\<open>DecodeError::InvalidFormat.into()\<close>.\<close>

definition invalid_format :: serde_error where
  "invalid_format = SerDeError ''Input is not valid format''"

definition pack_method ::
  "('p, 'd) rmp_ops \<Rightarrow> bytes \<Rightarrow> std_range option \<Rightarrow> nat \<Rightarrow> (serde_error + inbound_frame_type) outcome" where
  "pack_method mp frame req_id_range p =
     question (read_str_len mp (drop p frame)) (\<lambda>(method_len, k).
     obind (advance frame (p + k) (unat method_len)) (\<lambda>p2.
       let meth = (pos (p + k), pos p2); params = (pos p2, word_of_nat (length frame)) in
       Done (Inr (case req_id_range of
           Some raw \<Rightarrow> FrameRequest raw meth params
         | None \<Rightarrow> FrameNotify meth params))))"

definition pack_call ::
  "('p, 'd) rmp_ops \<Rightarrow> bytes \<Rightarrow> u8 \<Rightarrow> nat \<Rightarrow> (serde_error + inbound_frame_type) outcome" where
  "pack_call mp frame ty p =
     (if ty = TYPE_ID_REQUEST then
        question (read_int_u32 mp (drop p frame)) (\<lambda>(_, k).
          pack_method mp frame (Some (pos p, pos (p + k))) (p + k))
      else pack_method mp frame None p)"

definition u32_sub :: "bool \<Rightarrow> u32 \<Rightarrow> u32 \<Rightarrow> u32 outcome" where
  "u32_sub checked a b = (if checked \<and> a < b then Panic else Done (a - b))"

text \<open>The labelled block \<open>'errc_find\<close>: the slot is a pair of a known error code and an object.\<close>

definition errc_find :: "('p, 'd) rmp_ops \<Rightarrow> bytes \<Rightarrow> nat \<Rightarrow> (response_error \<times> nat) option" where
  "errc_find mp frame p =
     (case read_array_len mp (drop p frame) of
        Inl _ \<Rightarrow> None
      | Inr (n, k) \<Rightarrow>
          if n \<noteq> 2 then None
          else (case read_str_from_slice mp (drop (p + k) frame) of
              Inl _ \<Rightarrow> None
            | Inr (err_str, k2) \<Rightarrow>
                (case response_error_from_str err_str of
                   Inl _ \<Rightarrow> None
                 | Inr errc \<Rightarrow> Some (errc, p + k + k2))))"

definition pack_error ::
  "('p, 'd) rmp_ops \<Rightarrow> bool \<Rightarrow> bytes \<Rightarrow> request_id \<Rightarrow> nat \<Rightarrow> (serde_error + inbound_frame_type) outcome" where
  "pack_error mp checked frame i p =
     (if frame = [] then Panic
      else if last frame \<noteq> marker_null then Done (Inl invalid_format)
      else obind (u32_sub checked (word_of_nat (length frame)) 1) (\<lambda>payload_end.
        Done (Inr (case errc_find mp frame p of
            Some (errc, p2) \<Rightarrow> FrameResponse i (Some errc) (pos p2, payload_end)
          | None \<Rightarrow> FrameResponse i (Some response_error_default) (pos p, payload_end)))))"

definition pack_response ::
  "('p, 'd) rmp_ops \<Rightarrow> bool \<Rightarrow> bytes \<Rightarrow> nat \<Rightarrow> (serde_error + inbound_frame_type) outcome" where
  "pack_response mp checked frame p =
     question (read_int_u32 mp (drop p frame)) (\<lambda>(req_id, k).
       case nonzero_u64_new (ucast req_id) of
         None \<Rightarrow> Done (Inl (SerDeError ''out of range integral type conversion attempted''))
       | Some v \<Rightarrow>
           (case read_nil mp (drop (p + k) frame) of
              Inr k2 \<Rightarrow> Done (Inr (FrameResponse (RequestId v) None (pos (p + k + k2), word_of_nat (length frame))))
            | Inl _ \<Rightarrow> pack_error mp checked frame (RequestId v) (p + k)))"

definition pack_frame ::
  "('p, 'd) rmp_ops \<Rightarrow> bool \<Rightarrow> bytes \<Rightarrow> (serde_error + inbound_frame_type) outcome" where
  "pack_frame mp checked frame =
     question (read_array_len mp frame) (\<lambda>(array_size, k).
     question (read_int_u8 mp (drop k frame)) (\<lambda>(type_id, k1).
       if array_size = 4 \<and> type_id = TYPE_ID_REQUEST \<or> array_size = 3 \<and> type_id = TYPE_ID_NOTIFICATION
       then pack_call mp frame type_id (k + k1)
       else if array_size = 4 \<and> type_id = TYPE_ID_RESPONSE
       then pack_response mp checked frame (k + k1)
       else Done (Inl invalid_format)))"

definition pack_decode_inbound ::
  "('p, 'd) rmp_ops \<Rightarrow> bool \<Rightarrow> bytes \<Rightarrow> bytes
   \<Rightarrow> (bytes \<times> bytes \<times> (decode_error + inbound_frame_type)) outcome" where
  "pack_decode_inbound mp checked scratch frame =
     obind (pack_frame mp checked frame) (\<lambda>r. Done (scratch, frame, map_err DecParseFailed r))"

definition pack_codec :: "('p, 'd) rmp_ops \<Rightarrow> bool \<Rightarrow> usize \<Rightarrow> ('p, 'd) codec" where
  "pack_codec mp checked addr =
     \<lparr>codec_reusability_id = addr,
      encode_notify = pack_encode_notify mp,
      encode_request = pack_encode_request mp,
      encode_response = pack_encode_response mp,
      payload_deserializer = (\<lambda>payload. Inr (pk_deserializer mp payload)),
      decode_inbound = pack_decode_inbound mp checked,
      restore_request_id = pack_restore_request_id mp\<rparr>"

subsection \<open>The contract of the MessagePack library\<close>

text \<open>The bytes a value of the user is written as.\<close>

definition pack_bytes :: "('p, 'd) rmp_ops \<Rightarrow> 'p \<Rightarrow> bytes" where
  "pack_bytes mp p = fst (pk_write mp (PkValue p))"

text \<open>
  Arrays are a header with their length and the items; the readers read what the writer
  wrote and take exactly its bytes; an integer is written in its shortest form, so that the
  marker that \<open>read_u32\<close> insists on (as its documentation says, it converts from no other
  form) is there from \<open>2 ^ 16\<close> on; \<open>nil\<close> is one byte, which no array starts with.
\<close>

locale rmp =
  fixes mp :: "('p, 'd) rmp_ops"
  assumes tuple_written: "pk_write mp (PkTuple vs) = (out, Inr ()) \<Longrightarrow> length vs < 2 ^ 32 \<Longrightarrow>
      \<exists>h outs. out = h @ concat outs \<and> list_all2 (\<lambda>v x. pk_write mp v = (x, Inr ())) vs outs \<and>
        (\<forall>rest. read_array_len mp (h @ rest) = Inr (word_of_nat (length vs), length h))"
    and u8_written: "pk_write mp (PkU8 b) = (x, Inr ()) \<Longrightarrow> read_int_u8 mp (x @ rest) = Inr (b, length x)"
    and u32_written: "pk_write mp (PkU32 n) = (x, Inr ()) \<Longrightarrow> read_int_u32 mp (x @ rest) = Inr (n, length x)"
    and u32_marked: "pk_write mp (PkU32 n) = (x, Inr ()) \<Longrightarrow> 0x10000 \<le> n \<Longrightarrow> read_u32 mp x = Inr (n, length x)"
    and u32_compact: "pk_write mp (PkU32 n) = (x, Inr ()) \<Longrightarrow> n < 0x10000 \<Longrightarrow> \<exists>e. read_u32 mp x = Inl e"
    and str_written: "pk_write mp (PkStr s) = (x, Inr ()) \<Longrightarrow> \<exists>h. x = h @ s \<and>
        (length s < 2 ^ 32 \<longrightarrow> (\<forall>rest. read_str_len mp (h @ rest) = Inr (word_of_nat (length s), length h)))"
    and str_sliced: "pk_write mp (PkStr s) = (x, Inr ()) \<Longrightarrow> length s < 2 ^ 32 \<Longrightarrow> utf8_valid s \<Longrightarrow>
        read_str_from_slice mp (x @ rest) = Inr (s, length x)"
    and value_written: "pk_write mp (PkValue p) = (x, Inr ()) \<Longrightarrow> x \<noteq> []"
    and unit_written: "pk_write mp PkUnit = ([marker_null], Inr ())"
    and nil_read: "read_nil mp (marker_null # rest) = Inr 1"
    and nil_missing: "bs = [] \<or> List.hd bs \<noteq> marker_null \<Longrightarrow> \<exists>e. read_nil mp bs = Inl e"
    and array_missing: "bs = [] \<or> List.hd bs = marker_null \<Longrightarrow> \<exists>e. read_array_len mp bs = Inl e"

lemma pos_slice:
  assumes "f = pre @ x @ post" and "a = length pre" and "b = length pre + length x" and "length f < 2 ^ 32"
  shows "index_by f (range_from (word_of_nat a, word_of_nat b)) = Done x"
proof -
  have "unat (word_of_nat a :: u32) = a" "unat (word_of_nat b :: u32) = b"
    using assms by (simp_all add: unsigned_of_nat take_bit_nat_eq_self del: of_nat_add)
  then show ?thesis using assms by (simp add: range_from_def index_by_eq index_range_def del: of_nat_add)
qed

lemma pack_serialize_ok:
  "pack_serialize mp v [] = (f, Inr ()) \<longleftrightarrow> pk_write mp v = (f, Inr ())"
  by (cases "pk_write mp v") (auto simp: pack_serialize_def)

context rmp
begin

lemma list4_written:
  assumes "pk_write mp (PkTuple [a, b, c, d]) = (f, Inr ())"
  obtains h xa xb xc xd where "f = h @ xa @ xb @ xc @ xd" "pk_write mp a = (xa, Inr ())"
    "pk_write mp b = (xb, Inr ())" "pk_write mp c = (xc, Inr ())" "pk_write mp d = (xd, Inr ())"
    "\<And>rest. read_array_len mp (h @ rest) = Inr (4, length h)"
  using tuple_written [OF assms] that by (auto simp: list_all2_Cons1)

lemma list3_written:
  assumes "pk_write mp (PkTuple [a, b, c]) = (f, Inr ())"
  obtains h xa xb xc where "f = h @ xa @ xb @ xc" "pk_write mp a = (xa, Inr ())"
    "pk_write mp b = (xb, Inr ())" "pk_write mp c = (xc, Inr ())"
    "\<And>rest. read_array_len mp (h @ rest) = Inr (3, length h)"
  using tuple_written [OF assms] that by (auto simp: list_all2_Cons1)

lemma list2_written:
  assumes "pk_write mp (PkTuple [a, b]) = (f, Inr ())"
  obtains h xa xb where "f = h @ xa @ xb" "pk_write mp a = (xa, Inr ())" "pk_write mp b = (xb, Inr ())"
    "\<And>rest. read_array_len mp (h @ rest) = Inr (2, length h)"
  using tuple_written [OF assms] that by (auto simp: list_all2_Cons1)

lemma array_no_nil: "read_array_len mp bs = Inr x \<Longrightarrow> \<exists>e. read_nil mp bs = Inl e"
  using nil_missing [of bs] array_missing [of bs] by fastforce

text \<open>Reading a call: the cursor is at the method, after which the parameters follow.\<close>

lemma method_read:
  assumes "f = pre @ x @ y" and "pk_write mp (PkStr m) = (x, Inr ())" and "length f < 2 ^ 32"
  shows "\<exists>mr pr. pack_method mp f ids (length pre) =
      Done (Inr (case ids of Some raw \<Rightarrow> FrameRequest raw mr pr | None \<Rightarrow> FrameNotify mr pr)) \<and>
    index_by f (range_from mr) = Done m \<and> index_by f (range_from pr) = Done y"
proof -
  obtain h where x: "x = h @ m"
    and read: "length m < 2 ^ 32 \<Longrightarrow> read_str_len mp (h @ rest) = Inr (word_of_nat (length m), length h)" for rest
    using str_written [OF assms(2)] by blast
  have len: "length m < 2 ^ 32" using assms(1,3) x by simp
  let ?a = "length pre + length h" and ?b = "length pre + length h + length m"
  let ?mr = "(word_of_nat ?a, word_of_nat ?b) :: std_range"
  let ?pr = "(word_of_nat ?b, word_of_nat (length f)) :: std_range"
  have "unat (word_of_nat (length m) :: u32) = length m"
    using len by (simp add: unsigned_of_nat take_bit_nat_eq_self)
  then have "pack_method mp f ids (length pre) =
      Done (Inr (case ids of Some raw \<Rightarrow> FrameRequest raw ?mr ?pr | None \<Rightarrow> FrameNotify ?mr ?pr))"
    using assms(1) x read [OF len, of "m @ y"]
    by (simp add: pack_method_def advance_def Let_def pos_def add.assoc del: of_nat_add split: option.split)
  moreover have "index_by f (range_from ?mr) = Done m"
    by (rule pos_slice [of f "pre @ h" m y]) (use assms x in simp_all)
  moreover have "index_by f (range_from ?pr) = Done y"
    by (rule pos_slice [of f "pre @ h @ m" y "[]"]) (use assms x in simp_all)
  ultimately show ?thesis by blast
qed

text \<open>Whether a raw identifier can be answered: only when it is written with all four bytes.\<close>

lemma raw_id_read:
  assumes "pk_write mp (PkU32 n) = (x, Inr ())"
  shows "retrieve_req_id mp x = (if 0x10000 \<le> n then Some n else None)"
  using u32_marked [OF assms] u32_compact [OF assms]
  by (auto simp: retrieve_req_id_def not_le split: sum.splits)

lemma request_read:
  assumes "pk_write mp (PkTuple [PkU8 TYPE_ID_REQUEST, PkU32 n, PkStr m, PkValue p]) = (f, Inr ())"
    and "length f < 2 ^ 32"
  shows "\<exists>rid mr pr raw. pack_frame mp checked f = Done (Inr (FrameRequest rid mr pr)) \<and>
    index_by f (range_from mr) = Done m \<and> index_by f (range_from pr) = Done (pack_bytes mp p) \<and>
    snd rid \<noteq> 0 \<and> index_by f (range_from rid) = Done raw \<and>
    retrieve_req_id mp raw = (if 0x10000 \<le> n then Some n else None)"
proof -
  obtain h xa xb xc xd where f: "f = h @ xa @ xb @ xc @ xd"
    and a: "pk_write mp (PkU8 TYPE_ID_REQUEST) = (xa, Inr ())" and b: "pk_write mp (PkU32 n) = (xb, Inr ())"
    and c: "pk_write mp (PkStr m) = (xc, Inr ())" and d: "pk_write mp (PkValue p) = (xd, Inr ())"
    and arr: "\<And>rest. read_array_len mp (h @ rest) = Inr (4, length h)"
    using list4_written [OF assms(1)] by blast
  let ?p = "length h + length xa"
  let ?rid = "(pos ?p, pos (?p + length xb))"
  have pre: "f = (h @ xa @ xb) @ xc @ xd" "length (h @ xa @ xb) = ?p + length xb" using f by simp_all
  obtain mr pr where "pack_method mp f (Some ?rid) (?p + length xb) = Done (Inr (FrameRequest ?rid mr pr))"
    and slices: "index_by f (range_from mr) = Done m" "index_by f (range_from pr) = Done xd"
    using method_read [OF pre(1) c assms(2), of "Some ?rid"] pre(2) by (auto simp: add.assoc)
  then have "pack_frame mp checked f = Done (Inr (FrameRequest ?rid mr pr))"
    using f arr u8_written [OF a] u32_written [OF b]
    by (simp add: pack_frame_def pack_call_def type_id_defs add.assoc)
  moreover have "index_by f (range_from ?rid) = Done xb"
    unfolding pos_def by (rule pos_slice [of f "h @ xa" xb "xc @ xd"]) (use assms f in simp_all)
  moreover have "snd ?rid \<noteq> 0"
  proof -
    have "h \<noteq> []" using arr [of "[]"] array_missing [of "[]"] by auto
    moreover have "unat (pos (?p + length xb)) = ?p + length xb"
      using assms(2) f by (simp add: pos_def unsigned_of_nat take_bit_nat_eq_self del: of_nat_add)
    ultimately show ?thesis by auto
  qed
  ultimately show ?thesis using slices raw_id_read [OF b] d by (fastforce simp: pack_bytes_def)
qed

end

lemma pack_restore_InrD:
  assumes "pack_restore_request_id mp raw = Inr i"
  obtains n where "retrieve_req_id mp raw = Some n" "n \<noteq> 0" "i = RequestId (ucast n)"
proof (cases "retrieve_req_id mp raw")
  case None
  then show thesis using assms by (simp add: pack_restore_request_id_def)
next
  case (Some n)
  have "n \<noteq> 0 \<and> i = RequestId (ucast n)"
  proof (cases "nonzero_u64_new (ucast n)")
    case None
    then show ?thesis using assms Some by (simp add: pack_restore_request_id_def nonzero_u64_new_def split: if_splits)
  next
    case (Some v)
    then show ?thesis using assms \<open>retrieve_req_id mp raw = Some n\<close>
      by (auto simp: pack_restore_request_id_def nonzero_u64_new_def split: if_splits)
  qed
  then show thesis using that Some by blast
qed

lemma unat_ucast64 [simp]: "unat (ucast (n :: u32) :: u64) = unat n"
proof -
  have "unat n < 2 ^ 32" using unsigned_less [of n] by simp
  then show ?thesis by (simp add: unsigned_ucast_eq take_bit_nat_eq_self)
qed

lemma nonzero_ucast32: "n \<noteq> 0 \<Longrightarrow> nonzero_u64_new (ucast (n :: u32)) = Some (ucast n)"
  unfolding nonzero_u64_new_Some by (metis unat_ucast64 unsigned_0 unsigned_eq_0_iff)

lemma errc_find_drop:
  "errc_find mp f p = map_option (\<lambda>(e, q). (e, p + q)) (errc_find mp (drop p f) 0)"
  by (auto simp: errc_find_def add.assoc add.commute split: sum.splits)

context rmp
begin

lemma response_head:
  assumes "f = h @ xa @ xb @ xs" and "\<And>rest. read_array_len mp (h @ rest) = Inr (4, length h)"
    and "pk_write mp (PkU8 TYPE_ID_RESPONSE) = (xa, Inr ())" and "pk_write mp (PkU32 n) = (xb, Inr ())" and "n \<noteq> 0"
  shows "pack_frame mp checked f =
    (let p = length h + length xa + length xb; i = RequestId (ucast n) in
     case read_nil mp xs of
       Inr k \<Rightarrow> Done (Inr (FrameResponse i None (pos (p + k), word_of_nat (length f))))
     | Inl _ \<Rightarrow> pack_error mp checked f i p)"
  using assms(1,2,5) u8_written [OF assms(3)] u32_written [OF assms(4)]
  by (simp add: pack_frame_def pack_response_def type_id_defs Let_def nonzero_ucast32 add.assoc split: sum.split)

lemma error_slot:
  assumes "f = pre @ x @ [marker_null]" and "length f < 2 ^ 32"
  shows "pack_error mp checked f i (length pre) =
    Done (Inr (case errc_find mp (x @ [marker_null]) 0 of
        Some (errc, q) \<Rightarrow> FrameResponse i (Some errc) (pos (length pre + q), word_of_nat (length pre + length x))
      | None \<Rightarrow> FrameResponse i (Some Unknown) (pos (length pre), word_of_nat (length pre + length x))))"
proof -
  have "unat (word_of_nat (length f) :: u32) = length f"
    using assms(2) by (simp add: unsigned_of_nat take_bit_nat_eq_self)
  moreover have "0 < length f" using assms(1) by simp
  ultimately have "\<not> (word_of_nat (length f) :: u32) < 1" by (metis less_one not_gr_zero unat_1 word_less_nat_alt)
  moreover have "length f = Suc (length pre + length x)" using assms(1) by simp
  ultimately have "u32_sub checked (word_of_nat (length f)) 1 = Done (word_of_nat (length pre + length x))"
    by (simp add: u32_sub_def)
  moreover have "f \<noteq> []" "last f = marker_null" using assms(1) by simp_all
  moreover have "drop (length pre) f = x @ [marker_null]" using assms(1) by simp
  ultimately show ?thesis
    by (auto simp: pack_error_def errc_find_drop [of mp f] response_error_default_def split: option.splits)
qed

text \<open>The pair of a code and an object.\<close>

lemma code_pair_found:
  assumes "pk_write mp (PkTuple [PkStr (str (to_str ec)), v]) = (x, Inr ())"
  obtains pre xo where "x = pre @ xo" "pk_write mp v = (xo, Inr ())"
    "errc_find mp (x @ rest) 0 = Some (ec, length pre)" "\<exists>e. read_nil mp (x @ rest) = Inl e"
proof -
  obtain h xc xo where x: "x = h @ xc @ xo" and c: "pk_write mp (PkStr (str (to_str ec))) = (xc, Inr ())"
    and o: "pk_write mp v = (xo, Inr ())"
    and arr: "\<And>rest. read_array_len mp (h @ rest) = Inr (2, length h)"
    using list2_written [OF assms] by blast
  have "utf8_valid (str (to_str ec))" "length (str (to_str ec)) < 2 ^ 32"
    by (cases ec; simp add: str_def utf8_valid_ascii)+
  from str_sliced [OF c this(2,1)]
  have "errc_find mp (x @ rest) 0 = Some (ec, length (h @ xc))"
    using x arr by (simp add: errc_find_def)
  moreover have "\<exists>e. read_nil mp (x @ rest) = Inl e"
    using array_no_nil [of "x @ rest"] x arr by simp
  ultimately show thesis using that [of "h @ xc" xo] x o by simp
qed

end

text \<open>What a response is decoded as, by what it was encoded from.\<close>

fun response_arrives ::
  "('p, 'd) rmp_ops \<Rightarrow> bytes \<Rightarrow> 'p encode_response_payload \<Rightarrow> response_error option \<Rightarrow> std_range \<Rightarrow> bool" where
  "response_arrives mp f (PayloadOk p) errc pr \<longleftrightarrow>
     errc = None \<and> index_by f (range_from pr) = Done (pack_bytes mp p)"
| "response_arrives mp f (ErrCodeOnly e) errc pr \<longleftrightarrow>
     errc = Some e \<and> index_by f (range_from pr) = Done [marker_null]"
| "response_arrives mp f (PayloadErr e p) errc pr \<longleftrightarrow>
     errc = Some e \<and> index_by f (range_from pr) = Done (pack_bytes mp p)"
| "response_arrives mp f (ErrObjectOnly p) errc pr \<longleftrightarrow>
     (if List.hd (pack_bytes mp p) = marker_null
      then errc = None \<and> index_by f (range_from pr) = Done (List.tl (pack_bytes mp p) @ [marker_null])
      else case errc_find mp (pack_bytes mp p @ [marker_null]) 0 of
        Some (e, q) \<Rightarrow> errc = Some e \<and>
          (q \<le> length (pack_bytes mp p) \<longrightarrow> index_by f (range_from pr) = Done (drop q (pack_bytes mp p)))
      | None \<Rightarrow> errc = Some Unknown \<and> index_by f (range_from pr) = Done (pack_bytes mp p))"

context rmp
begin

lemma error_read:
  assumes "pk_write mp (PkTuple [PkU8 TYPE_ID_RESPONSE, PkU32 n, v, PkUnit]) = (f, Inr ())"
    and "n \<noteq> 0" and "pk_write mp v = (x, Inr ())"
  obtains pre where "f = pre @ x @ [marker_null]"
    "pack_frame mp checked f = (case read_nil mp (x @ [marker_null]) of
       Inr k \<Rightarrow> Done (Inr (FrameResponse (RequestId (ucast n)) None (pos (length pre + k), word_of_nat (length f))))
     | Inl _ \<Rightarrow> pack_error mp checked f (RequestId (ucast n)) (length pre))"
proof -
  obtain h xa xb where f: "f = h @ xa @ xb @ x @ [marker_null]"
    and a: "pk_write mp (PkU8 TYPE_ID_RESPONSE) = (xa, Inr ())" and b: "pk_write mp (PkU32 n) = (xb, Inr ())"
    and arr: "\<And>rest. read_array_len mp (h @ rest) = Inr (4, length h)"
    using list4_written [OF assms(1)] assms(3) unit_written by (metis prod.inject)
  show thesis
  proof (rule that [of "h @ xa @ xb"])
    show "f = (h @ xa @ xb) @ x @ [marker_null]" using f by simp
  qed (unfold response_head [OF f arr a b assms(2), of checked] Let_def, simp add: add.assoc split: sum.split)
qed

lemma pair_read:
  assumes "pk_write mp (PkTuple [PkU8 TYPE_ID_RESPONSE, PkU32 n, PkTuple [PkStr (str (to_str e)), v], PkUnit]) = (f, Inr ())"
    and "n \<noteq> 0" and "pk_write mp v = (xo, Inr ())" and "length f < 2 ^ 32"
  shows "\<exists>pr. pack_frame mp checked f = Done (Inr (FrameResponse (RequestId (ucast n)) (Some e) pr)) \<and>
    index_by f (range_from pr) = Done xo"
proof -
  obtain x where x: "pk_write mp (PkTuple [PkStr (str (to_str e)), v]) = (x, Inr ())"
    using list4_written [OF assms(1)] by blast
  obtain pre where f: "f = pre @ x @ [marker_null]"
    and read: "pack_frame mp checked f = (case read_nil mp (x @ [marker_null]) of
       Inr k \<Rightarrow> Done (Inr (FrameResponse (RequestId (ucast n)) None (pos (length pre + k), word_of_nat (length f))))
     | Inl _ \<Rightarrow> pack_error mp checked f (RequestId (ucast n)) (length pre))"
    by (rule error_read [OF assms(1,2) x, of checked]) blast
  obtain q where x_split: "x = q @ xo" and find: "errc_find mp (x @ [marker_null]) 0 = Some (e, length q)"
    and no_nil: "\<exists>err. read_nil mp (x @ [marker_null]) = Inl err"
    using code_pair_found [OF x, of "[marker_null]"] assms(3) by (metis prod.inject)
  let ?pr = "(word_of_nat (length pre + length q), word_of_nat (length pre + length x)) :: std_range"
  have "pack_frame mp checked f = Done (Inr (FrameResponse (RequestId (ucast n)) (Some e) ?pr))"
    using read no_nil find error_slot [OF f assms(4)] by (auto simp: pos_def)
  moreover have "index_by f (range_from ?pr) = Done xo"
    by (rule pos_slice [of f "pre @ q" xo "[marker_null]"]) (use f x_split assms(4) in simp_all)
  ultimately show ?thesis by blast
qed

lemma object_read:
  assumes "pk_write mp (PkTuple [PkU8 TYPE_ID_RESPONSE, PkU32 n, PkValue p, PkUnit]) = (f, Inr ())"
    and "n \<noteq> 0" and "length f < 2 ^ 32"
  shows "\<exists>errc pr. pack_frame mp checked f = Done (Inr (FrameResponse (RequestId (ucast n)) errc pr)) \<and>
    response_arrives mp f (ErrObjectOnly p) errc pr"
proof -
  obtain x where x: "pk_write mp (PkValue p) = (x, Inr ())"
    using list4_written [OF assms(1)] by blast
  then have bytes: "pack_bytes mp p = x" "x \<noteq> []" by (simp_all add: pack_bytes_def value_written)
  obtain pre where f: "f = pre @ x @ [marker_null]"
    and read: "pack_frame mp checked f = (case read_nil mp (x @ [marker_null]) of
       Inr k \<Rightarrow> Done (Inr (FrameResponse (RequestId (ucast n)) None (pos (length pre + k), word_of_nat (length f))))
     | Inl _ \<Rightarrow> pack_error mp checked f (RequestId (ucast n)) (length pre))"
    by (rule error_read [OF assms(1,2) x, of checked]) blast
  show ?thesis
  proof (cases "List.hd x = marker_null")
    case True
    then have "read_nil mp (x @ [marker_null]) = Inr 1"
      using bytes(2) nil_read by (cases x) simp_all
    moreover have "index_by f (range_from (word_of_nat (length pre + 1), word_of_nat (length f))) =
        Done (List.tl x @ [marker_null])"
      by (rule pos_slice [of f "pre @ [List.hd x]" "List.tl x @ [marker_null]" "[]"]) (use f bytes(2) assms(3) in simp_all)
    ultimately show ?thesis using True bytes read by (auto simp: pos_def)
  next
    case False
    then have "\<exists>err. read_nil mp (x @ [marker_null]) = Inl err"
      using bytes(2) by (intro nil_missing) simp
    moreover have "index_by f (range_from (word_of_nat (length pre), word_of_nat (length pre + length x))) = Done x"
      by (rule pos_slice [OF f]) (use assms(3) in simp_all)
    moreover have "index_by f (range_from (word_of_nat (length pre + q), word_of_nat (length pre + length x))) =
        Done (drop q x)" if "q \<le> length x" for q
      by (rule pos_slice [of f "pre @ take q x" "drop q x" "[marker_null]"]) (use f that assms(3) in simp_all)
    ultimately show ?thesis
      using False bytes read error_slot [OF f assms(3), of checked]
      by (cases "errc_find mp (x @ [marker_null]) 0") (auto simp: pos_def)
  qed
qed

lemma ok_read:
  assumes "pk_write mp (PkTuple [PkU8 TYPE_ID_RESPONSE, PkU32 n, PkUnit, PkValue p]) = (f, Inr ())"
    and "n \<noteq> 0" and "length f < 2 ^ 32"
  shows "\<exists>pr. pack_frame mp checked f = Done (Inr (FrameResponse (RequestId (ucast n)) None pr)) \<and>
    index_by f (range_from pr) = Done (pack_bytes mp p)"
proof -
  obtain h xa xb xd where f: "f = h @ xa @ xb @ [marker_null] @ xd"
    and a: "pk_write mp (PkU8 TYPE_ID_RESPONSE) = (xa, Inr ())" and b: "pk_write mp (PkU32 n) = (xb, Inr ())"
    and d: "pk_write mp (PkValue p) = (xd, Inr ())"
    and arr: "\<And>rest. read_array_len mp (h @ rest) = Inr (4, length h)"
    using list4_written [OF assms(1)] unit_written by (metis prod.inject)
  let ?p = "length h + length xa + length xb + 1"
  let ?pr = "(word_of_nat ?p, word_of_nat (length f)) :: std_range"
  have "pack_frame mp checked f = Done (Inr (FrameResponse (RequestId (ucast n)) None ?pr))"
    using response_head [OF f arr a b assms(2), of checked] nil_read by (simp add: Let_def pos_def)
  moreover have "index_by f (range_from ?pr) = Done xd"
    by (rule pos_slice [of f "h @ xa @ xb @ [marker_null]" xd "[]"]) (use f assms(3) in simp_all)
  ultimately show ?thesis using d by (auto simp: pack_bytes_def)
qed

lemma response_read:
  assumes "pk_write mp (pack_response_value n r) = (f, Inr ())" and "n \<noteq> 0" and "length f < 2 ^ 32"
  shows "\<exists>errc pr. pack_frame mp checked f = Done (Inr (FrameResponse (RequestId (ucast n)) errc pr)) \<and>
    response_arrives mp f r errc pr"
proof (cases r)
  case (PayloadOk p)
  then show ?thesis using assms ok_read by simp
next
  case (ErrCodeOnly e)
  then show ?thesis using assms pair_read [OF _ assms(2) unit_written assms(3)] by simp
next
  case (ErrObjectOnly p)
  then show ?thesis using assms object_read by simp
next
  case (PayloadErr e p)
  then obtain x where x: "pk_write mp (PkTuple [PkStr (str (to_str e)), PkValue p]) = (x, Inr ())"
    using assms(1) by (auto elim: list4_written)
  obtain xo where "pk_write mp (PkValue p) = (xo, Inr ())" using list2_written [OF x] by blast
  then show ?thesis
    using PayloadErr assms pair_read [OF _ assms(2) _ assms(3)] by (simp add: pack_bytes_def)
qed

end

subsection \<open>A MessagePack format that computes\<close>

text \<open>
  An instance of the contract, following the MessagePack format for unsigned integers,
  strings, arrays, byte strings and \<open>nil\<close>. Its values are \<open>nil\<close> and byte strings.
\<close>

fun be :: "nat \<Rightarrow> nat \<Rightarrow> bytes" where
  "be 0 n = []"
| "be (Suc k) n = be k (n div 256) @ [word_of_nat n]"

lemma be_numeral: "be (numeral k) n = be (pred_numeral k) (n div 256) @ [word_of_nat n]"
  using be.simps(2) [of "pred_numeral k" n] by (simp only: numeral_eq_Suc [of k, symmetric])

definition read_be :: "bytes \<Rightarrow> nat" where
  "read_be bs = foldl (\<lambda>acc b. 256 * acc + unat b) 0 bs"

lemma length_be [simp]: "length (be k n) = k"
  by (induction k n rule: be.induct) simp_all

lemma read_be_be [simp]: "n < 256 ^ k \<Longrightarrow> read_be (be k n) = n"
proof (induction k n rule: be.induct)
  case (1 n)
  then show ?case by (simp add: read_be_def)
next
  case (2 k n)
  then have "n div 256 < 256 ^ k" by (simp add: div_less_iff_less_mult mult.commute)
  then have "read_be (be k (n div 256)) = n div 256" by (rule 2(1))
  then show ?case by (simp add: read_be_def unsigned_of_nat take_bit_eq_mod)
qed

text \<open>A length or a number behind a marker, in as many bytes as the marker says.\<close>

definition read_tail :: "nat \<Rightarrow> bytes \<Rightarrow> (nat \<times> nat) option" where
  "read_tail k bs = (if length bs < k then None else Some (read_be (take k bs), Suc k))"

lemma read_tail_be [simp]: "n < 256 ^ k \<Longrightarrow> read_tail k (be k n @ rest) = Some (n, Suc k)"
  by (simp add: read_tail_def)

lemma read_tail_byte [simp]: "n < 256 \<Longrightarrow> read_tail (Suc 0) (word_of_nat n # rest) = Some (n, Suc (Suc 0))"
  using read_tail_be [of n 1 rest] by simp

definition mp_uint :: "nat \<Rightarrow> bytes" where
  "mp_uint n =
     (if n < 128 then [word_of_nat n] else if n < 256 then 0xCC # be 1 n
      else if n < 65536 then 0xCD # be 2 n else 0xCE # be 4 n)"

definition read_mp_uint :: "bytes \<Rightarrow> (nat \<times> nat) option" where
  "read_mp_uint bs =
     (case bs of
        [] \<Rightarrow> None
      | b # r \<Rightarrow>
          if b < 128 then Some (unat b, 1) else if b = 0xCC then read_tail 1 r
          else if b = 0xCD then read_tail 2 r else if b = 0xCE then read_tail 4 r else None)"

lemma small_byte: "n < 256 \<Longrightarrow> unat (word_of_nat n :: u8) = n"
  by (simp add: unsigned_of_nat take_bit_nat_eq_self)

lemma read_mp_uint [simp]: "n < 2 ^ 32 \<Longrightarrow> read_mp_uint (mp_uint n @ rest) = Some (n, length (mp_uint n))"
  using small_byte [of n] by (auto simp: mp_uint_def read_mp_uint_def word_less_nat_alt)

definition mp_str_head :: "nat \<Rightarrow> bytes" where
  "mp_str_head n =
     (if n < 32 then [word_of_nat (0xA0 + n)] else if n < 256 then 0xD9 # be 1 n
      else if n < 65536 then 0xDA # be 2 n else 0xDB # be 4 n)"

definition read_mp_str_head :: "bytes \<Rightarrow> (nat \<times> nat) option" where
  "read_mp_str_head bs =
     (case bs of
        [] \<Rightarrow> None
      | b # r \<Rightarrow>
          if 0xA0 \<le> b \<and> b < 0xC0 then Some (unat b - 0xA0, 1) else if b = 0xD9 then read_tail 1 r
          else if b = 0xDA then read_tail 2 r else if b = 0xDB then read_tail 4 r else None)"

lemma read_mp_str_head [simp]:
  "n < 2 ^ 32 \<Longrightarrow> read_mp_str_head (mp_str_head n @ rest) = Some (n, length (mp_str_head n))"
  using small_byte [of "0xA0 + n"]
  by (auto simp: mp_str_head_def read_mp_str_head_def word_less_nat_alt word_le_nat_alt simp del: of_nat_add)

definition mp_array_head :: "nat \<Rightarrow> bytes" where
  "mp_array_head n =
     (if n < 16 then [word_of_nat (0x90 + n)] else if n < 65536 then 0xDC # be 2 n else 0xDD # be 4 n)"

definition read_mp_array_head :: "bytes \<Rightarrow> (nat \<times> nat) option" where
  "read_mp_array_head bs =
     (case bs of
        [] \<Rightarrow> None
      | b # r \<Rightarrow>
          if 0x90 \<le> b \<and> b < 0xA0 then Some (unat b - 0x90, 1) else if b = 0xDC then read_tail 2 r
          else if b = 0xDD then read_tail 4 r else None)"

lemma read_mp_array_head [simp]:
  "n < 2 ^ 32 \<Longrightarrow> read_mp_array_head (mp_array_head n @ rest) = Some (n, length (mp_array_head n))"
  using small_byte [of "0x90 + n"]
  by (auto simp: mp_array_head_def read_mp_array_head_def word_less_nat_alt word_le_nat_alt simp del: of_nat_add)

datatype mp_value = MpNil | MpBin bytes

fun mp_bytes :: "mp_value pack_value \<Rightarrow> bytes" where
  "mp_bytes (PkU8 b) = mp_uint (unat b)"
| "mp_bytes (PkU32 n) = mp_uint (unat n)"
| "mp_bytes (PkStr s) = mp_str_head (length s) @ s"
| "mp_bytes PkUnit = [0xC0]"
| "mp_bytes (PkValue MpNil) = [0xC0]"
| "mp_bytes (PkValue (MpBin bs)) = (if length bs < 256 then 0xC4 # be 1 (length bs) else 0xC6 # be 4 (length bs)) @ bs"
| "mp_bytes (PkTuple vs) = mp_array_head (length vs) @ concat (List.map mp_bytes vs)"

text \<open>The readers of the crate, with an error for everything else.\<close>

definition mp_result :: "(nat \<times> nat) option \<Rightarrow> serde_error + 'n::len word \<times> nat" where
  "mp_result x =
     (case x of
        None \<Rightarrow> Inl (SerDeError ''malformed'')
      | Some (n, k) \<Rightarrow> if n < 2 ^ LENGTH('n) then Inr (word_of_nat n, k) else Inl (SerDeError ''out of range''))"

definition read_mp_u32 :: "bytes \<Rightarrow> (nat \<times> nat) option" where
  "read_mp_u32 bs = (case bs of [] \<Rightarrow> None | b # r \<Rightarrow> if b = 0xCE then read_tail 4 r else None)"

definition read_mp_str :: "bytes \<Rightarrow> serde_error + bytes \<times> nat" where
  "read_mp_str bs =
     (case read_mp_str_head bs of
        None \<Rightarrow> Inl (SerDeError ''malformed'')
      | Some (n, k) \<Rightarrow>
          if length bs - k < n \<or> \<not> utf8_valid (take n (drop k bs)) then Inl (SerDeError ''malformed'')
          else Inr (take n (drop k bs), k + n))"

definition mp_ops :: "(mp_value, bytes) rmp_ops" where
  "mp_ops =
     \<lparr>pk_write = (\<lambda>v. (mp_bytes v, Inr ())),
      read_array_len = (\<lambda>bs. mp_result (read_mp_array_head bs)),
      read_int_u8 = (\<lambda>bs. mp_result (read_mp_uint bs)),
      read_int_u32 = (\<lambda>bs. mp_result (read_mp_uint bs)),
      read_str_len = (\<lambda>bs. mp_result (read_mp_str_head bs)),
      read_nil = (\<lambda>bs. case bs of [] \<Rightarrow> Inl (SerDeError ''malformed'')
        | b # r \<Rightarrow> if b = 0xC0 then Inr 1 else Inl (SerDeError ''malformed'')),
      read_u32 = (\<lambda>bs. mp_result (read_mp_u32 bs)),
      read_str_from_slice = read_mp_str,
      pk_deserializer = (\<lambda>bs. bs)\<rparr>"

lemma mp_uint_marked:
  "65536 \<le> n \<Longrightarrow> n < 2 ^ 32 \<Longrightarrow> read_mp_u32 (mp_uint n) = Some (n, length (mp_uint n))"
  "n < 65536 \<Longrightarrow> read_mp_u32 (mp_uint n) = None"
  using read_tail_be [of n 4 "[]"] small_byte [of n]
  by (auto simp: read_mp_u32_def mp_uint_def word_less_nat_alt unsigned_of_nat dest: arg_cong [where f = unat])

lemma mp_result_word [simp]: "mp_result (Some (unat (w :: 'n::len word), k)) = Inr (w, k)"
  by (simp add: mp_result_def)

interpretation mp: rmp mp_ops
proof unfold_locales
  fix vs :: "mp_value pack_value list" and out
  assume "pk_write mp_ops (PkTuple vs) = (out, Inr ())" and len: "length vs < 2 ^ 32"
  then have out: "out = mp_array_head (length vs) @ concat (List.map mp_bytes vs)" by (simp add: mp_ops_def)
  have "list_all2 (\<lambda>v x. pk_write mp_ops v = (x, Inr ())) vs (List.map mp_bytes vs)"
    by (simp add: list_all2_conv_all_nth mp_ops_def)
  moreover have "read_array_len mp_ops (mp_array_head (length vs) @ rest) =
      Inr (word_of_nat (length vs), length (mp_array_head (length vs)))" for rest
    using len by (simp add: mp_ops_def mp_result_def)
  ultimately show "\<exists>h outs. out = h @ concat outs \<and> list_all2 (\<lambda>v x. pk_write mp_ops v = (x, Inr ())) vs outs \<and>
      (\<forall>rest. read_array_len mp_ops (h @ rest) = Inr (word_of_nat (length vs), length h))"
    using out by blast
next
  fix b :: u8 and x rest
  assume "pk_write mp_ops (PkU8 b) = (x, Inr ())"
  moreover have "unat b < 2 ^ LENGTH(8)" by (rule unsigned_less)
  ultimately show "read_int_u8 mp_ops (x @ rest) = Inr (b, length x)" by (auto simp: mp_ops_def)
next
  fix n :: u32 and x rest
  have bound: "unat n < 2 ^ 32" using unsigned_less [of n] by simp
  assume "pk_write mp_ops (PkU32 n) = (x, Inr ())"
  then have x: "x = mp_uint (unat n)" by (simp add: mp_ops_def)
  show "read_int_u32 mp_ops (x @ rest) = Inr (n, length x)" using x bound by (simp add: mp_ops_def)
  show "read_u32 mp_ops x = Inr (n, length x)" if "0x10000 \<le> n"
    using that x bound mp_uint_marked(1) [of "unat n"] by (simp add: mp_ops_def word_le_nat_alt)
  show "\<exists>e. read_u32 mp_ops x = Inl e" if "n < 0x10000"
    using that x mp_uint_marked(2) [of "unat n"] by (simp add: mp_ops_def mp_result_def word_less_nat_alt)
next
  fix s x rest
  assume "pk_write mp_ops (PkStr s) = (x, Inr ())"
  then have x: "x = mp_str_head (length s) @ s" by (simp add: mp_ops_def)
  show "\<exists>h. x = h @ s \<and> (length s < 2 ^ 32 \<longrightarrow>
      (\<forall>rest. read_str_len mp_ops (h @ rest) = Inr (word_of_nat (length s), length h)))"
    using x by (auto simp: mp_ops_def mp_result_def)
  show "read_str_from_slice mp_ops (x @ rest) = Inr (s, length x)" if "length s < 2 ^ 32" "utf8_valid s"
    using that x by (simp add: mp_ops_def read_mp_str_def)
next
  fix p :: mp_value and x
  assume "pk_write mp_ops (PkValue p) = (x, Inr ())"
  then show "x \<noteq> []" by (cases p) (auto simp: mp_ops_def)
next
  fix bs :: bytes
  show "\<exists>e. read_nil mp_ops bs = Inl e" if "bs = [] \<or> List.hd bs \<noteq> marker_null"
    using that by (cases bs) (auto simp: mp_ops_def marker_null_def)
  show "\<exists>e. read_array_len mp_ops bs = Inl e" if "bs = [] \<or> List.hd bs = marker_null"
    using that by (cases bs) (auto simp: mp_ops_def marker_null_def read_mp_array_head_def mp_result_def)
qed (simp_all add: mp_ops_def marker_null_def)

subsection \<open>Properties\<close>

lemma fit_request_id_value:
  assumes "request_id_ok i"
  shows "request_id_ok (fit_request_id i)" and "request_id_value (fit_request_id i) \<le> 0xFFFFFFFF"
    and "request_id_value (fit_request_id i) = request_id_value i AND 0xFFFFFFFF \<or>
      request_id_value i AND 0xFFFFFFFF = 0 \<and> request_id_value (fit_request_id i) = 1"
proof -
  have mask: "w AND 0xFFFFFFFF = take_bit 32 w" for w :: u64
    by (simp add: take_bit_eq_mask mask_numeral)
  have keep: "w AND 0xFFFFFFFF = w" if "w \<le> 0xFFFFFFFF" for w :: u64
  proof (rule word_unat_eq_iff [THEN iffD2])
    have "unat w < 2 ^ 32" using that by (simp add: word_le_nat_alt)
    then show "unat (w AND 0xFFFFFFFF) = unat w"
      by (simp add: mask unsigned_take_bit_eq take_bit_nat_eq_self)
  qed
  show "request_id_ok (fit_request_id i)" using assms
    by (auto simp: fit_request_id_def request_id_ok_def nonzero_u64_new_def)
  show "request_id_value (fit_request_id i) \<le> 0xFFFFFFFF" using word_and_le1
    by (auto simp: fit_request_id_def nonzero_u64_new_def not_less)
  show "request_id_value (fit_request_id i) = request_id_value i AND 0xFFFFFFFF \<or>
      request_id_value i AND 0xFFFFFFFF = 0 \<and> request_id_value (fit_request_id i) = 1"
    using keep by (auto simp: fit_request_id_def nonzero_u64_new_def not_less)
qed

lemma encode_request_InrD:
  "pack_encode_request mp i m p [] = (f, Inr i') \<Longrightarrow> i' = fit_request_id i \<and>
     pk_write mp (PkTuple [PkU8 TYPE_ID_REQUEST, PkU32 (ucast (request_id_value i')), PkStr m, PkValue p]) = (f, Inr ())"
  by (cases "pk_write mp (PkTuple [PkU8 TYPE_ID_REQUEST, PkU32 (ucast (request_id_value (fit_request_id i))),
      PkStr m, PkValue p])")
    (auto simp: pack_encode_request_def pack_serialize_def Let_def map_err_def split: sum.splits)

lemma pack_request_facts:
  assumes "rmp mp" and "request_id_ok i" and "pack_encode_request mp i m p [] = (f, Inr i')" and "length f < 2 ^ 32"
  shows "request_id_value i' \<noteq> 0 \<and> request_id_value i' \<le> 0xFFFFFFFF \<and>
    (request_id_value i' = request_id_value i AND 0xFFFFFFFF \<or>
      request_id_value i AND 0xFFFFFFFF = 0 \<and> request_id_value i' = 1) \<and>
    (\<exists>rid mr pr raw. pack_decode_inbound mp checked s f = Done (s, f, Inr (FrameRequest rid mr pr)) \<and>
      index_by f (range_from mr) = Done m \<and> index_by f (range_from pr) = Done (pack_bytes mp p) \<and>
      snd rid \<noteq> 0 \<and> index_by f (range_from rid) = Done raw \<and>
      (if 0x10000 \<le> request_id_value i' then pack_restore_request_id mp raw = Inr i'
       else pack_restore_request_id mp raw = Inl InvalidFormat \<and>
         (\<forall>r buf. pack_encode_response mp raw r buf = (buf, Inl InvalidRequestId))))"
proof -
  let ?v = "request_id_value i'" and ?n = "ucast (request_id_value i') :: u32"
  have i': "i' = fit_request_id i"
    and w: "pk_write mp (PkTuple [PkU8 TYPE_ID_REQUEST, PkU32 ?n, PkStr m, PkValue p]) = (f, Inr ())"
    using encode_request_InrD [OF assms(3)] by blast+
  have v: "?v \<noteq> 0" "?v \<le> 0xFFFFFFFF" using fit_request_id_value [OF assms(2)] i' by (simp_all add: request_id_ok_def)
  have n: "unat ?n = unat ?v" using v(2) by (simp add: unsigned_ucast_eq word_le_nat_alt take_bit_nat_eq_self)
  then have same: "ucast ?n = ?v" by (metis unat_ucast64 unsigned_word_eqI)
  have big: "0x10000 \<le> ?n \<longleftrightarrow> 0x10000 \<le> ?v" using n by (simp add: word_le_nat_alt)
  obtain rid mr pr raw where "pack_frame mp checked f = Done (Inr (FrameRequest rid mr pr))"
    and slices: "index_by f (range_from mr) = Done m" "index_by f (range_from pr) = Done (pack_bytes mp p)"
      "snd rid \<noteq> 0" "index_by f (range_from rid) = Done raw"
    and raw: "retrieve_req_id mp raw = (if 0x10000 \<le> ?n then Some ?n else None)"
    using rmp.request_read [OF assms(1) w assms(4), of checked] by blast
  then have "pack_decode_inbound mp checked s f = Done (s, f, Inr (FrameRequest rid mr pr))"
    by (simp add: pack_decode_inbound_def)
  moreover have "if 0x10000 \<le> ?v then pack_restore_request_id mp raw = Inr i'
       else pack_restore_request_id mp raw = Inl InvalidFormat \<and>
         (\<forall>r buf. pack_encode_response mp raw r buf = (buf, Inl InvalidRequestId))"
    using raw same big v(1) by (cases i') (auto simp: pack_restore_request_id_def pack_encode_response_def nonzero_u64_new_def)
  ultimately show ?thesis using slices v fit_request_id_value(3) [OF assms(2)] unfolding i' by blast
qed


text \<open>The responses that arrive as they were sent.\<close>

fun pack_good_response :: "('p, 'd) rmp_ops \<Rightarrow> 'p encode_response_payload \<Rightarrow> bool" where
  "pack_good_response mp (ErrObjectOnly p) \<longleftrightarrow>
     List.hd (pack_bytes mp p) \<noteq> marker_null \<and> errc_find mp (pack_bytes mp p @ [marker_null]) 0 = None"
| "pack_good_response mp _ \<longleftrightarrow> True"

definition pack_good_id :: "request_id \<Rightarrow> bool" where
  "pack_good_id i \<longleftrightarrow> 0x10000 \<le> request_id_value i"

lemma pack_response_facts:
  assumes "rmp mp" and "pack_restore_request_id mp raw = Inr i"
    and "pack_encode_response mp raw r [] = (f, Inr ())" and "length f < 2 ^ 32"
  shows "\<exists>errc pr. pack_decode_inbound mp checked s f = Done (s, f, Inr (FrameResponse i errc pr)) \<and>
    response_arrives mp f r errc pr"
proof -
  obtain n where n: "retrieve_req_id mp raw = Some n" "n \<noteq> 0" "i = RequestId (ucast n)"
    using pack_restore_InrD [OF assms(2)] .
  then have "pk_write mp (pack_response_value n r) = (f, Inr ())"
    using assms(3) by (simp add: pack_encode_response_def pack_serialize_ok)
  from rmp.response_read [OF assms(1) this n(2) assms(4), of checked]
  show ?thesis using n(3) by (auto simp: pack_decode_inbound_def)
qed

lemma response_arrives_carried:
  "response_arrives mp f r errc pr \<Longrightarrow> pack_good_response mp r \<Longrightarrow>
     errc = payload_errc r \<and> (\<forall>p. payload_object r = Some p \<longrightarrow> index_by f (range_from pr) = Done (pack_bytes mp p))"
  by (cases r) simp_all

context rmp
begin

lemma notify_read:
  assumes "pack_encode_notify mp m p [] = (f, Inr ())" and "length f < 2 ^ 32"
  shows "\<exists>mr pr. pack_decode_inbound mp checked s f = Done (s, f, Inr (FrameNotify mr pr)) \<and>
    index_by f (range_from mr) = Done m \<and> index_by f (range_from pr) = Done (pack_bytes mp p)"
proof -
  have w: "pk_write mp (PkTuple [PkU8 TYPE_ID_NOTIFICATION, PkStr m, PkValue p]) = (f, Inr ())"
    using assms(1) by (simp add: pack_encode_notify_def pack_serialize_ok)
  obtain h xa xc xd where f: "f = h @ xa @ xc @ xd"
    and a: "pk_write mp (PkU8 TYPE_ID_NOTIFICATION) = (xa, Inr ())"
    and c: "pk_write mp (PkStr m) = (xc, Inr ())" and d: "pk_write mp (PkValue p) = (xd, Inr ())"
    and arr: "\<And>rest. read_array_len mp (h @ rest) = Inr (3, length h)"
    using list3_written [OF w] by blast
  have pre: "f = (h @ xa) @ xc @ xd" using f by simp
  obtain mr pr where "pack_method mp f None (length (h @ xa)) = Done (Inr (FrameNotify mr pr))"
    and slices: "index_by f (range_from mr) = Done m" "index_by f (range_from pr) = Done xd"
    using method_read [OF pre c assms(2), of None] by auto
  then have "pack_decode_inbound mp checked s f = Done (s, f, Inr (FrameNotify mr pr))"
    using f arr u8_written [OF a] by (simp add: pack_decode_inbound_def pack_frame_def pack_call_def type_id_defs)
  then show ?thesis using slices d by (auto simp: pack_bytes_def)
qed

lemma contract:
  "codec_contract (pack_codec mp checked addr) utf8_valid (pack_bytes mp) (\<lambda>e. e) pack_good_id (pack_good_response mp)"
proof unfold_locales
  fix i m p f i' s
  assume ok: "request_id_ok i" and enc: "encode_request (pack_codec mp checked addr) i m p [] = (f, Inr i')"
    and len: "length f < 2 ^ 32" and good: "pack_good_id i'"
  have enc': "pack_encode_request mp i m p [] = (f, Inr i')" using enc by (simp add: pack_codec_def)
  obtain rid mr pr raw where dec: "pack_decode_inbound mp checked s f = Done (s, f, Inr (FrameRequest rid mr pr))"
    and slices: "index_by f (range_from mr) = Done m" "index_by f (range_from pr) = Done (pack_bytes mp p)"
      "snd rid \<noteq> 0" "index_by f (range_from rid) = Done raw"
    and raw: "pack_restore_request_id mp raw = Inr i'"
    using pack_request_facts [OF rmp_axioms ok enc' len, of checked s] good by (auto simp: pack_good_id_def)
  show "\<exists>rid mr pr raw. decode_inbound (pack_codec mp checked addr) s f = Done (s, f, Inr (FrameRequest rid mr pr)) \<and>
      index_by f (range_from mr) = Done m \<and> index_by f (range_from pr) = Done (pack_bytes mp p) \<and>
      snd rid \<noteq> 0 \<and> index_by f (range_from rid) = Done raw \<and> restore_request_id (pack_codec mp checked addr) raw = Inr i'"
    using dec slices raw by (auto simp: pack_codec_def)
next
  fix raw i r f s
  assume "restore_request_id (pack_codec mp checked addr) raw = Inr i"
    and "encode_response (pack_codec mp checked addr) raw r [] = (f, Inr ())" and "length f < 2 ^ 32"
    and good: "pack_good_response mp r"
  then obtain errc pr where "pack_decode_inbound mp checked s f = Done (s, f, Inr (FrameResponse i errc pr))"
    "response_arrives mp f r errc pr"
    using pack_response_facts [OF rmp_axioms, of raw i r f checked s] by (auto simp: pack_codec_def)
  then show "\<exists>pr. decode_inbound (pack_codec mp checked addr) s f =
      Done (s, f, Inr (FrameResponse i (map_option (\<lambda>e. e) (payload_errc r)) pr)) \<and>
      (\<forall>p. payload_object r = Some p \<longrightarrow> index_by f (range_from pr) = Done (pack_bytes mp p))"
    using response_arrives_carried [OF _ good] by (auto simp: pack_codec_def option.map_ident)
qed (use notify_read in \<open>auto simp: pack_codec_def\<close>)

end

text \<open>MessagePack keeps the contract of a connection for the identifiers and responses above.\<close>

sublocale rmp \<subseteq> pack: codec_contract "pack_codec mp checked addr" utf8_valid "pack_bytes mp" "\<lambda>e. e"
    pack_good_id "pack_good_response mp" for checked addr
  by (rule contract)

text \<open>C32: A MessagePack request carries a non-zero 32-bit identifier, the low half of the one it was
  given, with one in place of zero. The frame is decoded as a request with the same method
  and parameters. The raw identifier found in it can be turned back into the identifier, and
  answered, only when the identifier is at least \<open>2 ^ 16\<close>: a smaller one, which is written
  in fewer than five bytes, is rejected by \<open>restore_request_id\<close> and by every call of
  \<open>encode_response\<close>, so that this request can never be answered.\<close>

theorem msgpack_small_id_unanswerable:
  assumes "rmp mp" and "request_id_ok i" and "pack_encode_request mp i m p [] = (f, Inr i')" and "length f < 2 ^ 32"
  shows "request_id_value i' \<noteq> 0 \<and> request_id_value i' \<le> 0xFFFFFFFF \<and>
    (request_id_value i' = request_id_value i AND 0xFFFFFFFF \<or>
      request_id_value i AND 0xFFFFFFFF = 0 \<and> request_id_value i' = 1) \<and>
    (\<exists>rid mr pr raw. pack_decode_inbound mp checked s f = Done (s, f, Inr (FrameRequest rid mr pr)) \<and>
      index_by f (range_from mr) = Done m \<and> index_by f (range_from pr) = Done (pack_bytes mp p) \<and>
      index_by f (range_from rid) = Done raw \<and>
      (if 0x10000 \<le> request_id_value i' then pack_restore_request_id mp raw = Inr i'
       else pack_restore_request_id mp raw = Inl InvalidFormat \<and>
         (\<forall>r buf. pack_encode_response mp raw r buf = (buf, Inl InvalidRequestId))))"
  using pack_request_facts [OF assms, of checked s] by blast

theorem msgpack_small_id_unanswerable_witness:
  "\<exists>rid mr pr raw. pack_decode_inbound mp_ops True [] [0x94, 0, 7, 0xA1, 0x41, 0xC0] =
      Done ([], [0x94, 0, 7, 0xA1, 0x41, 0xC0], Inr (FrameRequest rid mr pr)) \<and>
    index_by [0x94, 0, 7, 0xA1, 0x41, 0xC0] (range_from rid) = Done raw \<and>
    pack_encode_response mp_ops raw (PayloadOk MpNil) [] = ([], Inl InvalidRequestId)"
proof -
  have "pack_encode_request mp_ops (RequestId 7) [0x41] MpNil [] =
      ([0x94, 0, 7, 0xA1, 0x41, 0xC0], Inr (RequestId 7))"
    by (simp add: pack_encode_request_def fit_request_id_def pack_serialize_def mp_ops_def mp_array_head_def
        mp_uint_def mp_str_head_def type_id_defs Let_def)
  from msgpack_small_id_unanswerable [OF mp.rmp_axioms _ this, of True "[]"]
  show ?thesis by (fastforce simp: request_id_ok_def)
qed

text \<open>C31: A MessagePack response that was encoded for a raw identifier is decoded as the response to
  the request with this identifier: a result with its payload, an error code with its
  code and object. An error object without a code arrives in one of three ways, by its own
  bytes: one that starts with the marker of \<open>nil\<close> is mistaken for a success, with the rest
  of its bytes and the \<open>nil\<close> behind it as the result; one that reads as an array of two
  whose first item is the name of an error code arrives as that code, with what follows the
  name as its object; any other arrives as an unknown error with that object.\<close>

theorem msgpack_response_arrives:
  assumes "rmp mp" and "pack_restore_request_id mp raw = Inr i"
    and "pack_encode_response mp raw r [] = (f, Inr ())" and "length f < 2 ^ 32"
  shows "\<exists>errc pr. pack_decode_inbound mp checked s f = Done (s, f, Inr (FrameResponse i errc pr)) \<and>
    response_arrives mp f r errc pr"
  using assms by (rule pack_response_facts)

theorem msgpack_response_arrives_witness:
  "\<exists>pr. pack_decode_inbound mp_ops True [] [0x94, 1, 0xCE, 0, 1, 0, 0, 0xC0, 0xC0] =
    Done ([], [0x94, 1, 0xCE, 0, 1, 0, 0, 0xC0, 0xC0], Inr (FrameResponse (RequestId 0x10000) None pr)) \<and>
    pack_encode_response mp_ops [0xCE, 0, 1, 0, 0] (ErrObjectOnly MpNil) [] =
      ([0x94, 1, 0xCE, 0, 1, 0, 0, 0xC0, 0xC0], Inr ())"
proof -
  have id: "retrieve_req_id mp_ops [0xCE, 0, 1, 0, 0] = Some 0x10000"
    by (simp add: retrieve_req_id_def mp_ops_def read_mp_u32_def read_tail_def read_be_def mp_result_def)
  have enc: "pack_encode_response mp_ops [0xCE, 0, 1, 0, 0] (ErrObjectOnly MpNil) [] =
      ([0x94, 1, 0xCE, 0, 1, 0, 0, 0xC0, 0xC0], Inr ())"
    using id by (simp add: pack_encode_response_def pack_serialize_def mp_ops_def mp_array_head_def
        mp_uint_def type_id_defs be_numeral)
  have "pack_restore_request_id mp_ops [0xCE, 0, 1, 0, 0] = Inr (RequestId 0x10000)"
    using id by (simp add: pack_restore_request_id_def nonzero_u64_new_def)
  from msgpack_response_arrives [OF mp.rmp_axioms this enc, of True "[]"] enc
  show ?thesis by (auto simp: pack_bytes_def mp_ops_def marker_null_def)
qed

text \<open>The cursor after the identifier of a call, and a method name that reaches past the frame.\<close>

definition method_truncated :: "('p, 'd) rmp_ops \<Rightarrow> bytes \<Rightarrow> nat \<Rightarrow> bool" where
  "method_truncated mp frame p \<longleftrightarrow>
     (case read_str_len mp (drop p frame) of
        Inl _ \<Rightarrow> False
      | Inr (n, k) \<Rightarrow> length frame - (p + k) < unat n)"

definition call_truncated :: "('p, 'd) rmp_ops \<Rightarrow> bytes \<Rightarrow> bool" where
  "call_truncated mp frame \<longleftrightarrow>
     (\<exists>k ty k1. read_int_u8 mp (drop k frame) = Inr (ty, k1) \<and>
        (read_array_len mp frame = Inr (3, k) \<and> ty = TYPE_ID_NOTIFICATION \<and> method_truncated mp frame (k + k1) \<or>
         read_array_len mp frame = Inr (4, k) \<and> ty = TYPE_ID_REQUEST \<and>
           (\<exists>v k2. read_int_u32 mp (drop (k + k1) frame) = Inr (v, k2) \<and> method_truncated mp frame (k + k1 + k2))))"

lemma pack_method_panics: "pack_method mp frame ids p = Panic \<longleftrightarrow> method_truncated mp frame p"
  by (auto simp: pack_method_def method_truncated_def advance_def Let_def question_def not_le split: sum.splits)

lemma pack_call_panics:
  "pack_call mp frame ty p = Panic \<longleftrightarrow>
     (if ty = TYPE_ID_REQUEST then
        \<exists>v k2. read_int_u32 mp (drop p frame) = Inr (v, k2) \<and> method_truncated mp frame (p + k2)
      else method_truncated mp frame p)"
  by (auto simp: pack_call_def pack_method_panics question_def split: sum.splits)

lemma pack_response_panics:
  assumes "frame \<noteq> []" and "length frame < 2 ^ 32"
  shows "pack_response mp checked frame p \<noteq> Panic"
proof -
  have "unat (word_of_nat (length frame) :: u32) = length frame"
    using assms(2) by (simp add: unsigned_of_nat take_bit_nat_eq_self)
  then have "\<not> (word_of_nat (length frame) :: u32) < 1"
    using assms(1) by (metis length_0_conv less_one unat_1 word_less_nat_alt)
  then have "pack_error mp checked frame i q \<noteq> Panic" for i q
    using assms(1) by (simp add: pack_error_def u32_sub_def)
  then show ?thesis
    by (auto simp: pack_response_def question_def split: sum.splits option.splits)
qed

text \<open>C33: The MessagePack decoder returns on every frame, in every build, but for one case in which
  it panics: a request or a notification whose method name is announced as longer than the
  rest of the frame. A remote can send such a frame.\<close>

theorem msgpack_decode_panics_iff:
  assumes "rmp mp" and "length frame < 2 ^ 32"
  shows "pack_decode_inbound mp checked s frame = Panic \<longleftrightarrow> call_truncated mp frame"
proof (cases "read_array_len mp frame")
  case (Inl e)
  then show ?thesis by (simp add: pack_decode_inbound_def pack_frame_def call_truncated_def)
next
  case (Inr nk)
  obtain n k where nk: "nk = (n, k)" by fastforce
  have "frame \<noteq> []" using rmp.array_missing [OF assms(1), of frame] Inr by auto
  note no_panic = pack_response_panics [OF this assms(2)]
  show ?thesis
  proof (cases "read_int_u8 mp (drop k frame)")
    case (Inl e)
    then show ?thesis using Inr nk by (auto simp: pack_decode_inbound_def pack_frame_def call_truncated_def)
  next
    case (Inr tk)
    obtain ty k1 where tk: "tk = (ty, k1)" by fastforce
    show ?thesis
      using \<open>read_array_len mp frame = Inr nk\<close> nk Inr tk no_panic
      by (auto simp: pack_decode_inbound_def pack_frame_def call_truncated_def pack_call_panics type_id_defs)
  qed
qed

theorem msgpack_decode_panics_iff_witness:
  "pack_decode_inbound mp_ops False [] [0x93, 2, 0xA5, 0x41] = Panic"
proof -
  have arr: "read_array_len mp_ops [0x93, 2, 0xA5, 0x41] = Inr (3, 1)"
    by (simp add: mp_ops_def read_mp_array_head_def mp_result_def)
  have ty: "read_int_u8 mp_ops (drop 1 [0x93, 2, 0xA5, 0x41]) = Inr (TYPE_ID_NOTIFICATION, 1)"
    by (simp add: mp_ops_def read_mp_uint_def mp_result_def type_id_defs)
  have "method_truncated mp_ops [0x93, 2, 0xA5, 0x41] (1 + 1)"
    by (simp add: method_truncated_def mp_ops_def read_mp_str_head_def mp_result_def)
  then have "call_truncated mp_ops [0x93, 2, 0xA5, 0x41]"
    unfolding call_truncated_def using arr ty by blast
  then show ?thesis using msgpack_decode_panics_iff [OF mp.rmp_axioms, of "[0x93, 2, 0xA5, 0x41]"] by simp
qed

text \<open>An error response that ends with its identifier, whose last byte happens to be the marker of
  \<open>nil\<close>, is accepted, and its payload is a range that ends before it starts: reading the
  payload of this response panics.\<close>

theorem msgpack_inverted_payload:
  assumes "rmp mp" and "read_array_len mp frame = Inr (4, k)"
    and "read_int_u8 mp (drop k frame) = Inr (TYPE_ID_RESPONSE, k1)"
    and "read_int_u32 mp (drop (k + k1) frame) = Inr (v, k2)" and "v \<noteq> 0"
    and "k + k1 + k2 = length frame" and "last frame = marker_null" and "length frame < 2 ^ 32"
  shows "\<exists>pr. pack_decode_inbound mp checked s frame =
      Done (s, frame, Inr (FrameResponse (RequestId (ucast v)) (Some Unknown) pr)) \<and>
    index_by frame (range_from pr) = Panic"
proof -
  have nonempty: "frame \<noteq> []" using rmp.array_missing [OF assms(1), of frame] assms(2) by auto
  then obtain pre where f: "frame = pre @ [marker_null]" using assms(7) by (metis append_butlast_last_id)
  let ?n = "word_of_nat (length frame) :: u32"
  have n: "unat ?n = length frame" using assms(8) by (simp add: unsigned_of_nat take_bit_nat_eq_self)
  have le: "1 \<le> ?n" using n nonempty by (simp add: word_le_nat_alt Suc_le_eq)
  then have nz: "?n \<noteq> 0" by auto
  from le have prev: "unat (?n - 1) = length frame - 1" using n by (simp add: unat_sub)
  obtain e1 where e1: "read_nil mp [] = Inl e1" using rmp.nil_missing [OF assms(1)] by blast
  obtain e2 where e2: "read_array_len mp [] = Inl e2" using rmp.array_missing [OF assms(1)] by blast
  have "pack_decode_inbound mp checked s frame =
      Done (s, frame, Inr (FrameResponse (RequestId (ucast v)) (Some Unknown) (?n, ?n - 1)))"
    using assms(2-4,6,7) e1 e2 nonempty le nz
    by (simp add: nonzero_ucast32 [OF assms(5)] pack_decode_inbound_def pack_frame_def type_id_defs pack_response_def pack_error_def
        u32_sub_def errc_find_def pos_def response_error_default_def not_less)
  moreover have "index_by frame (range_from (?n, ?n - 1)) = Panic"
    using n prev unfolding f by (simp add: range_from_def index_by_eq index_range_def)
  ultimately show ?thesis by blast
qed

theorem msgpack_inverted_payload_witness:
  "\<exists>pr. pack_decode_inbound mp_ops True [] [0x94, 1, 0xCC, 0xC0] =
      Done ([], [0x94, 1, 0xCC, 0xC0], Inr (FrameResponse (RequestId 0xC0) (Some Unknown) pr)) \<and>
    index_by [0x94, 1, 0xCC, 0xC0] (range_from pr) = Panic"
proof -
  have arr: "read_array_len mp_ops [0x94, 1, 0xCC, 0xC0] = Inr (4, 1)"
    by (simp add: mp_ops_def read_mp_array_head_def mp_result_def)
  have ty: "read_int_u8 mp_ops (drop 1 [0x94, 1, 0xCC, 0xC0]) = Inr (TYPE_ID_RESPONSE, 1)"
    by (simp add: mp_ops_def read_mp_uint_def mp_result_def type_id_defs)
  have i: "read_int_u32 mp_ops (drop (1 + 1) [0x94, 1, 0xCC, 0xC0]) = Inr (0xC0, 2)"
    by (simp add: mp_ops_def read_mp_uint_def mp_result_def read_tail_def read_be_def)
  show ?thesis
    using msgpack_inverted_payload [OF mp.rmp_axioms arr ty i, of True "[]"]
    by (simp add: marker_null_def)
qed

end
