(* ===== verification/Channel.thy ===== *)
theory Channel
  imports Prelude
begin

text \<open>
  The interface of the multi-producer channel between the sender handles and the writer
  task. The channel is the crate \<open>async-channel\<close>, whose source is not part of this
  repository: its operations are a parameter of every definition that uses them, and what
  the code relies on is the locale \<open>mpsc_channel\<close>, over the messages in flight (\<open>queue\<close>),
  the closed flag and the capacity. The locale is interpreted on a bounded first-in
  first-out queue at the end.
\<close>

subsection \<open>Operations\<close>

datatype 'm try_send_error = Full 'm | Closed 'm

text \<open>
  \<open>ch_send\<close> is one poll of the future \<open>Sender::send\<close>: \<open>Pending\<close> while there is no room. \<open>ch_recv\<close>
  is one poll of \<open>Receiver::recv\<close>: \<open>Inl ()\<close> is its error, the channel being closed and empty.
\<close>

record ('q, 'm) chan_ops =
  ch_try_send :: "'q \<Rightarrow> 'm \<Rightarrow> 'q \<times> ('m try_send_error + unit)"
  ch_send :: "'q \<Rightarrow> 'm \<Rightarrow> ('q \<times> (unit + unit)) poll"
  ch_recv :: "'q \<Rightarrow> ('q \<times> (unit + 'm)) poll"
  ch_close :: "'q \<Rightarrow> 'q"

definition has_room :: "nat option \<Rightarrow> 'm list \<Rightarrow> bool" where
  "has_room cap ms = (case cap of None \<Rightarrow> True | Some n \<Rightarrow> length ms < n)"

subsection \<open>The contract\<close>

locale mpsc_channel =
  fixes ops :: "('q, 'm) chan_ops"
    and queue :: "'q \<Rightarrow> 'm list"
    and closed :: "'q \<Rightarrow> bool"
    and capacity :: "'q \<Rightarrow> nat option"
  assumes try_send_closed: "closed q \<Longrightarrow> ch_try_send ops q m = (q, Inl (Closed m))"
    and try_send_full:
      "\<not> closed q \<Longrightarrow> \<not> has_room (capacity q) (queue q) \<Longrightarrow> ch_try_send ops q m = (q, Inl (Full m))"
    and try_send_ok: "\<not> closed q \<Longrightarrow> has_room (capacity q) (queue q) \<Longrightarrow>
      \<exists>q'. ch_try_send ops q m = (q', Inr ()) \<and> queue q' = queue q @ [m] \<and> \<not> closed q' \<and>
           capacity q' = capacity q"
    and send_closed: "closed q \<Longrightarrow> ch_send ops q m = Ready_now (q, Inl ())"
    and send_full: "\<not> closed q \<Longrightarrow> \<not> has_room (capacity q) (queue q) \<Longrightarrow> ch_send ops q m = Pending"
    and send_ok: "\<not> closed q \<Longrightarrow> has_room (capacity q) (queue q) \<Longrightarrow>
      \<exists>q'. ch_send ops q m = Ready_now (q', Inr ()) \<and> queue q' = queue q @ [m] \<and> \<not> closed q' \<and>
           capacity q' = capacity q"
    and recv_msg: "queue q = m # ms \<Longrightarrow>
      \<exists>q'. ch_recv ops q = Ready_now (q', Inr m) \<and> queue q' = ms \<and> closed q' = closed q \<and>
           capacity q' = capacity q"
    and recv_closed: "queue q = [] \<Longrightarrow> closed q \<Longrightarrow> ch_recv ops q = Ready_now (q, Inl ())"
    and recv_empty: "queue q = [] \<Longrightarrow> \<not> closed q \<Longrightarrow> ch_recv ops q = Pending"
    and close: "closed (ch_close ops q)" "queue (ch_close ops q) = queue q"
      "capacity (ch_close ops q) = capacity q"
begin

lemma try_send_cases:
  obtains (closed) "closed q" "ch_try_send ops q m = (q, Inl (Closed m))"
  | (full) "\<not> closed q" "ch_try_send ops q m = (q, Inl (Full m))"
  | (sent) q' where "\<not> closed q" "ch_try_send ops q m = (q', Inr ())" "queue q' = queue q @ [m]"
      "\<not> closed q'"
  by (cases "closed q"; cases "has_room (capacity q) (queue q)")
    (use try_send_closed try_send_full try_send_ok in blast)+

lemma try_send_queue:
  "ch_try_send ops q m = (q', r) \<Longrightarrow>
     (case r of Inr _ \<Rightarrow> queue q' = queue q @ [m] \<and> \<not> closed q | Inl _ \<Rightarrow> q' = q)"
  by (cases rule: try_send_cases [of q m]) auto

lemma send_queue:
  "ch_send ops q m = Ready_now (q', r) \<Longrightarrow>
     (case r of Inr _ \<Rightarrow> queue q' = queue q @ [m] \<and> \<not> closed q | Inl _ \<Rightarrow> q' = q \<and> closed q)"
  by (cases "closed q"; cases "has_room (capacity q) (queue q)")
    (use send_closed [of q m] send_full [of q m] send_ok [of q m] in auto)

lemma recv_cases:
  obtains (msg) m ms q' where "queue q = m # ms" "ch_recv ops q = Ready_now (q', Inr m)"
      "queue q' = ms" "closed q' = closed q"
  | (ended) "queue q = []" "closed q" "ch_recv ops q = Ready_now (q, Inl ())"
  | (waiting) "queue q = []" "\<not> closed q" "ch_recv ops q = Pending"
  by (cases "queue q") (use recv_msg recv_closed recv_empty in blast)+

lemma recv_shrinks: "ch_recv ops q = Ready_now (q', Inr m) \<Longrightarrow> queue q = m # queue q'"
  by (cases rule: recv_cases [of q]) auto

end

subsection \<open>A bounded first-in first-out queue\<close>

record 'm fifo =
  fifo_items :: "'m list"
  fifo_closed :: bool
  fifo_cap :: "nat option"

definition fifo_new :: "nat option \<Rightarrow> 'm fifo" where
  "fifo_new cap = \<lparr>fifo_items = [], fifo_closed = False, fifo_cap = cap\<rparr>"

definition fifo_ops :: "('m fifo, 'm) chan_ops" where
  "fifo_ops =
     \<lparr>ch_try_send = (\<lambda>q m. if fifo_closed q then (q, Inl (Closed m))
        else if has_room (fifo_cap q) (fifo_items q)
          then (q\<lparr>fifo_items := fifo_items q @ [m]\<rparr>, Inr ()) else (q, Inl (Full m))),
      ch_send = (\<lambda>q m. if fifo_closed q then Ready_now (q, Inl ())
        else if has_room (fifo_cap q) (fifo_items q)
          then Ready_now (q\<lparr>fifo_items := fifo_items q @ [m]\<rparr>, Inr ()) else Pending),
      ch_recv = (\<lambda>q. case fifo_items q of
          m # ms \<Rightarrow> Ready_now (q\<lparr>fifo_items := ms\<rparr>, Inr m)
        | [] \<Rightarrow> if fifo_closed q then Ready_now (q, Inl ()) else Pending),
      ch_close = (\<lambda>q. q\<lparr>fifo_closed := True\<rparr>)\<rparr>"

interpretation fifo: mpsc_channel fifo_ops fifo_items fifo_closed fifo_cap
  by unfold_locales (auto simp: fifo_ops_def)

end
