(* ===== verification/Req_Rep.thy ===== *)
theory Req_Rep
  imports Codec_Types
begin

text \<open>
  \<open>src/rpc/req_rep.rs\<close> and the response errors of \<open>src/rpc/error.rs\<close>: the table of
  pending requests (\<open>RequestContext\<close>), the wait objects shared between the table and the
  awaiting futures, and the future \<open>ReceiveResponse\<close>.

  An \<open>Arc<Waiter>\<close> is an index into the store \<open>waiters\<close>: the table, a \<open>Receive\<close> and a
  response in delivery can hold the same reference, which is the aliasing the code relies
  on. The \<open>Mutex\<close> around the table and the one in each waiter make the operations below
  atomic; \<open>set_response\<close> and \<open>set_request_write_failed\<close> release the table's lock before they
  touch the waiter, so their phases are definitions of their own and the session of
  \<open>Response_Future\<close> interleaves them.
  \<open>AtomicWaker\<close> is a cell for the last registered task: \<open>take\<close> empties it, \<open>wake\<close> takes it
  and schedules the task, which the model records in \<open>woken\<close>.
\<close>

subsection \<open>Responses and their errors\<close>

record 'c response_msg =
  resp_codec :: 'c
  resp_raw :: bytes
  resp_payload :: range_type

record 'c error_response =
  er_errc :: response_error
  er_codec :: 'c
  er_raw :: bytes
  er_payload :: range_type

datatype 'c response_receive_error =
  RecvClosed | RecvEmpty | RecvRetrieved | RecvResponse "'c error_response"

fun into_response :: "'c response_receive_error \<Rightarrow> 'c error_response option" where
  "into_response (RecvResponse e) = Some e"
| "into_response _ = None"

text \<open>\<open>codec_payload_pair\<close> of both message types indexes the raw frame by the range.\<close>

definition response_payload_bytes :: "'c response_msg \<Rightarrow> bytes outcome" where
  "response_payload_bytes r = index_by (resp_raw r) (resp_payload r)"

definition error_payload_bytes :: "'c error_response \<Rightarrow> bytes outcome" where
  "error_payload_bytes r = index_by (er_raw r) (er_payload r)"

definition make_response ::
  "'c \<Rightarrow> bytes \<Rightarrow> range_type \<Rightarrow> response_error option \<Rightarrow> 'c error_response + 'c response_msg" where
  "make_response codec raw payload errc =
     (case errc of
        Some e \<Rightarrow> Inl \<lparr>er_errc = e, er_codec = codec, er_raw = raw, er_payload = payload\<rparr>
      | None \<Rightarrow> Inr \<lparr>resp_codec = codec, resp_raw = raw, resp_payload = payload\<rparr>)"

subsection \<open>The request context\<close>

type_synonym task = nat
type_synonym wref = nat

datatype response_state =
  StNone
| StReady bytes "response_error option" range_type
| StWriteFailed
| StPendingRemove

record waiter =
  waker :: "task option"
  response :: response_state

record request_context =
  wait_list :: "(request_id \<times> wref) list"
  expired :: bool
  waiters :: "waiter list"
  woken :: "task list"

datatype receive = Receive (rcv_id: request_id) (rcv_obj: wref)

definition waiter_default :: waiter where
  "waiter_default = \<lparr>waker = None, response = StNone\<rparr>"

definition request_context_new :: request_context where
  "request_context_new = \<lparr>wait_list = [], expired = False, waiters = [], woken = []\<rparr>"

definition update_waiter :: "wref \<Rightarrow> (waiter \<Rightarrow> waiter) \<Rightarrow> request_context \<Rightarrow> request_context" where
  "update_waiter r f ctx = ctx\<lparr>waiters := (waiters ctx)[r := f (waiters ctx ! r)]\<rparr>"

text \<open>The three operations of \<open>AtomicWaker\<close> the code uses.\<close>

definition waker_register :: "wref \<Rightarrow> task \<Rightarrow> request_context \<Rightarrow> request_context" where
  "waker_register r t ctx = update_waiter r (\<lambda>w. w\<lparr>waker := Some t\<rparr>) ctx"

definition waker_take :: "wref \<Rightarrow> request_context \<Rightarrow> request_context" where
  "waker_take r ctx = update_waiter r (\<lambda>w. w\<lparr>waker := None\<rparr>) ctx"

definition waker_wake :: "wref \<Rightarrow> request_context \<Rightarrow> request_context" where
  "waker_wake r ctx =
     (case waker (waiters ctx ! r) of
        None \<Rightarrow> ctx
      | Some t \<Rightarrow> (waker_take r ctx)\<lparr>woken := woken ctx @ [t]\<rparr>)"

definition try_allocate_new_request ::
  "request_context \<Rightarrow> request_id \<Rightarrow> request_context \<times> receive option" where
  "try_allocate_new_request ctx i =
     (let wait_obj = length (waiters ctx);
          ctx' = ctx\<lparr>waiters := waiters ctx @ [waiter_default]\<rparr>
      in if expired ctx' then (ctx', None)
         else if map_of (wait_list ctx') i = None
           then (ctx'\<lparr>wait_list := (i, wait_obj) # wait_list ctx'\<rparr>, Some (Receive i wait_obj))
           else (ctx', None))"

definition free_request_id :: "request_context \<Rightarrow> request_id \<Rightarrow> request_context outcome" where
  "free_request_id ctx i =
     obind (rust_assert (map_of (wait_list ctx) i \<noteq> None))
       (\<lambda>_. Done (ctx\<lparr>wait_list := alist_remove i (wait_list ctx)\<rparr>))"

text \<open>\<open>set_response\<close>: look the waiter up under the table's lock, then, with the lock released,
  check for expiry, store the response in the waiter and wake its task.\<close>

definition set_response_lookup :: "request_context \<Rightarrow> request_id \<Rightarrow> wref option" where
  "set_response_lookup ctx i = map_of (wait_list ctx) i"

fun accepts_response :: "response_state \<Rightarrow> bool" where
  "accepts_response StNone = True"
| "accepts_response (StReady _ _ _) = True"
| "accepts_response StWriteFailed = False"
| "accepts_response StPendingRemove = False"

definition set_response_store ::
  "request_context \<Rightarrow> wref \<Rightarrow> bytes \<Rightarrow> range_type \<Rightarrow> response_error option \<Rightarrow> request_context" where
  "set_response_store ctx r raw payload errc =
     update_waiter r (\<lambda>w. if accepts_response (response w)
       then w\<lparr>response := StReady raw errc payload\<rparr> else w) ctx"

definition set_response_commit ::
  "request_context \<Rightarrow> wref \<Rightarrow> bytes \<Rightarrow> range_type \<Rightarrow> response_error option
   \<Rightarrow> request_context \<times> (bytes + unit)" where
  "set_response_commit ctx r raw payload errc =
     (if expired ctx then (ctx, Inl raw)
      else (waker_wake r (set_response_store ctx r raw payload errc), Inr ()))"

definition set_response ::
  "request_context \<Rightarrow> request_id \<Rightarrow> bytes \<Rightarrow> range_type \<Rightarrow> response_error option
   \<Rightarrow> request_context \<times> (bytes + unit)" where
  "set_response ctx i raw payload errc =
     (case set_response_lookup ctx i of
        None \<Rightarrow> (ctx, Inl raw)
      | Some r \<Rightarrow> set_response_commit ctx r raw payload errc)"

text \<open>\<open>mark_expired\<close> holds the table's lock throughout; only the first call wakes the tasks.\<close>

definition mark_expired :: "request_context \<Rightarrow> request_context" where
  "mark_expired ctx =
     (if expired ctx then ctx
      else fold (\<lambda>(_, r). waker_wake r) (wait_list ctx) (ctx\<lparr>expired := True\<rparr>))"

definition write_failed_store :: "request_context \<Rightarrow> wref \<Rightarrow> request_context" where
  "write_failed_store ctx r = update_waiter r (\<lambda>w. w\<lparr>response := StWriteFailed\<rparr>) ctx"

definition set_request_write_failed :: "request_context \<Rightarrow> request_id \<Rightarrow> request_context" where
  "set_request_write_failed ctx i =
     (case map_of (wait_list ctx) i of
        None \<Rightarrow> ctx
      | Some r \<Rightarrow> waker_wake r (write_failed_store ctx r))"

text \<open>The debug-build drop guard of the context asserts that no request is left.\<close>

definition request_context_drop :: "request_context \<Rightarrow> unit outcome" where
  "request_context_drop ctx = rust_assert (wait_list ctx = [])"

subsection \<open>What the operations leave unchanged\<close>

lemma update_waiter_frame [simp, frame_simps]:
  "wait_list (update_waiter r f c) = wait_list c"
  "expired (update_waiter r f c) = expired c"
  "woken (update_waiter r f c) = woken c"
  "length (waiters (update_waiter r f c)) = length (waiters c)"
  by (simp_all add: update_waiter_def)

lemma waiters_update_waiter:
  "r < length (waiters c) \<Longrightarrow>
     waiters (update_waiter r f c) ! q = (if q = r then f (waiters c ! r) else waiters c ! q)"
  by (simp add: update_waiter_def)

lemma waiters_update_waiter_other [simp]:
  "q \<noteq> r \<Longrightarrow> waiters (update_waiter r f c) ! q = waiters c ! q"
  by (simp add: update_waiter_def)

lemma waker_ops_frame [simp, frame_simps]:
  "wait_list (waker_register r t c) = wait_list c"
  "wait_list (waker_take r c) = wait_list c"
  "wait_list (waker_wake r c) = wait_list c"
  "expired (waker_register r t c) = expired c"
  "expired (waker_take r c) = expired c"
  "expired (waker_wake r c) = expired c"
  "length (waiters (waker_register r t c)) = length (waiters c)"
  "length (waiters (waker_take r c)) = length (waiters c)"
  "length (waiters (waker_wake r c)) = length (waiters c)"
  by (simp_all add: waker_register_def waker_take_def waker_wake_def split: option.splits)

lemma update_waiter_keeps_response:
  "(\<And>w. response (f w) = response w) \<Longrightarrow>
     response (waiters (update_waiter r f c) ! q) = response (waiters c ! q)"
  by (cases "r < length (waiters c)"; cases "q = r")
    (auto simp: update_waiter_def list_update_beyond)

lemma waker_ops_response [simp, frame_simps]:
  "response (waiters (waker_register r t c) ! q) = response (waiters c ! q)"
  "response (waiters (waker_take r c) ! q) = response (waiters c ! q)"
  "response (waiters (waker_wake r c) ! q) = response (waiters c ! q)"
  by (simp_all add: waker_register_def waker_take_def waker_wake_def
        update_waiter_keeps_response split: option.splits)

lemma set_response_store_frame [simp, frame_simps]:
  "wait_list (set_response_store c r raw p e) = wait_list c"
  "expired (set_response_store c r raw p e) = expired c"
  "woken (set_response_store c r raw p e) = woken c"
  "length (waiters (set_response_store c r raw p e)) = length (waiters c)"
  by (simp_all add: set_response_store_def)

lemma write_failed_store_frame [simp, frame_simps]:
  "wait_list (write_failed_store c r) = wait_list c"
  "expired (write_failed_store c r) = expired c"
  "woken (write_failed_store c r) = woken c"
  "length (waiters (write_failed_store c r)) = length (waiters c)"
  by (simp_all add: write_failed_store_def)

lemma set_response_frame [simp, frame_simps]:
  "wait_list (fst (set_response c i raw p e)) = wait_list c"
  "expired (fst (set_response c i raw p e)) = expired c"
  "length (waiters (fst (set_response c i raw p e))) = length (waiters c)"
  by (simp_all add: set_response_def set_response_commit_def split: option.splits)

lemma set_request_write_failed_frame [simp, frame_simps]:
  "wait_list (set_request_write_failed c i) = wait_list c"
  "expired (set_request_write_failed c i) = expired c"
  "length (waiters (set_request_write_failed c i)) = length (waiters c)"
  by (simp_all add: set_request_write_failed_def split: option.splits)

text \<open>The loop of \<open>mark_expired\<close> over the table.\<close>

lemma fold_wake_frame [simp]:
  "wait_list (fold (\<lambda>(_, r). waker_wake r) xs c) = wait_list c"
  "expired (fold (\<lambda>(_, r). waker_wake r) xs c) = expired c"
  "length (waiters (fold (\<lambda>(_, r). waker_wake r) xs c)) = length (waiters c)"
  "response (waiters (fold (\<lambda>(_, r). waker_wake r) xs c) ! q) = response (waiters c ! q)"
  by (induction xs arbitrary: c) auto

lemma mark_expired_frame [simp, frame_simps]:
  "wait_list (mark_expired c) = wait_list c"
  "expired (mark_expired c)"
  "length (waiters (mark_expired c)) = length (waiters c)"
  "response (waiters (mark_expired c) ! q) = response (waiters c ! q)"
  by (simp_all add: mark_expired_def)

lemma mark_expired_idem [simp]: "mark_expired (mark_expired c) = mark_expired c"
  by (simp add: mark_expired_def [of "mark_expired c"])

text \<open>Waking empties the cell and schedules the task it held; other cells keep theirs.\<close>

lemma waker_wake_cell:
  "r < length (waiters c) \<Longrightarrow> waker (waiters (waker_wake r c) ! r) = None"
  by (simp add: waker_wake_def waker_take_def waiters_update_waiter split: option.splits)

lemma waker_wake_other_cell:
  "q \<noteq> r \<Longrightarrow> waker (waiters (waker_wake r c) ! q) = waker (waiters c ! q)"
  by (simp add: waker_wake_def waker_take_def split: option.splits)

lemma woken_waker_wake:
  "woken (waker_wake r c) =
     woken c @ (case waker (waiters c ! r) of None \<Rightarrow> [] | Some t \<Rightarrow> [t])"
  by (simp add: waker_wake_def split: option.splits)

lemma woken_waker_wake_mono: "set (woken c) \<subseteq> set (woken (waker_wake r c))"
  by (auto simp: woken_waker_wake)

lemma fold_wake_mono: "set (woken c) \<subseteq> set (woken (fold (\<lambda>(_, r). waker_wake r) xs c))"
proof (induction xs arbitrary: c)
  case Nil
  then show ?case by simp
next
  case (Cons x xs)
  then show ?case
    using woken_waker_wake_mono [of c "snd x"] by (cases x) fastforce
qed

lemma fold_wake_wakes:
  "(i, r) \<in> set xs \<Longrightarrow> waker (waiters c ! r) = Some t \<Longrightarrow>
     t \<in> set (woken (fold (\<lambda>(_, r). waker_wake r) xs c))"
proof (induction xs arbitrary: c)
  case Nil
  then show ?case by simp
next
  case (Cons x xs)
  obtain j q where x: "x = (j, q)" by (cases x)
  show ?case
  proof (cases "q = r")
    case True
    then have "t \<in> set (woken (waker_wake q c))"
      using Cons.prems(2) by (simp add: woken_waker_wake)
    then show ?thesis using x fold_wake_mono by fastforce
  next
    case False
    then show ?thesis
      using Cons.prems x Cons.IH [of "waker_wake q c"] by (auto simp: waker_wake_other_cell)
  qed
qed

lemma mark_expired_wakes:
  "\<not> expired c \<Longrightarrow> (i, r) \<in> set (wait_list c) \<Longrightarrow> waker (waiters c ! r) = Some t \<Longrightarrow>
     t \<in> set (woken (mark_expired c))"
  by (simp add: mark_expired_def fold_wake_wakes)

subsection \<open>What the operations do\<close>

lemma try_allocate_Some:
  assumes "try_allocate_new_request c i = (c', Some h)"
  shows "h = Receive i (length (waiters c))" "\<not> expired c" "map_of (wait_list c) i = None"
    and "c' = c\<lparr>waiters := waiters c @ [waiter_default],
               wait_list := (i, length (waiters c)) # wait_list c\<rparr>"
  using assms by (auto simp: try_allocate_new_request_def Let_def split: if_splits)

lemma try_allocate_None:
  assumes "try_allocate_new_request c i = (c', None)"
  shows "c' = c\<lparr>waiters := waiters c @ [waiter_default]\<rparr>"
    and "expired c \<or> i \<in> fst ` set (wait_list c)"
  using assms by (auto simp: try_allocate_new_request_def Let_def map_of_eq_None_iff split: if_splits)

lemma free_request_id_Done:
  "(i, r) \<in> set (wait_list c) \<Longrightarrow>
     free_request_id c i = Done (c\<lparr>wait_list := alist_remove i (wait_list c)\<rparr>)"
  by (force simp: free_request_id_def map_of_eq_None_iff rust_assert_def)

lemma response_set_response_store:
  "r < length (waiters c) \<Longrightarrow>
     response (waiters (set_response_store c r raw p e) ! q) =
       (if q = r \<and> accepts_response (response (waiters c ! r)) then StReady raw e p
        else response (waiters c ! q))"
  by (simp add: set_response_store_def waiters_update_waiter)

lemma response_write_failed_store:
  "r < length (waiters c) \<Longrightarrow>
     response (waiters (write_failed_store c r) ! q) =
       (if q = r then StWriteFailed else response (waiters c ! q))"
  by (simp add: write_failed_store_def waiters_update_waiter)

end
