(* ===== verification/Response_Future.thy ===== *)
theory Response_Future
  imports Req_Rep "HOL-Library.Multiset"
begin

text \<open>
  The future \<open>ReceiveResponse\<close> of \<open>src/rpc/req_rep.rs\<close>: polling, \<open>try_recv\<close>, its drop guard,
  and what each of them does to the request context of its owner. The owner itself is the
  context argument; the state of the future is the \<open>Receive\<close> it may still hold.
\<close>

record receive_response =
  rr_state :: "receive option"

definition receive_response_new :: "receive \<Rightarrow> receive_response" where
  "receive_response_new h = \<lparr>rr_state = Some h\<rparr>"

lemma receive_response_new_simps [simp]:
  "receive_response_new h = receive_response_new h' \<longleftrightarrow> h = h'"
  "rr_state (receive_response_new h) = Some h"
  by (simp_all add: receive_response_new_def)

text \<open>\<open>Receive::poll\<close> on the shared wait object.\<close>

definition receive_poll ::
  "request_context \<Rightarrow> receive
   \<Rightarrow> (request_context \<times> (bytes \<times> response_error option \<times> range_type) option poll) outcome" where
  "receive_poll ctx h =
     (case response (waiters ctx ! rcv_obj h) of
        StNone \<Rightarrow> Done (ctx, Pending)
      | StReady raw errc payload \<Rightarrow>
          Done (update_waiter (rcv_obj h) (\<lambda>w. w\<lparr>response := StPendingRemove\<rparr>) ctx,
                Ready_now (Some (raw, errc, payload)))
      | StWriteFailed \<Rightarrow> Done (ctx, Ready_now None)
      | StPendingRemove \<Rightarrow> Panic)"

definition try_unregister ::
  "request_context \<Rightarrow> receive_response \<Rightarrow> (request_context \<times> receive_response) outcome" where
  "try_unregister ctx rr =
     (case rr_state rr of
        None \<Rightarrow> Done (ctx, rr)
      | Some h \<Rightarrow>
          obind (free_request_id (waker_take (rcv_obj h) ctx) (rcv_id h))
            (\<lambda>ctx'. Done (ctx', rr\<lparr>rr_state := None\<rparr>)))"

text \<open>
  \<open>Future::poll\<close>: register the waker first, then look for the response, then for expiry. The
  source holds the lock of the wait object, reads the flag, and takes the lock of the table one
  after the other; here they are one step.
\<close>

definition rr_poll ::
  "'c \<Rightarrow> task \<Rightarrow> request_context \<Rightarrow> receive_response
   \<Rightarrow> (request_context \<times> receive_response
       \<times> ('c response_receive_error + 'c response_msg) poll) outcome" where
  "rr_poll codec t ctx rr =
     (case rr_state rr of
        None \<Rightarrow> Done (ctx, rr, Ready_now (Inl RecvEmpty))
      | Some h \<Rightarrow>
          obind (receive_poll (waker_register (rcv_obj h) t ctx) h) (\<lambda>(ctx1, polled).
            case polled of
              Pending \<Rightarrow>
                (if expired ctx1 then
                   obind (try_unregister ctx1 rr) (\<lambda>(ctx2, rr').
                     Done (ctx2, rr', Ready_now (Inl RecvClosed)))
                 else Done (ctx1, rr, Pending))
            | Ready_now (Some (raw, errc, payload)) \<Rightarrow>
                obind (try_unregister ctx1 rr) (\<lambda>(ctx2, rr').
                  Done (ctx2, rr',
                        Ready_now (map_err RecvResponse (make_response codec raw payload errc))))
            | Ready_now None \<Rightarrow>
                obind (try_unregister ctx1 rr) (\<lambda>(ctx2, rr').
                  Done (ctx2, rr', Ready_now (Inl RecvClosed)))))"

definition rr_try_recv ::
  "'c \<Rightarrow> request_context \<Rightarrow> receive_response
   \<Rightarrow> (request_context \<times> receive_response
       \<times> ('c response_receive_error + 'c response_msg)) outcome" where
  "rr_try_recv codec ctx rr =
     (case rr_state rr of
        None \<Rightarrow> Done (ctx, rr, Inl RecvRetrieved)
      | Some h \<Rightarrow>
          obind (receive_poll ctx h) (\<lambda>(ctx1, polled).
            case polled of
              Pending \<Rightarrow>
                (if expired ctx1 then Done (ctx1, rr, Inl RecvClosed)
                 else Done (ctx1, rr, Inl RecvEmpty))
            | Ready_now (Some (raw, errc, payload)) \<Rightarrow>
                obind (try_unregister ctx1 rr) (\<lambda>(ctx2, rr').
                  Done (ctx2, rr', map_err RecvResponse (make_response codec raw payload errc)))
            | Ready_now None \<Rightarrow>
                obind (try_unregister ctx1 rr) (\<lambda>(ctx2, rr').
                  Done (ctx2, rr', Inl RecvClosed))))"

definition rr_request_id :: "receive_response \<Rightarrow> request_id outcome" where
  "rr_request_id rr = obind (unwrap (rr_state rr)) (\<lambda>h. Done (rcv_id h))"

definition rr_is_terminated :: "receive_response \<Rightarrow> bool" where
  "rr_is_terminated rr \<longleftrightarrow> rr_state rr = None"

text \<open>\<open>into_owned\<close> moves the state into a new future and drops the emptied one.\<close>

definition rr_drop :: "request_context \<Rightarrow> receive_response \<Rightarrow> request_context outcome" where
  "rr_drop ctx rr = obind (try_unregister ctx rr) (\<lambda>(ctx', _). Done ctx')"

definition rr_into_owned ::
  "request_context \<Rightarrow> receive_response \<Rightarrow> (request_context \<times> receive_response) outcome" where
  "rr_into_owned ctx rr =
     obind (rr_drop ctx (rr\<lparr>rr_state := None\<rparr>)) (\<lambda>ctx'. Done (ctx', \<lparr>rr_state = rr_state rr\<rparr>))"

subsection \<open>A session: the context, its futures, and the two background tasks\<close>

text \<open>
  The futures of one connection in the order they were created, and what the receiver task
  and the writer task are in the middle of: \<open>set_response\<close> looks a waiter up, checks for
  expiry, stores the response and wakes the task in four separate critical sections, and
  \<open>set_request_write_failed\<close> in three. Each of them is one event, so every interleaving of
  the user's tasks with the two background tasks is a list of events.
\<close>

datatype rx_phase =
  RxIdle
| RxFound wref bytes range_type "response_error option"
| RxFresh wref bytes range_type "response_error option"
| RxStored wref

datatype wr_phase = WrIdle | WrFound wref | WrStored wref

record session =
  ctx :: request_context
  futures :: "receive_response list"
  rx_task :: rx_phase
  wr_task :: wr_phase

datatype event =
  EvAllocate request_id
| EvPoll nat task
| EvTryRecv nat
| EvDrop nat
| EvRxLookup request_id bytes range_type "response_error option"
| EvRxCheck
| EvRxStore
| EvRxWake
| EvWrLookup request_id
| EvWrStore
| EvWrWake
| EvExpire

definition session_init :: session where
  "session_init = \<lparr>ctx = request_context_new, futures = [], rx_task = RxIdle, wr_task = WrIdle\<rparr>"

fun remove_nth :: "nat \<Rightarrow> 'a list \<Rightarrow> 'a list" where
  "remove_nth n [] = []"
| "remove_nth 0 (x # xs) = xs"
| "remove_nth (Suc n) (x # xs) = x # remove_nth n xs"

text \<open>An event whose index names no future, or that does not fit the phase, does nothing.\<close>

fun session_step :: "session \<Rightarrow> event \<Rightarrow> session outcome" where
  "session_step s (EvAllocate i) =
     (case try_allocate_new_request (ctx s) i of
        (c, None) \<Rightarrow> Done (s\<lparr>ctx := c\<rparr>)
      | (c, Some h) \<Rightarrow> Done (s\<lparr>ctx := c, futures := futures s @ [receive_response_new h]\<rparr>))"
| "session_step s (EvPoll n t) =
     (if n < length (futures s) then
        obind (rr_poll () t (ctx s) (futures s ! n))
          (\<lambda>(c, rr, _). Done (s\<lparr>ctx := c, futures := (futures s)[n := rr]\<rparr>))
      else Done s)"
| "session_step s (EvTryRecv n) =
     (if n < length (futures s) then
        obind (rr_try_recv () (ctx s) (futures s ! n))
          (\<lambda>(c, rr, _). Done (s\<lparr>ctx := c, futures := (futures s)[n := rr]\<rparr>))
      else Done s)"
| "session_step s (EvDrop n) =
     (if n < length (futures s) then
        obind (rr_drop (ctx s) (futures s ! n))
          (\<lambda>c. Done (s\<lparr>ctx := c, futures := remove_nth n (futures s)\<rparr>))
      else Done s)"
| "session_step s (EvRxLookup i raw payload errc) =
     (case (rx_task s, set_response_lookup (ctx s) i) of
        (RxIdle, Some r) \<Rightarrow> Done (s\<lparr>rx_task := RxFound r raw payload errc\<rparr>)
      | _ \<Rightarrow> Done s)"
| "session_step s EvRxCheck =
     (case rx_task s of
        RxFound r raw payload errc \<Rightarrow>
          Done (s\<lparr>rx_task := if expired (ctx s) then RxIdle else RxFresh r raw payload errc\<rparr>)
      | _ \<Rightarrow> Done s)"
| "session_step s EvRxStore =
     (case rx_task s of
        RxFresh r raw payload errc \<Rightarrow>
          Done (s\<lparr>ctx := set_response_store (ctx s) r raw payload errc, rx_task := RxStored r\<rparr>)
      | _ \<Rightarrow> Done s)"
| "session_step s EvRxWake =
     (case rx_task s of
        RxStored r \<Rightarrow> Done (s\<lparr>ctx := waker_wake r (ctx s), rx_task := RxIdle\<rparr>)
      | _ \<Rightarrow> Done s)"
| "session_step s (EvWrLookup i) =
     (case (wr_task s, map_of (wait_list (ctx s)) i) of
        (WrIdle, Some r) \<Rightarrow> Done (s\<lparr>wr_task := WrFound r\<rparr>)
      | _ \<Rightarrow> Done s)"
| "session_step s EvWrStore =
     (case wr_task s of
        WrFound r \<Rightarrow> Done (s\<lparr>ctx := write_failed_store (ctx s) r, wr_task := WrStored r\<rparr>)
      | _ \<Rightarrow> Done s)"
| "session_step s EvWrWake =
     (case wr_task s of
        WrStored r \<Rightarrow> Done (s\<lparr>ctx := waker_wake r (ctx s), wr_task := WrIdle\<rparr>)
      | _ \<Rightarrow> Done s)"
| "session_step s EvExpire = Done (s\<lparr>ctx := mark_expired (ctx s)\<rparr>)"

fun session_run :: "session \<Rightarrow> event list \<Rightarrow> session outcome" where
  "session_run s [] = Done s"
| "session_run s (e # es) = obind (session_step s e) (\<lambda>s'. session_run s' es)"

inductive session_reachable :: "session \<Rightarrow> bool" where
  reach_init: "session_reachable session_init"
| reach_step: "session_reachable s \<Longrightarrow> session_step s e = Done s' \<Longrightarrow> session_reachable s'"

subsection \<open>The invariant of the table\<close>

text \<open>
  The table holds exactly one entry for each future that still waits, under distinct
  identifiers and distinct wait objects; no registered wait object is in the state
  \<open>StPendingRemove\<close>.
\<close>

definition live :: "receive_response list \<Rightarrow> (request_id \<times> wref) list" where
  "live fs = concat (map (\<lambda>f. case rr_state f of None \<Rightarrow> [] | Some h \<Rightarrow> [(rcv_id h, rcv_obj h)]) fs)"

definition table_ok :: "request_context \<Rightarrow> bool" where
  "table_ok c \<longleftrightarrow>
     distinct (map fst (wait_list c)) \<and> distinct (map snd (wait_list c)) \<and>
     (\<forall>r \<in> snd ` set (wait_list c).
        r < length (waiters c) \<and> response (waiters c ! r) \<noteq> StPendingRemove)"

fun rx_ref :: "rx_phase \<Rightarrow> wref list" where
  "rx_ref RxIdle = []"
| "rx_ref (RxFound r _ _ _) = [r]"
| "rx_ref (RxFresh r _ _ _) = [r]"
| "rx_ref (RxStored r) = [r]"

fun wr_ref :: "wr_phase \<Rightarrow> wref list" where
  "wr_ref WrIdle = []"
| "wr_ref (WrFound r) = [r]"
| "wr_ref (WrStored r) = [r]"

definition session_inv :: "session \<Rightarrow> bool" where
  "session_inv s \<longleftrightarrow>
     mset (live (futures s)) = mset (wait_list (ctx s)) \<and> table_ok (ctx s) \<and>
     (\<forall>r \<in> set (rx_ref (rx_task s)) \<union> set (wr_ref (wr_task s)). r < length (waiters (ctx s)))"

lemma live_simps [simp]:
  "live [] = []"
  "live (f # fs) = (case rr_state f of None \<Rightarrow> [] | Some h \<Rightarrow> [(rcv_id h, rcv_obj h)]) @ live fs"
  "live (fs @ gs) = live fs @ live gs"
  by (simp_all add: live_def)

lemma live_member:
  "f \<in> set fs \<Longrightarrow> rr_state f = Some h \<Longrightarrow> (rcv_id h, rcv_obj h) \<in> set (live fs)"
  by (induction fs) auto

text \<open>Replacing the future at a position replaces its contribution.\<close>

lemma mset_live_update:
  "n < length fs \<Longrightarrow>
     mset (live (fs[n := f])) + mset (live [fs ! n]) = mset (live fs) + mset (live [f])"
proof (induction fs arbitrary: n)
  case Nil
  then show ?case by simp
next
  case (Cons g fs)
  then show ?case by (cases n) (auto simp: ac_simps)
qed

lemma mset_live_remove_nth:
  "n < length fs \<Longrightarrow> mset (live (remove_nth n fs)) + mset (live [fs ! n]) = mset (live fs)"
proof (induction n fs rule: remove_nth.induct)
  case (3 n x xs)
  then show ?case by (simp add: ac_simps)
qed simp_all

lemma mset_alist_remove:
  assumes "distinct (map fst m)" and "(k, v) \<in> set m"
  shows "mset (alist_remove k m) + {#(k, v)#} = mset m"
  using assms
proof (induction m)
  case Nil
  then show ?case by simp
next
  case (Cons a m)
  obtain k' v' where a: "a = (k', v')" by (cases a)
  show ?case
  proof (cases "k' = k")
    case True
    then have "v' = v" and "k \<notin> fst ` set m" using Cons.prems a by force+
    moreover have "alist_remove k m = m"
      using \<open>k \<notin> fst ` set m\<close> by (force simp: alist_remove_def filter_id_conv)
    ultimately show ?thesis using a True by (simp add: alist_remove_def)
  next
    case False
    then show ?thesis using Cons a by (auto simp: alist_remove_def)
  qed
qed

lemma table_ok_member:
  "table_ok c \<Longrightarrow> (i, r) \<in> set (wait_list c) \<Longrightarrow>
     r < length (waiters c) \<and> response (waiters c ! r) \<noteq> StPendingRemove"
  by (force simp: table_ok_def)

text \<open>An operation that leaves the table alone and spoils no registered waiter keeps it well formed.\<close>

lemma table_okI_same_table:
  assumes "table_ok c" and "wait_list c' = wait_list c"
    and "length (waiters c) \<le> length (waiters c')"
    and "\<And>r. r \<in> snd ` set (wait_list c) \<Longrightarrow> response (waiters c' ! r) \<noteq> StPendingRemove"
  shows "table_ok c'"
  using assms by (fastforce simp: table_ok_def)

lemma table_ok_waker_ops [simp]:
  "table_ok (waker_register r t c) = table_ok c"
  "table_ok (waker_take r c) = table_ok c"
  "table_ok (waker_wake r c) = table_ok c"
  by (simp_all add: table_ok_def)

lemma table_ok_mark_expired [simp]: "table_ok (mark_expired c) = table_ok c"
  by (simp add: table_ok_def)

lemma table_ok_set_response_store:
  "table_ok c \<Longrightarrow> r < length (waiters c) \<Longrightarrow> table_ok (set_response_store c r raw p e)"
  by (rule table_okI_same_table)
    (auto simp: response_set_response_store dest: table_ok_member)

lemma table_ok_write_failed_store:
  "table_ok c \<Longrightarrow> r < length (waiters c) \<Longrightarrow> table_ok (write_failed_store c r)"
  by (rule table_okI_same_table)
    (auto simp: response_write_failed_store dest: table_ok_member)

lemma table_ok_remove:
  "table_ok c \<Longrightarrow> table_ok (c\<lparr>wait_list := alist_remove i (wait_list c)\<rparr>)"
  by (auto simp: table_ok_def alist_remove_def distinct_map_filter)

subsection \<open>What polling does, in a well-formed table\<close>

definition unregistered :: "receive \<Rightarrow> request_context \<Rightarrow> request_context" where
  "unregistered h c =
     (waker_take (rcv_obj h) c)\<lparr>wait_list := alist_remove (rcv_id h) (wait_list c)\<rparr>"

lemma try_unregister_Done:
  assumes "(rcv_id h, rcv_obj h) \<in> set (wait_list c)" and "rr_state rr = Some h"
  shows "try_unregister c rr = Done (unregistered h c, rr\<lparr>rr_state := None\<rparr>)"
proof -
  have "(rcv_id h, rcv_obj h) \<in> set (wait_list (waker_take (rcv_obj h) c))"
    using assms(1) by simp
  then show ?thesis
    using assms(2) by (simp add: try_unregister_def unregistered_def free_request_id_Done)
qed

lemma unregistered_frame [simp]:
  "wait_list (unregistered h c) = alist_remove (rcv_id h) (wait_list c)"
  "expired (unregistered h c) = expired c"
  "woken (unregistered h c) = woken c"
  "length (waiters (unregistered h c)) = length (waiters c)"
  "response (waiters (unregistered h c) ! q) = response (waiters c ! q)"
  by (simp_all add: unregistered_def) (simp_all add: waker_take_def)

lemma table_ok_unregistered:
  assumes "table_ok c" and "(rcv_id h, rcv_obj h) \<in> set (wait_list c)"
    and "wait_list c' = wait_list c" and "length (waiters c') = length (waiters c)"
    and "\<And>q. q \<noteq> rcv_obj h \<Longrightarrow> response (waiters c' ! q) = response (waiters c ! q)"
  shows "table_ok (unregistered h c')"
proof -
  have "r \<noteq> rcv_obj h" if "(i, r) \<in> set (wait_list c)" "i \<noteq> rcv_id h" for i r
    using that assms(1,2) by (fastforce simp: table_ok_def distinct_map inj_on_def)
  moreover have "table_ok (c\<lparr>wait_list := alist_remove (rcv_id h) (wait_list c)\<rparr>)"
    using assms(1) by (rule table_ok_remove)
  ultimately show ?thesis
    using assms(3-5) by (fastforce simp: table_ok_def)
qed

text \<open>The future's result in each state of its wait object.\<close>

lemma rr_poll_registered:
  assumes "(rcv_id h, rcv_obj h) \<in> set (wait_list c)" and "rr_state rr = Some h"
  shows "rr_poll codec t c rr =
    (let c1 = waker_register (rcv_obj h) t c; done = rr\<lparr>rr_state := None\<rparr> in
     case response (waiters c ! rcv_obj h) of
       StNone \<Rightarrow>
         if expired c then Done (unregistered h c1, done, Ready_now (Inl RecvClosed))
         else Done (c1, rr, Pending)
     | StReady raw errc payload \<Rightarrow>
         Done (unregistered h
                 (update_waiter (rcv_obj h) (\<lambda>w. w\<lparr>response := StPendingRemove\<rparr>) c1),
               done, Ready_now (map_err RecvResponse (make_response codec raw payload errc)))
     | StWriteFailed \<Rightarrow> Done (unregistered h c1, done, Ready_now (Inl RecvClosed))
     | StPendingRemove \<Rightarrow> Panic)"
  using assms
  by (simp add: rr_poll_def receive_poll_def Let_def try_unregister_Done split: response_state.split)

lemma rr_try_recv_registered:
  assumes "(rcv_id h, rcv_obj h) \<in> set (wait_list c)" and "rr_state rr = Some h"
  shows "rr_try_recv codec c rr =
    (let done = rr\<lparr>rr_state := None\<rparr> in
     case response (waiters c ! rcv_obj h) of
       StNone \<Rightarrow> Done (c, rr, Inl (if expired c then RecvClosed else RecvEmpty))
     | StReady raw errc payload \<Rightarrow>
         Done (unregistered h
                 (update_waiter (rcv_obj h) (\<lambda>w. w\<lparr>response := StPendingRemove\<rparr>) c),
               done, map_err RecvResponse (make_response codec raw payload errc))
     | StWriteFailed \<Rightarrow> Done (unregistered h c, done, Inl RecvClosed)
     | StPendingRemove \<Rightarrow> Panic)"
  using assms
  by (simp add: rr_try_recv_def receive_poll_def Let_def try_unregister_Done
        split: response_state.split)

lemma rr_drop_registered:
  assumes "(rcv_id h, rcv_obj h) \<in> set (wait_list c)" and "rr_state rr = Some h"
  shows "rr_drop c rr = Done (unregistered h c)"
  using assms by (simp add: rr_drop_def try_unregister_Done)

lemma rr_ops_terminated:
  assumes "rr_state rr = None"
  shows "rr_poll codec t c rr = Done (c, rr, Ready_now (Inl RecvEmpty))"
    and "rr_try_recv codec c rr = Done (c, rr, Inl RecvRetrieved)"
    and "rr_drop c rr = Done c"
  using assms by (simp_all add: rr_poll_def rr_try_recv_def rr_drop_def try_unregister_def)

subsection \<open>Every step of a session keeps the invariant and none panics\<close>

lemma session_inv_registered:
  assumes "session_inv s" and "n < length (futures s)" and "rr_state (futures s ! n) = Some h"
  shows "(rcv_id h, rcv_obj h) \<in> set (wait_list (ctx s))"
proof -
  have "(rcv_id h, rcv_obj h) \<in> set (live (futures s))"
    using live_member [OF nth_mem [OF assms(2)] assms(3)] .
  moreover have "set (live (futures s)) = set (wait_list (ctx s))"
    using assms(1) unfolding session_inv_def by (metis set_mset_mset)
  ultimately show ?thesis by simp
qed

lemma session_inv_not_pending_remove:
  assumes "session_inv s" and "n < length (futures s)" and "rr_state (futures s ! n) = Some h"
  shows "response (waiters (ctx s) ! rcv_obj h) \<noteq> StPendingRemove"
  using session_inv_registered [OF assms] assms(1) by (auto simp: session_inv_def dest: table_ok_member)

text \<open>The three ways a step ends for a future: it stays, it finishes, it is dropped.\<close>

lemma session_inv_same_table:
  assumes "session_inv s" and "wait_list c = wait_list (ctx s)"
    and "length (waiters c) = length (waiters (ctx s))"
    and "\<And>q. response (waiters c ! q) = response (waiters (ctx s) ! q)"
  shows "session_inv (s\<lparr>ctx := c\<rparr>)"
  using assms table_okI_same_table [of "ctx s" c]
  by (force simp: session_inv_def dest: table_ok_member)

lemma session_inv_finished:
  assumes inv: "session_inv s" and n: "n < length (futures s)"
    and st: "rr_state (futures s ! n) = Some h"
    and c: "wait_list c = wait_list (ctx s)" "length (waiters c) = length (waiters (ctx s))"
      "\<And>q. q \<noteq> rcv_obj h \<Longrightarrow> response (waiters c ! q) = response (waiters (ctx s) ! q)"
    and fs: "mset (live fs) + {#(rcv_id h, rcv_obj h)#} = mset (live (futures s))"
  shows "session_inv (s\<lparr>ctx := unregistered h c, futures := fs\<rparr>)"
proof -
  note reg = session_inv_registered [OF inv n st]
  have "table_ok (ctx s)" using inv by (simp add: session_inv_def)
  then have "table_ok (unregistered h c)"
    using reg c by (rule table_ok_unregistered)
  moreover have "mset (alist_remove (rcv_id h) (wait_list (ctx s))) + {#(rcv_id h, rcv_obj h)#}
      = mset (wait_list (ctx s))"
    using inv reg by (intro mset_alist_remove) (auto simp: session_inv_def table_ok_def)
  then have "mset (live fs) = mset (wait_list (unregistered h c))"
    using fs inv c(1) by (simp add: session_inv_def) (metis add_mset_add_mset_same_iff)
  ultimately show ?thesis using inv c by (simp add: session_inv_def)
qed

lemma live_finished:
  assumes "n < length fs" and "rr_state (fs ! n) = Some h"
  shows "mset (live (fs[n := (fs ! n)\<lparr>rr_state := None\<rparr>])) + {#(rcv_id h, rcv_obj h)#} = mset (live fs)"
    and "mset (live (remove_nth n fs)) + {#(rcv_id h, rcv_obj h)#} = mset (live fs)"
  using mset_live_update [OF assms(1), of "(fs ! n)\<lparr>rr_state := None\<rparr>"]
    mset_live_remove_nth [OF assms(1)] assms(2) by simp_all

lemma live_terminated:
  assumes "n < length fs" and "rr_state (fs ! n) = None"
  shows "mset (live (remove_nth n fs)) = mset (live fs)"
  using mset_live_remove_nth [OF assms(1)] assms(2) by simp

lemma session_inv_step_poll:
  assumes inv: "session_inv s"
  shows "\<exists>s'. session_step s (EvPoll n t) = Done s' \<and> session_inv s'"
proof (cases "n < length (futures s)")
  case n: True
  show ?thesis
  proof (cases "rr_state (futures s ! n)")
    case None
    then show ?thesis using n inv by (simp add: rr_ops_terminated)
  next
    case st: (Some h)
    let ?r = "rcv_obj h"
    note fin = session_inv_finished [OF inv n st _ _ _ live_finished(1) [OF n st]]
    have "session_inv (s\<lparr>ctx := waker_register ?r t (ctx s)\<rparr>)"
      using inv by (rule session_inv_same_table) simp_all
    moreover have "session_inv (s\<lparr>ctx := unregistered h (waker_register ?r t (ctx s)),
        futures := (futures s)[n := (futures s ! n)\<lparr>rr_state := None\<rparr>]\<rparr>)"
      by (rule fin) simp_all
    moreover have "session_inv (s\<lparr>ctx := unregistered h (update_waiter ?r
          (\<lambda>w. w\<lparr>response := StPendingRemove\<rparr>) (waker_register ?r t (ctx s))),
        futures := (futures s)[n := (futures s ! n)\<lparr>rr_state := None\<rparr>]\<rparr>)"
      by (rule fin) simp_all
    ultimately show ?thesis
      using n session_inv_not_pending_remove [OF inv n st]
      by (simp add: rr_poll_registered [OF session_inv_registered [OF inv n st] st] Let_def
            split: response_state.split)
  qed
qed (use inv in simp)

lemma session_inv_step_try_recv:
  assumes inv: "session_inv s"
  shows "\<exists>s'. session_step s (EvTryRecv n) = Done s' \<and> session_inv s'"
proof (cases "n < length (futures s)")
  case n: True
  show ?thesis
  proof (cases "rr_state (futures s ! n)")
    case None
    then show ?thesis using n inv by (simp add: rr_ops_terminated)
  next
    case st: (Some h)
    note fin = session_inv_finished [OF inv n st _ _ _ live_finished(1) [OF n st]]
    have "session_inv (s\<lparr>ctx := unregistered h (ctx s),
        futures := (futures s)[n := (futures s ! n)\<lparr>rr_state := None\<rparr>]\<rparr>)"
      by (rule fin) simp_all
    moreover have "session_inv (s\<lparr>ctx := unregistered h (update_waiter (rcv_obj h)
          (\<lambda>w. w\<lparr>response := StPendingRemove\<rparr>) (ctx s)),
        futures := (futures s)[n := (futures s ! n)\<lparr>rr_state := None\<rparr>]\<rparr>)"
      by (rule fin) simp_all
    ultimately show ?thesis
      using n inv session_inv_not_pending_remove [OF inv n st]
      by (simp add: rr_try_recv_registered [OF session_inv_registered [OF inv n st] st] Let_def
            split: response_state.split)
  qed
qed (use inv in simp)

lemma session_inv_step_drop:
  assumes inv: "session_inv s"
  shows "\<exists>s'. session_step s (EvDrop n) = Done s' \<and> session_inv s'"
proof (cases "n < length (futures s)")
  case n: True
  show ?thesis
  proof (cases "rr_state (futures s ! n)")
    case None
    then show ?thesis using n inv live_terminated [OF n None]
      by (simp add: rr_ops_terminated session_inv_def)
  next
    case st: (Some h)
    have "session_inv (s\<lparr>ctx := unregistered h (ctx s), futures := remove_nth n (futures s)\<rparr>)"
      by (rule session_inv_finished [OF inv n st _ _ _ live_finished(2) [OF n st]]) simp_all
    then show ?thesis
      using n by (simp add: rr_drop_registered [OF session_inv_registered [OF inv n st] st])
  qed
qed (use inv in simp)

lemma table_ok_new_waiter:
  assumes "table_ok c" shows "table_ok (c\<lparr>waiters := waiters c @ [w]\<rparr>)"
proof (rule table_okI_same_table [OF assms])
  fix r assume "r \<in> snd ` set (wait_list c)"
  then have "r < length (waiters c)" "response (waiters c ! r) \<noteq> StPendingRemove"
    using assms by (auto dest: table_ok_member)
  then show "response (waiters (c\<lparr>waiters := waiters c @ [w]\<rparr>) ! r) \<noteq> StPendingRemove"
    by (simp add: nth_append)
qed simp_all

lemma table_ok_allocated:
  assumes "table_ok c" and "map_of (wait_list c) i = None"
  shows "table_ok (c\<lparr>waiters := waiters c @ [waiter_default],
      wait_list := (i, length (waiters c)) # wait_list c\<rparr>)"
proof -
  have "r < length (waiters c)" if "(j, r) \<in> set (wait_list c)" for j r
    using table_ok_member [OF assms(1) that] by simp
  then have "length (waiters c) \<notin> snd ` set (wait_list c)" by force
  then show ?thesis
    using table_ok_new_waiter [OF assms(1), of waiter_default] assms(2)
    by (simp add: table_ok_def map_of_eq_None_iff waiter_default_def)
qed

lemma session_inv_step_allocate:
  assumes inv: "session_inv s"
  shows "\<exists>s'. session_step s (EvAllocate i) = Done s' \<and> session_inv s'"
proof (cases "try_allocate_new_request (ctx s) i")
  case (Pair c res)
  show ?thesis
  proof (cases res)
    case None
    have "session_inv (s\<lparr>ctx := c\<rparr>)"
      using inv table_ok_new_waiter
      by (auto simp: try_allocate_None(1) [OF Pair [unfolded None]] session_inv_def less_Suc_eq)
    then show ?thesis by (simp add: Pair None)
  next
    case (Some h)
    note alloc = try_allocate_Some [OF Pair [unfolded Some]]
    have "session_inv (s\<lparr>ctx := c, futures := futures s @ [receive_response_new h]\<rparr>)"
      using inv table_ok_allocated [OF _ alloc(3)]
      by (auto simp: alloc session_inv_def receive_response_new_def less_Suc_eq)
    then show ?thesis by (simp add: Pair Some)
  qed
qed

lemma session_inv_step_rx:
  assumes inv: "session_inv s"
    and e: "e \<in> {EvRxLookup i raw p errc, EvRxCheck, EvRxStore, EvRxWake}"
  shows "\<exists>s'. session_step s e = Done s' \<and> session_inv s'"
proof -
  have "\<exists>s'. session_step s (EvRxLookup i raw p errc) = Done s' \<and> session_inv s'"
    using inv by (auto simp: session_inv_def set_response_lookup_def dest!: map_of_SomeD
        dest: table_ok_member split: rx_phase.split option.split)
  moreover have "\<exists>s'. session_step s EvRxCheck = Done s' \<and> session_inv s'"
    using inv by (auto simp: session_inv_def split: rx_phase.split)
  moreover have "\<exists>s'. session_step s EvRxStore = Done s' \<and> session_inv s'"
    using inv by (auto simp: session_inv_def table_ok_set_response_store split: rx_phase.split)
  moreover have "\<exists>s'. session_step s EvRxWake = Done s' \<and> session_inv s'"
    using inv by (auto simp: session_inv_def split: rx_phase.split)
  ultimately show ?thesis using e by fast
qed

lemma session_inv_step_wr:
  assumes inv: "session_inv s" and e: "e \<in> {EvWrLookup i, EvWrStore, EvWrWake}"
  shows "\<exists>s'. session_step s e = Done s' \<and> session_inv s'"
proof -
  have "\<exists>s'. session_step s (EvWrLookup i) = Done s' \<and> session_inv s'"
    using inv by (auto simp: session_inv_def dest!: map_of_SomeD dest: table_ok_member
        split: wr_phase.split option.split)
  moreover have "\<exists>s'. session_step s EvWrStore = Done s' \<and> session_inv s'"
    using inv by (auto simp: session_inv_def table_ok_write_failed_store split: wr_phase.split)
  moreover have "\<exists>s'. session_step s EvWrWake = Done s' \<and> session_inv s'"
    using inv by (auto simp: session_inv_def split: wr_phase.split)
  ultimately show ?thesis using e by fast
qed

lemma session_step_inv:
  assumes inv: "session_inv s"
  shows "\<exists>s'. session_step s e = Done s' \<and> session_inv s'"
proof (cases e)
  case EvExpire
  then show ?thesis using inv by (simp add: session_inv_def)
qed (use inv in \<open>blast intro: session_inv_step_allocate session_inv_step_poll
      session_inv_step_try_recv session_inv_step_drop session_inv_step_rx session_inv_step_wr\<close>)+

lemma session_inv_init: "session_inv session_init"
  by (simp add: session_inv_def session_init_def table_ok_def request_context_new_def)

lemma session_reachable_inv: "session_reachable s \<Longrightarrow> session_inv s"
proof (induction rule: session_reachable.induct)
  case reach_init
  show ?case by (rule session_inv_init)
next
  case (reach_step s e s')
  then show ?case using session_step_inv [of s e] by auto
qed

lemma session_run_inv: "session_inv s \<Longrightarrow> \<exists>s'. session_run s es = Done s' \<and> session_inv s'"
proof (induction es arbitrary: s)
  case Nil
  then show ?case by simp
next
  case (Cons e es)
  obtain s1 where "session_step s e = Done s1" "session_inv s1"
    using session_step_inv [OF Cons.prems] by blast
  then show ?case using Cons.IH [of s1] by simp
qed

lemma session_run_reachable:
  "session_reachable s \<Longrightarrow> session_run s es = Done s' \<Longrightarrow> session_reachable s'"
  by (induction es arbitrary: s) (auto simp: obind_Done_iff intro: reach_step)

subsection \<open>Properties\<close>

text \<open>C6: No interleaving of the operations on a connection's request table panics: neither the
  assertion of \<open>free_request_id\<close> nor the \<open>unreachable!\<close> of \<open>Receive::poll\<close> is ever hit, whatever
  the order of allocations, polls, drops, responses, failed writes and expiry.\<close>

theorem session_run_no_panic: "\<exists>s. session_run session_init es = Done s"
  using session_run_inv [OF session_inv_init] by blast

text \<open>C7: In every reachable state the table of pending requests holds exactly one entry per
  future that still waits, no two futures share an identifier, and once every future is
  gone the drop guard of the table does not fire: no entry leaks.\<close>

theorem wait_list_matches_futures:
  assumes "session_reachable s"
  shows "mset (live (futures s)) = mset (wait_list (ctx s)) \<and>
    distinct (map fst (wait_list (ctx s))) \<and>
    (live (futures s) = [] \<longrightarrow> request_context_drop (ctx s) = Done ())"
  using session_reachable_inv [OF assms]
  by (auto simp: session_inv_def table_ok_def request_context_drop_def rust_assert_def)

definition session_one :: session where
  "session_one =
     \<lparr>ctx = \<lparr>wait_list = [(RequestId 7, 0)], expired = False,
             waiters = [\<lparr>waker = Some 5, response = StNone\<rparr>], woken = []\<rparr>,
      futures = [receive_response_new (Receive (RequestId 7) 0)], rx_task = RxIdle, wr_task = WrIdle\<rparr>"

lemma session_one_reachable: "session_reachable session_one"
proof -
  have "session_run session_init [EvAllocate (RequestId 7), EvPoll 0 5] = Done session_one"
    by (simp add: session_init_def session_one_def request_context_new_def Let_def
        try_allocate_new_request_def waiter_default_def receive_response_new_def rr_poll_def
        receive_poll_def waker_register_def update_waiter_def)
  then show ?thesis by (rule session_run_reachable [OF reach_init])
qed

theorem wait_list_matches_futures_witness:
  "session_reachable session_one \<and>
   mset (live (futures session_one)) = mset (wait_list (ctx session_one)) \<and>
   live (futures session_one) = [(RequestId 7, 0)]"
  using wait_list_matches_futures [OF session_one_reachable] session_one_reachable
  by (simp add: session_one_def receive_response_new_def)

text \<open>C8: A response that arrives for a waiting request is accepted, wakes the registered task,
  and the next poll of that request's future yields exactly this response (or error
  response), frees its identifier and leaves every other entry of the table in place.\<close>

theorem response_reaches_its_future:
  assumes "session_reachable s"
    and "n < length (futures s)" and "rr_state (futures s ! n) = Some h"
    and "\<not> expired (ctx s)"
    and "response (waiters (ctx s) ! rcv_obj h) \<noteq> StWriteFailed"
    and "waker (waiters (ctx s) ! rcv_obj h) = Some t0"
  shows "\<exists>c1 c2. set_response (ctx s) (rcv_id h) raw payload errc = (c1, Inr ()) \<and>
    t0 \<in> set (woken c1) \<and>
    rr_poll codec t c1 (futures s ! n) =
      Done (c2, \<lparr>rr_state = None\<rparr>,
            Ready_now (map_err RecvResponse (make_response codec raw payload errc))) \<and>
    map_of (wait_list c2) = (map_of (wait_list (ctx s)))(rcv_id h := None)"
proof -
  let ?c = "ctx s" and ?r = "rcv_obj h"
  have inv: "session_inv s" using assms(1) by (rule session_reachable_inv)
  then have ok: "table_ok ?c" by (simp add: session_inv_def)
  have reg: "(rcv_id h, ?r) \<in> set (wait_list ?c)"
    using inv assms(2,3) by (rule session_inv_registered)
  then have lookup: "map_of (wait_list ?c) (rcv_id h) = Some ?r"
    using ok by (simp add: table_ok_def)
  have r: "?r < length (waiters ?c)" and npr: "response (waiters ?c ! ?r) \<noteq> StPendingRemove"
    using table_ok_member [OF ok reg] by simp_all
  let ?c1 = "waker_wake ?r (set_response_store ?c ?r raw payload errc)"
  have "accepts_response (response (waiters ?c ! ?r))"
    using npr assms(5) by (cases "response (waiters ?c ! ?r)") auto
  then have resp:
    "response (waiters (set_response_store ?c ?r raw payload errc) ! ?r) = StReady raw errc payload"
    using r by (simp add: response_set_response_store)
  have fin: "(futures s ! n)\<lparr>rr_state := None\<rparr> = \<lparr>rr_state = None\<rparr>" by simp
  have "set_response ?c (rcv_id h) raw payload errc = (?c1, Inr ())"
    using assms(4) by (simp add: set_response_def set_response_lookup_def set_response_commit_def lookup)
  moreover have "t0 \<in> set (woken ?c1)"
    using assms(6) r by (simp add: woken_waker_wake set_response_store_def waiters_update_waiter)
  moreover have reg1: "(rcv_id h, ?r) \<in> set (wait_list ?c1)" using reg by simp
  ultimately show ?thesis
    by (simp add: rr_poll_registered [OF reg1 assms(3)] Let_def resp fun_eq_iff fin)
qed

theorem response_reaches_its_future_witness:
  "\<exists>c1 c2. set_response (ctx session_one) (RequestId 7) [1, 2] (RangeType 0 2) None = (c1, Inr ()) \<and>
    5 \<in> set (woken c1) \<and>
    rr_poll () 6 c1 (futures session_one ! 0) =
      Done (c2, \<lparr>rr_state = None\<rparr>, Ready_now (Inr
        \<lparr>resp_codec = (), resp_raw = [1, 2], resp_payload = RangeType 0 2\<rparr>))"
  using response_reaches_its_future [OF session_one_reachable, of 0 "Receive (RequestId 7) 0" 5
      "[1, 2]" "RangeType 0 2" None "()" 6]
  by (auto simp: session_one_def receive_response_new_def make_response_def)

text \<open>C10: When the connection expires, every task that waits for a response is woken, and the
  next poll of each waiting future is not pending: if a response (or error response) was
  already stored, the poll gives exactly that response, and otherwise (no response yet, or
  the request could not be written) it gives \<open>Closed\<close>. From then on no request can be
  registered and no response is taken: its frame is handed back to the caller.\<close>

theorem expiry_releases_every_waiter:
  assumes "session_reachable s" and "\<not> expired (ctx s)"
    and "n < length (futures s)" and "rr_state (futures s ! n) = Some h"
  shows "(\<forall>t. waker (waiters (ctx s) ! rcv_obj h) = Some t \<longrightarrow> t \<in> set (woken (mark_expired (ctx s)))) \<and>
    (\<exists>c r. rr_poll codec t (mark_expired (ctx s)) (futures s ! n) = Done (c, \<lparr>rr_state = None\<rparr>, Ready_now r) \<and>
       r = (case response (waiters (ctx s) ! rcv_obj h) of
              StReady raw errc payload \<Rightarrow> map_err RecvResponse (make_response codec raw payload errc)
            | _ \<Rightarrow> Inl RecvClosed)) \<and>
    (\<forall>i. snd (try_allocate_new_request (mark_expired (ctx s)) i) = None) \<and>
    (\<forall>i raw p e. snd (set_response (mark_expired (ctx s)) i raw p e) = Inl raw)"
proof -
  let ?c = "ctx s" and ?r = "rcv_obj h"
  have inv: "session_inv s" using assms(1) by (rule session_reachable_inv)
  have reg: "(rcv_id h, ?r) \<in> set (wait_list ?c)"
    using inv assms(3,4) by (rule session_inv_registered)
  then have reg': "(rcv_id h, ?r) \<in> set (wait_list (mark_expired ?c))" by simp
  have fin: "(futures s ! n)\<lparr>rr_state := None\<rparr> = \<lparr>rr_state = None\<rparr>" by simp
  have "\<exists>c r. rr_poll codec t (mark_expired ?c) (futures s ! n) = Done (c, \<lparr>rr_state = None\<rparr>, Ready_now r) \<and>
      r = (case response (waiters ?c ! ?r) of
             StReady raw errc payload \<Rightarrow> map_err RecvResponse (make_response codec raw payload errc)
           | _ \<Rightarrow> Inl RecvClosed)"
    using session_inv_not_pending_remove [OF inv assms(3,4)]
    by (simp add: rr_poll_registered [OF reg' assms(4)] Let_def fin split: response_state.split)
  moreover have "\<forall>i. snd (try_allocate_new_request (mark_expired ?c) i) = None"
    by (simp add: try_allocate_new_request_def Let_def)
  moreover have "\<forall>i raw p e. snd (set_response (mark_expired ?c) i raw p e) = Inl raw"
    by (simp add: set_response_def set_response_commit_def split: option.split)
  ultimately show ?thesis
    using mark_expired_wakes [OF assms(2) reg] by blast
qed

theorem expiry_releases_every_waiter_witness:
  "5 \<in> set (woken (mark_expired (ctx session_one))) \<and>
   (\<exists>c. rr_poll () 6 (mark_expired (ctx session_one)) (futures session_one ! 0) =
      Done (c, \<lparr>rr_state = None\<rparr>, Ready_now (Inl RecvClosed)))"
proof -
  have "\<not> expired (ctx session_one)" "0 < length (futures session_one)"
    "rr_state (futures session_one ! 0) = Some (Receive (RequestId 7) 0)"
    "waker (waiters (ctx session_one) ! 0) = Some 5"
    "response (waiters (ctx session_one) ! 0) = StNone"
    by (simp_all add: session_one_def receive_response_new_def)
  then show ?thesis
    using expiry_releases_every_waiter [OF session_one_reachable, of 0 "Receive (RequestId 7) 0" "()" 6]
    by auto
qed

end
