(* ===== verification/Sender.thy ===== *)
theory Sender
  imports Channel Response_Future
begin

text \<open>
  \<open>src/rpc/sender.rs\<close>, the shared core of \<open>src/rpc/core.rs\<close> and the send errors of
  \<open>src/rpc/error.rs\<close>: the directives for the writer task, sending notifications and
  requests, closing and flushing the writer, and the broadcast of prepared packets.

  A caller's \<open>BytesMut\<close> is passed in and out; \<open>buf.split().freeze()\<close> takes its content and
  leaves it empty. The asynchronous methods are one poll of their future: \<open>Pending\<close> means
  that the channel has no room and nothing was sent.
\<close>

subsection \<open>The core of a connection\<close>

datatype writer_directive =
  CloseImmediately
| CloseAfterFlush
| Flush
| WriteMsg bytes
| WriteMsgBurst "bytes list"
| WriteReqMsg bytes request_id

text \<open>
  \<open>RpcCore\<close>: the channel to the writer task is represented by the state of the channel
  that all its handles share. \<open>wake_on_drop\<close> is the task registered in \<open>r_wake_on_drop\<close>.
\<close>

record ('p, 'd, 'q, 'u) rpc_core =
  core_codec :: "('p, 'd) codec"
  core_user_data :: 'u
  core_reqs :: "request_context option"
  t_tx_deferred :: "'q option"
  wake_on_drop :: "task option"

definition register_wake_on_drop ::
  "task \<Rightarrow> ('p, 'd, 'q, 'u) rpc_core \<Rightarrow> ('p, 'd, 'q, 'u) rpc_core" where
  "register_wake_on_drop t core = core\<lparr>wake_on_drop := Some t\<rparr>"

subsection \<open>Errors\<close>

datatype send_msg_error =
  SendEncodeFailed encode_error | SendChannelClosed | SendReceiverExpired

datatype send_response_error = RespMsgError send_msg_error | RespInboundNotRequest

datatype try_send_msg_error =
  TryEncodeFailed encode_error | TryChannelClosed | TryChannelAtCapacity | TryReceiverExpired

datatype try_send_response_error =
  TryRespMsgError try_send_msg_error | TryRespInboundNotRequest

fun convert_deferred_write_err ::
  "writer_directive try_send_error \<Rightarrow> try_send_msg_error outcome" where
  "convert_deferred_write_err (Closed _) = Done TryChannelClosed"
| "convert_deferred_write_err (Full (WriteMsg _)) = Done TryChannelAtCapacity"
| "convert_deferred_write_err (Full (WriteMsgBurst _)) = Done TryChannelAtCapacity"
| "convert_deferred_write_err (Full (WriteReqMsg _ _)) = Done TryChannelAtCapacity"
| "convert_deferred_write_err (Full _) = Panic"

fun convert_deferred_action_err :: "'m try_send_error \<Rightarrow> try_send_msg_error" where
  "convert_deferred_action_err (Closed _) = TryChannelClosed"
| "convert_deferred_action_err (Full _) = TryChannelAtCapacity"

subsection \<open>Frames to the writer task\<close>

text \<open>\<open>tx_deferred\<close> unwraps without a check: a core with no channel is undefined behaviour.\<close>

definition sender_tx :: "('p, 'd, 'q, 'u) rpc_core \<Rightarrow> 'q outcome" where
  "sender_tx core = unwrap_unchecked (t_tx_deferred core)"

definition try_send_frame ::
  "('q, writer_directive) chan_ops \<Rightarrow> ('p, 'd, 'q, 'u) rpc_core \<Rightarrow> writer_directive
   \<Rightarrow> (('p, 'd, 'q, 'u) rpc_core \<times> (try_send_msg_error + unit)) outcome" where
  "try_send_frame ops core msg =
     obind (sender_tx core) (\<lambda>q.
       case ch_try_send ops q msg of
         (q', Inr _) \<Rightarrow> Done (core\<lparr>t_tx_deferred := Some q'\<rparr>, Inr ())
       | (q', Inl e) \<Rightarrow> obind (convert_deferred_write_err e)
           (\<lambda>err. Done (core\<lparr>t_tx_deferred := Some q'\<rparr>, Inl err)))"

definition send_frame ::
  "('q, writer_directive) chan_ops \<Rightarrow> ('p, 'd, 'q, 'u) rpc_core \<Rightarrow> writer_directive
   \<Rightarrow> (('p, 'd, 'q, 'u) rpc_core \<times> (send_msg_error + unit)) poll outcome" where
  "send_frame ops core msg =
     obind (sender_tx core) (\<lambda>q.
       case ch_send ops q msg of
         Pending \<Rightarrow> Done Pending
       | Ready_now (q', r) \<Rightarrow>
           Done (Ready_now (core\<lparr>t_tx_deferred := Some q'\<rparr>, map_err (\<lambda>_. SendChannelClosed) r)))"

definition send_notify ::
  "('q, writer_directive) chan_ops \<Rightarrow> ('p, 'd, 'q, 'u) rpc_core \<Rightarrow> bytes \<Rightarrow> bytes \<Rightarrow> 'p
   \<Rightarrow> (('p, 'd, 'q, 'u) rpc_core \<times> bytes \<times> (send_msg_error + unit)) poll outcome" where
  "send_notify ops core buf meth params =
     (case encode_notify (core_codec core) meth params [] of
        (buf1, Inl e) \<Rightarrow> Done (Ready_now (core, buf1, Inl (SendEncodeFailed e)))
      | (buf1, Inr _) \<Rightarrow>
          obind (send_frame ops core (WriteMsg buf1)) (\<lambda>p.
            case p of Pending \<Rightarrow> Done Pending
            | Ready_now (core', r) \<Rightarrow> Done (Ready_now (core', [], r))))"

definition try_send_notify ::
  "('q, writer_directive) chan_ops \<Rightarrow> ('p, 'd, 'q, 'u) rpc_core \<Rightarrow> bytes \<Rightarrow> bytes \<Rightarrow> 'p
   \<Rightarrow> (('p, 'd, 'q, 'u) rpc_core \<times> bytes \<times> (try_send_msg_error + unit)) outcome" where
  "try_send_notify ops core buf meth params =
     (case encode_notify (core_codec core) meth params [] of
        (buf1, Inl e) \<Rightarrow> Done (core, buf1, Inl (TryEncodeFailed e))
      | (buf1, Inr _) \<Rightarrow>
          obind (try_send_frame ops core (WriteMsg buf1)) (\<lambda>(core', r). Done (core', [], r)))"

text \<open>\<open>try_into_request_sender\<close> succeeds only when the request feature is on.\<close>

definition try_into_request_sender :: "('p, 'd, 'q, 'u) rpc_core \<Rightarrow> unit + unit" where
  "try_into_request_sender core = (if core_reqs core \<noteq> None then Inr () else Inl ())"

text \<open>\<open>buf.clear()\<close> comes first in all of these: the encoder starts on an empty buffer.\<close>

subsection \<open>Closing and flushing\<close>

definition shutdown_directive :: "bool \<Rightarrow> writer_directive" where
  "shutdown_directive discard = (if discard then CloseImmediately else CloseAfterFlush)"

definition try_shutdown_writer ::
  "('q, writer_directive) chan_ops \<Rightarrow> ('p, 'd, 'q, 'u) rpc_core \<Rightarrow> bool
   \<Rightarrow> (('p, 'd, 'q, 'u) rpc_core \<times> (try_send_msg_error + unit)) outcome" where
  "try_shutdown_writer ops core drop_after_this =
     obind (sender_tx core) (\<lambda>q.
       case ch_try_send ops q (shutdown_directive drop_after_this) of
         (q', Inl e) \<Rightarrow> Done (core\<lparr>t_tx_deferred := Some q'\<rparr>, Inl (convert_deferred_action_err e))
       | (q', Inr _) \<Rightarrow> Done (core\<lparr>t_tx_deferred := Some (ch_close ops q')\<rparr>, Inr ()))"

definition shutdown_writer ::
  "('q, writer_directive) chan_ops \<Rightarrow> ('p, 'd, 'q, 'u) rpc_core \<Rightarrow> bool
   \<Rightarrow> (('p, 'd, 'q, 'u) rpc_core \<times> (try_send_msg_error + unit)) poll outcome" where
  "shutdown_writer ops core discard_unsent =
     obind (sender_tx core) (\<lambda>q.
       case ch_send ops q (shutdown_directive discard_unsent) of
         Pending \<Rightarrow> Done Pending
       | Ready_now (q', Inl _) \<Rightarrow>
           Done (Ready_now (core\<lparr>t_tx_deferred := Some q'\<rparr>, Inl TryChannelClosed))
       | Ready_now (q', Inr _) \<Rightarrow>
           Done (Ready_now (core\<lparr>t_tx_deferred := Some (ch_close ops q')\<rparr>, Inr ())))"

definition try_flush_writer ::
  "('q, writer_directive) chan_ops \<Rightarrow> ('p, 'd, 'q, 'u) rpc_core
   \<Rightarrow> (('p, 'd, 'q, 'u) rpc_core \<times> (try_send_msg_error + unit)) outcome" where
  "try_flush_writer ops core =
     obind (sender_tx core) (\<lambda>q.
       case ch_try_send ops q Flush of
         (q', r) \<Rightarrow> Done (core\<lparr>t_tx_deferred := Some q'\<rparr>, map_err convert_deferred_action_err r))"

definition flush_writer ::
  "('q, writer_directive) chan_ops \<Rightarrow> ('p, 'd, 'q, 'u) rpc_core
   \<Rightarrow> (('p, 'd, 'q, 'u) rpc_core \<times> (try_send_msg_error + unit)) poll outcome" where
  "flush_writer ops core =
     obind (sender_tx core) (\<lambda>q.
       case ch_send ops q Flush of
         Pending \<Rightarrow> Done Pending
       | Ready_now (q', r) \<Rightarrow>
           Done (Ready_now (core\<lparr>t_tx_deferred := Some q'\<rparr>, map_err (\<lambda>_. TryChannelClosed) r)))"

subsection \<open>Requests\<close>

text \<open>
  The retry loop of \<open>encode_request\<close> with \<open>n\<close> attempts left. The buffer is cleared before the
  loop only; \<open>None\<close> is the expired context, \<open>Some (Inl e)\<close> an encoding error. The generator
  of request identifiers is the parameter \<open>rnd\<close>.
\<close>

fun encode_request_loop ::
  "nat \<Rightarrow> ('p, 'd) codec \<Rightarrow> ('g \<Rightarrow> u64 \<times> 'g) \<Rightarrow> 'g \<Rightarrow> bytes \<Rightarrow> 'p \<Rightarrow> request_context \<Rightarrow> bytes
   \<Rightarrow> request_context \<times> bytes \<times> 'g \<times> (encode_error + receive_response) option" where
  "encode_request_loop 0 codec rnd g meth params c buf =
     (c, buf, g, Some (Inl RequestIdAllocationFailed))"
| "encode_request_loop (Suc n) codec rnd g meth params c buf =
     (if expired c then (c, buf, g, None)
      else case request_id_generate rnd g of (candidate, g') \<Rightarrow>
        case encode_request codec candidate meth params buf of
          (buf', Inl e) \<Rightarrow> (c, buf', g', Some (Inl e))
        | (buf', Inr actual) \<Rightarrow>
            (case try_allocate_new_request c actual of
               (c', None) \<Rightarrow> encode_request_loop n codec rnd g' meth params c' buf'
             | (c', Some h) \<Rightarrow> (c', buf', g', Some (Inr (receive_response_new h)))))"

definition max_retry_heuristic :: nat where
  "max_retry_heuristic = 4"

text \<open>\<open>RequestSender::reqs\<close> unwraps the request context.\<close>

definition sender_reqs :: "('p, 'd, 'q, 'u) rpc_core \<Rightarrow> request_context outcome" where
  "sender_reqs core = unwrap (core_reqs core)"

definition request_encode ::
  "('p, 'd, 'q, 'u) rpc_core \<Rightarrow> ('g \<Rightarrow> u64 \<times> 'g) \<Rightarrow> 'g \<Rightarrow> bytes \<Rightarrow> bytes \<Rightarrow> 'p
   \<Rightarrow> (('p, 'd, 'q, 'u) rpc_core \<times> bytes \<times> 'g \<times> (encode_error + receive_response) option) outcome" where
  "request_encode core rnd g buf meth params =
     obind (sender_reqs core) (\<lambda>c.
       case encode_request_loop max_retry_heuristic (core_codec core) rnd g meth params c [] of
         (c', buf', g', r) \<Rightarrow> Done (core\<lparr>core_reqs := Some c'\<rparr>, buf', g', r))"

text \<open>The future of a request that could not be sent is dropped, which unregisters it.\<close>

definition drop_unsent ::
  "('p, 'd, 'q, 'u) rpc_core \<Rightarrow> receive_response \<Rightarrow> ('p, 'd, 'q, 'u) rpc_core outcome" where
  "drop_unsent core resp =
     obind (sender_reqs core) (\<lambda>c. obind (rr_drop c resp) (\<lambda>c'. Done (core\<lparr>core_reqs := Some c'\<rparr>)))"

definition try_send_request ::
  "('q, writer_directive) chan_ops \<Rightarrow> ('p, 'd, 'q, 'u) rpc_core \<Rightarrow> ('g \<Rightarrow> u64 \<times> 'g) \<Rightarrow> 'g
   \<Rightarrow> bytes \<Rightarrow> bytes \<Rightarrow> 'p
   \<Rightarrow> (('p, 'd, 'q, 'u) rpc_core \<times> bytes \<times> 'g \<times> (try_send_msg_error + receive_response)) outcome" where
  "try_send_request ops core rnd g buf meth params =
     obind (request_encode core rnd g buf meth params) (\<lambda>(core1, buf1, g1, r).
       case r of
         None \<Rightarrow> Done (core1, buf1, g1, Inl TryReceiverExpired)
       | Some (Inl e) \<Rightarrow> Done (core1, buf1, g1, Inl (TryEncodeFailed e))
       | Some (Inr resp) \<Rightarrow>
           obind (rr_request_id resp) (\<lambda>i.
           obind (try_send_frame ops core1 (WriteReqMsg buf1 i)) (\<lambda>(core2, sent).
             case sent of
               Inr _ \<Rightarrow> Done (core2, [], g1, Inr resp)
             | Inl e \<Rightarrow> obind (drop_unsent core2 resp) (\<lambda>core3. Done (core3, [], g1, Inl e)))))"

text \<open>
  The asynchronous \<open>send_request\<close>: the request is registered before the first await, so a
  future suspended on a full channel (\<open>Pending\<close>) already owns a table entry, in the core
  that is returned with it.
\<close>

datatype 'a suspended = Suspended writer_directive receive_response | Finished 'a

definition send_request ::
  "('q, writer_directive) chan_ops \<Rightarrow> ('p, 'd, 'q, 'u) rpc_core \<Rightarrow> ('g \<Rightarrow> u64 \<times> 'g) \<Rightarrow> 'g
   \<Rightarrow> bytes \<Rightarrow> bytes \<Rightarrow> 'p
   \<Rightarrow> (('p, 'd, 'q, 'u) rpc_core \<times> bytes \<times> 'g \<times> (send_msg_error + receive_response) suspended) outcome" where
  "send_request ops core rnd g buf meth params =
     obind (request_encode core rnd g buf meth params) (\<lambda>(core1, buf1, g1, r).
       case r of
         None \<Rightarrow> Done (core1, buf1, g1, Finished (Inl SendReceiverExpired))
       | Some (Inl e) \<Rightarrow> Done (core1, buf1, g1, Finished (Inl (SendEncodeFailed e)))
       | Some (Inr resp) \<Rightarrow>
           obind (rr_request_id resp) (\<lambda>i.
           obind (send_frame ops core1 (WriteReqMsg buf1 i)) (\<lambda>p.
             case p of
               Pending \<Rightarrow> Done (core1, [], g1, Suspended (WriteReqMsg buf1 i) resp)
             | Ready_now (core2, Inr _) \<Rightarrow> Done (core2, [], g1, Finished (Inr resp))
             | Ready_now (core2, Inl e) \<Rightarrow>
                 obind (drop_unsent core2 resp) (\<lambda>core3. Done (core3, [], g1, Finished (Inl e))))))"

subsection \<open>Prepared packets and bursts\<close>

record prepared_packet =
  pkt_data :: bytes
  pkt_hash :: usize

datatype packet_write_burst =
  ErrHashMismatch | BurstEmpty | Mono prepared_packet | Burst usize "bytes list"

definition prepare_notify ::
  "('p, 'd) codec \<Rightarrow> bytes \<Rightarrow> bytes \<Rightarrow> 'p \<Rightarrow> bytes \<times> (encode_error + prepared_packet)" where
  "prepare_notify codec buf meth params =
     (if codec_reusability_id codec = 0 then ([], Inl NotReusable)
      else case encode_notify codec meth params [] of
          (buf', Inl e) \<Rightarrow> (buf', Inl e)
        | (buf', Inr _) \<Rightarrow> ([], Inr \<lparr>pkt_data = buf', pkt_hash = codec_reusability_id codec\<rparr>))"

definition burst_into_directive ::
  "('p, 'd) codec \<Rightarrow> packet_write_burst \<Rightarrow> encode_error + (nat \<times> writer_directive) option" where
  "burst_into_directive codec burst =
     (case burst of
        BurstEmpty \<Rightarrow> Inr None
      | ErrHashMismatch \<Rightarrow> Inl NotReusable
      | Mono pkt \<Rightarrow>
          (if pkt_hash pkt = codec_reusability_id codec
           then Inr (Some (1, WriteMsg (pkt_data pkt))) else Inl NotReusable)
      | Burst hash chunks \<Rightarrow>
          (if hash = codec_reusability_id codec
           then Inr (Some (length chunks, WriteMsgBurst chunks)) else Inl NotReusable))"

definition try_burst ::
  "('q, writer_directive) chan_ops \<Rightarrow> ('p, 'd, 'q, 'u) rpc_core \<Rightarrow> packet_write_burst
   \<Rightarrow> (('p, 'd, 'q, 'u) rpc_core \<times> (try_send_msg_error + nat)) outcome" where
  "try_burst ops core b =
     (case burst_into_directive (core_codec core) b of
        Inl e \<Rightarrow> Done (core, Inl (TryEncodeFailed e))
      | Inr None \<Rightarrow> Done (core, Inr 0)
      | Inr (Some (n, msg)) \<Rightarrow>
          obind (try_send_frame ops core msg) (\<lambda>(core', r). Done (core', map_sum id (\<lambda>_. n) r)))"

definition burst ::
  "('q, writer_directive) chan_ops \<Rightarrow> ('p, 'd, 'q, 'u) rpc_core \<Rightarrow> packet_write_burst
   \<Rightarrow> (('p, 'd, 'q, 'u) rpc_core \<times> (send_msg_error + nat)) poll outcome" where
  "burst ops core b =
     (case burst_into_directive (core_codec core) b of
        Inl e \<Rightarrow> Done (Ready_now (core, Inl (SendEncodeFailed e)))
      | Inr None \<Rightarrow> Done (Ready_now (core, Inr 0))
      | Inr (Some (n, msg)) \<Rightarrow>
          obind (send_frame ops core msg) (\<lambda>p. case p of
            Pending \<Rightarrow> Done Pending
          | Ready_now (core', r) \<Rightarrow> Done (Ready_now (core', map_sum id (\<lambda>_. n) r))))"

text \<open>\<open>From<T: IntoIterator>\<close>: the loop over the packets from the third on.\<close>

fun burst_collect :: "usize \<Rightarrow> bytes list \<Rightarrow> prepared_packet list \<Rightarrow> packet_write_burst" where
  "burst_collect hash vec [] = Burst hash vec"
| "burst_collect hash vec (p # ps) =
     (if pkt_hash p \<noteq> hash then ErrHashMismatch else burst_collect hash (vec @ [pkt_data p]) ps)"

fun burst_from_packets :: "prepared_packet list \<Rightarrow> packet_write_burst" where
  "burst_from_packets [] = BurstEmpty"
| "burst_from_packets [one] = Mono one"
| "burst_from_packets (one # two # rest) =
     (if pkt_hash two \<noteq> pkt_hash one then ErrHashMismatch
      else burst_collect (pkt_hash one) [pkt_data one, pkt_data two] rest)"

subsection \<open>Facts about sending\<close>

lemma try_send_frame_payload:
  assumes "mpsc_channel ops queue closed capacity" and "t_tx_deferred core = Some q"
    and "msg \<in> {WriteMsg b, WriteMsgBurst bs, WriteReqMsg b i}"
  obtains (sent) q' where "try_send_frame ops core msg = Done (core\<lparr>t_tx_deferred := Some q'\<rparr>, Inr ())"
      "queue q' = queue q @ [msg]" "\<not> closed q"
  | (refused) e where "try_send_frame ops core msg = Done (core\<lparr>t_tx_deferred := Some q\<rparr>, Inl e)"
      "e = (if closed q then TryChannelClosed else TryChannelAtCapacity)"
proof (cases rule: mpsc_channel.try_send_cases [OF assms(1), of q msg, case_names closed full sent])
  case closed
  then show ?thesis using refused [OF _ refl] assms(2,3) by (auto simp: try_send_frame_def sender_tx_def)
next
  case full
  then show ?thesis using refused [OF _ refl] assms(2,3) by (auto simp: try_send_frame_def sender_tx_def)
next
  case (sent q')
  then show ?thesis using that(1) [of q'] assms(2) by (simp add: try_send_frame_def sender_tx_def)
qed

lemma try_send_frame_closed:
  assumes "mpsc_channel ops queue closed capacity" and "t_tx_deferred core = Some q" and "closed q"
  shows "try_send_frame ops core msg = Done (core\<lparr>t_tx_deferred := Some q\<rparr>, Inl TryChannelClosed)"
  using assms by (simp add: try_send_frame_def sender_tx_def mpsc_channel.try_send_closed)

lemma send_frame_closed:
  assumes "mpsc_channel ops queue closed capacity" and "t_tx_deferred core = Some q" and "closed q"
  shows "send_frame ops core msg =
    Done (Ready_now (core\<lparr>t_tx_deferred := Some q\<rparr>, Inl SendChannelClosed))"
  using assms by (simp add: send_frame_def sender_tx_def mpsc_channel.send_closed)

text \<open>The retry loop registers the identifier it returns, and nothing else.\<close>

definition registers ::
  "request_context \<Rightarrow> (encode_error + receive_response) option \<Rightarrow> request_context \<Rightarrow> bool" where
  "registers c r c' \<longleftrightarrow>
     table_ok c' \<and> expired c' = expired c \<and>
     (case r of
        Some (Inr rr) \<Rightarrow> \<exists>h. rr = receive_response_new h \<and> map_of (wait_list c) (rcv_id h) = None \<and>
          wait_list c' = (rcv_id h, rcv_obj h) # wait_list c
      | _ \<Rightarrow> wait_list c' = wait_list c)"

lemma encode_request_loop_registers:
  "table_ok c \<Longrightarrow> encode_request_loop n codec rnd g meth params c buf = (c', buf', g', r) \<Longrightarrow>
     registers c r c'"
proof (induction n arbitrary: c g buf)
  case 0
  then show ?case by (auto simp: registers_def)
next
  case (Suc n)
  show ?case
  proof (cases "expired c")
    case True
    then show ?thesis using Suc.prems by (auto simp: registers_def)
  next
    case False
    obtain i g1 where gen: "request_id_generate rnd g = (i, g1)" by fastforce
    obtain buf1 res where enc: "encode_request codec i meth params buf = (buf1, res)" by fastforce
    show ?thesis
    proof (cases res)
      case (Inl e)
      then show ?thesis using Suc.prems False gen enc by (auto simp: registers_def)
    next
      case (Inr actual)
      obtain c1 o1 where al: "try_allocate_new_request c actual = (c1, o1)" by fastforce
      show ?thesis
      proof (cases o1)
        case None
        note c1 = try_allocate_None(1) [OF al [unfolded None]]
        have "encode_request_loop n codec rnd g1 meth params c1 buf1 = (c', buf', g', r)"
          using Suc.prems(2) False gen enc Inr al None by simp
        then have "registers c1 r c'"
          using Suc.IH table_ok_new_waiter [OF Suc.prems(1)] c1 by blast
        then show ?thesis using c1
          by (auto simp: registers_def split: option.splits sum.splits)
      next
        case (Some h)
        note alloc = try_allocate_Some [OF al [unfolded Some]]
        have "c' = c1" "r = Some (Inr (receive_response_new h))"
          using Suc.prems(2) False gen enc Inr al Some by simp_all
        then show ?thesis
          using table_ok_allocated [OF Suc.prems(1) alloc(3)] alloc by (auto simp: registers_def)
      qed
    qed
  qed
qed

lemma request_encode_registers:
  assumes "core_reqs core = Some c" and "table_ok c"
  obtains c1 buf1 g1 r where
    "request_encode core rnd g buf meth params = Done (core\<lparr>core_reqs := Some c1\<rparr>, buf1, g1, r)"
    "registers c r c1"
proof -
  obtain c1 buf1 g1 r where
    l: "encode_request_loop max_retry_heuristic (core_codec core) rnd g meth params c [] = (c1, buf1, g1, r)"
    by (metis prod_cases4)
  have "request_encode core rnd g buf meth params = Done (core\<lparr>core_reqs := Some c1\<rparr>, buf1, g1, r)"
    using assms(1) l by (simp add: request_encode_def sender_reqs_def)
  then show thesis using that encode_request_loop_registers [OF assms(2) l] by blast
qed

text \<open>Dropping the future of a request that was just registered restores the table.\<close>

lemma drop_unsent_restores:
  assumes "core_reqs core = Some c1" and "registers c (Some (Inr rr)) c1"
  obtains c2 where "drop_unsent core rr = Done (core\<lparr>core_reqs := Some c2\<rparr>)"
    "wait_list c2 = wait_list c" "table_ok c2" "expired c2 = expired c"
proof -
  obtain h where h: "rr = receive_response_new h" "map_of (wait_list c) (rcv_id h) = None"
    "wait_list c1 = (rcv_id h, rcv_obj h) # wait_list c" "table_ok c1" "expired c1 = expired c"
    using assms(2) by (auto simp: registers_def)
  then have reg: "(rcv_id h, rcv_obj h) \<in> set (wait_list c1)" by simp
  have "filter (\<lambda>(k', _). k' \<noteq> rcv_id h) (wait_list c) = wait_list c"
    using h(2) by (force simp: filter_id_conv map_of_eq_None_iff)
  then have "wait_list (unregistered h c1) = wait_list c"
    by (simp add: h(3) alist_remove_def)
  moreover have "table_ok (unregistered h c1)"
    using h(4) reg by (rule table_ok_unregistered) simp_all
  moreover have "drop_unsent core rr = Done (core\<lparr>core_reqs := Some (unregistered h c1)\<rparr>)"
    using assms(1) reg h(1)
    by (simp add: drop_unsent_def sender_reqs_def rr_drop_registered receive_response_new_def)
  ultimately show thesis using that h(5) by simp
qed

lemma try_send_request_cases:
  assumes "mpsc_channel ops queue closed capacity"
    and "core_reqs core = Some c" and "table_ok c" and "t_tx_deferred core = Some q"
  shows "\<exists>core' buf' g' r c' q'.
    try_send_request ops core rnd g buf meth params = Done (core', buf', g', r) \<and>
    core_reqs core' = Some c' \<and> t_tx_deferred core' = Some q' \<and> table_ok c' \<and>
    (case r of
       Inr resp \<Rightarrow> \<exists>h frame. resp = receive_response_new h \<and>
         map_of (wait_list c) (rcv_id h) = None \<and>
         wait_list c' = (rcv_id h, rcv_obj h) # wait_list c \<and>
         queue q' = queue q @ [WriteReqMsg frame (rcv_id h)]
     | Inl e \<Rightarrow> wait_list c' = wait_list c \<and> queue q' = queue q)"
proof -
  obtain c1 buf1 g1 r where
    enc: "request_encode core rnd g buf meth params = Done (core\<lparr>core_reqs := Some c1\<rparr>, buf1, g1, r)"
    and reg: "registers c r c1"
    using request_encode_registers [OF assms(2,3)] .
  let ?core1 = "core\<lparr>core_reqs := Some c1\<rparr>"
  consider "r = None" | e where "r = Some (Inl e)" | resp where "r = Some (Inr resp)"
    by (metis option.exhaust sum.exhaust_sel)
  then show ?thesis
  proof cases
    case 3
    obtain h where h: "resp = receive_response_new h" "map_of (wait_list c) (rcv_id h) = None"
      "wait_list c1 = (rcv_id h, rcv_obj h) # wait_list c" "table_ok c1"
      using reg 3 by (auto simp: registers_def)
    have tx: "t_tx_deferred ?core1 = Some q" using assms(4) by simp
    show ?thesis
    proof (cases rule: try_send_frame_payload [OF assms(1) tx, of "WriteReqMsg buf1 (rcv_id h)",
          case_names member sent refused])
      case (sent q')
      then show ?thesis
        using h by (auto simp: try_send_request_def enc 3 rr_request_id_def)
    next
      case (refused e)
      obtain c2 where "drop_unsent (?core1\<lparr>t_tx_deferred := Some q\<rparr>) resp =
          Done (?core1\<lparr>t_tx_deferred := Some q, core_reqs := Some c2\<rparr>)"
        "wait_list c2 = wait_list c" "table_ok c2"
        using drop_unsent_restores [of "?core1\<lparr>t_tx_deferred := Some q\<rparr>" c1 c resp] reg 3 by auto
      then show ?thesis
        using refused(1) h(1) by (auto simp: try_send_request_def enc 3 rr_request_id_def)
    qed auto
  qed (use reg assms(4) in \<open>auto simp: try_send_request_def enc registers_def\<close>)
qed

subsection \<open>Properties\<close>

text \<open>C12: Sending a request is all or nothing, with any channel that keeps the channel contract
  and any codec: \<open>try_send_request\<close> never panics; on success exactly one identifier is
  added to the request table and exactly one write directive, carrying that identifier,
  is appended to the channel; on any error both the table and the channel are as before,
  so a request that was not sent leaks no table entry.\<close>

theorem try_send_request_atomic:
  assumes "mpsc_channel ops queue closed capacity"
    and "core_reqs core = Some c" and "table_ok c" and "t_tx_deferred core = Some q"
  shows "\<exists>core' buf' g' r c' q'.
    try_send_request ops core rnd g buf meth params = Done (core', buf', g', r) \<and>
    core_reqs core' = Some c' \<and> t_tx_deferred core' = Some q' \<and> table_ok c' \<and>
    (case r of
       Inr resp \<Rightarrow> \<exists>h frame. resp = receive_response_new h \<and>
         map_of (wait_list c) (rcv_id h) = None \<and>
         wait_list c' = (rcv_id h, rcv_obj h) # wait_list c \<and>
         queue q' = queue q @ [WriteReqMsg frame (rcv_id h)]
     | Inl e \<Rightarrow> wait_list c' = wait_list c \<and> queue q' = queue q)"
  by (rule try_send_request_cases [OF assms])

text \<open>
  Concrete inputs for the witnesses: a codec that appends the identifier, the method and
  the parameters to the buffer, and a connection with one pending request.
\<close>

definition plain_codec :: "(bytes, bytes) codec" where
  "plain_codec =
     \<lparr>codec_reusability_id = 1,
      encode_notify = (\<lambda>m p b. (b @ m @ p, Inr ())),
      encode_request = (\<lambda>i m p b. (b @ u64_to_le (request_id_value i) @ m @ p, Inr i)),
      encode_response = (\<lambda>i r b. (b @ i, Inr ())),
      payload_deserializer = Inr,
      decode_inbound = (\<lambda>s f. Done (s, f, Inl InvalidFormat)),
      restore_request_id = (\<lambda>i. Inr (RequestId (u64_from_le i)))\<rparr>"

definition table_one :: request_context where
  "table_one = ctx session_one"

definition core_one :: "nat option \<Rightarrow> (bytes, bytes, writer_directive fifo, unit) rpc_core" where
  "core_one cap =
     \<lparr>core_codec = plain_codec, core_user_data = (), core_reqs = Some table_one,
      t_tx_deferred = Some (fifo_new cap), wake_on_drop = None\<rparr>"

definition count_up :: "u64 \<Rightarrow> u64 \<times> u64" where
  "count_up n = (n, n + 1)"

lemma table_one_simps [simp]:
  "wait_list table_one = [(RequestId 7, 0)]" "\<not> expired table_one" "table_ok table_one"
  by (simp_all add: table_one_def session_one_def table_ok_def)

lemma core_one_simps [simp]:
  "core_codec (core_one cap) = plain_codec" "core_reqs (core_one cap) = Some table_one"
  "t_tx_deferred (core_one cap) = Some (fifo_new cap)"
  by (simp_all add: core_one_def)

theorem try_send_request_atomic_witness:
  "\<exists>core' buf' g' r c'. try_send_request fifo_ops (core_one (Some 0)) count_up 8 [] [1] [2] =
      Done (core', buf', g', r) \<and> core_reqs core' = Some c' \<and>
    (case r of Inr resp \<Rightarrow> True | Inl e \<Rightarrow> wait_list c' = [(RequestId 7, 0)])"
  using try_send_request_atomic [OF fifo.mpsc_channel_axioms, of "core_one (Some 0)" table_one
      "fifo_new (Some 0)" count_up 8 "[]" "[1]" "[2]"]
  by (fastforce split: sum.splits)

text \<open>When a drawn request identifier is already in use, the retry encodes the request again
  behind the first encoding, because the buffer is cleared before the retry loop only:
  with an appending codec the frame that is sent holds both encodings, the stale one with
  the colliding identifier first.\<close>

theorem retry_keeps_stale_encoding:
  assumes "core_reqs core = Some c" and "\<not> expired c"
    and "\<And>i b. encode_request (core_codec core) i meth params b = (b @ enc i, Inr i)"
    and "rnd g0 = (v1, g1)" and "rnd g1 = (v2, g2)"
    and "map_of (wait_list c) (RequestId v1) \<noteq> None"
    and "map_of (wait_list c) (RequestId v2) = None"
  shows "\<exists>core' h. request_encode core rnd g0 buf meth params =
      Done (core', enc (RequestId v1) @ enc (RequestId v2), g2, Some (Inr (receive_response_new h))) \<and>
    rcv_id h = RequestId v2"
  using assms
  by (auto simp: request_encode_def sender_reqs_def max_retry_heuristic_def eval_nat_numeral
      request_id_generate_def try_allocate_new_request_def Let_def)

theorem retry_keeps_stale_encoding_witness:
  "\<exists>core' h. request_encode (core_one None) count_up 7 [] [1] [2] =
      Done (core', [7, 0, 0, 0, 0, 0, 0, 0, 1, 2, 8, 0, 0, 0, 0, 0, 0, 0, 1, 2], 9,
        Some (Inr (receive_response_new h))) \<and>
    rcv_id h = RequestId 8"
  using retry_keeps_stale_encoding [of "core_one None" table_one "[1]" "[2]"
      "\<lambda>i. u64_to_le (request_id_value i) @ [1, 2]" count_up 7 7 8 8 9 "[]"]
  by (simp add: count_up_def plain_codec_def u64_to_le_def upt_rec)

text \<open>C20: Shutting the writer down is final: after a successful \<open>try_shutdown_writer\<close> the directive
  is queued behind every message sent before it, the channel is closed, and every later
  notification or request frame, blocking or not, is refused with \<open>ChannelClosed\<close> without
  touching the queue.\<close>

theorem shutdown_refuses_later_frames:
  assumes "mpsc_channel ops queue closed capacity" and "t_tx_deferred core = Some q"
    and "try_shutdown_writer ops core discard = Done (core', Inr ())"
  shows "\<exists>q'. t_tx_deferred core' = Some q' \<and> closed q' \<and>
      queue q' = queue q @ [if discard then CloseImmediately else CloseAfterFlush] \<and>
      try_send_frame ops core' msg = Done (core', Inl TryChannelClosed) \<and>
      send_frame ops core' msg = Done (Ready_now (core', Inl SendChannelClosed))"
proof -
  obtain q1 where q1: "ch_try_send ops q (shutdown_directive discard) = (q1, Inr ())"
    and core': "core' = core\<lparr>t_tx_deferred := Some (ch_close ops q1)\<rparr>"
    using assms(2,3) by (auto simp: try_shutdown_writer_def sender_tx_def split: prod.splits sum.splits)
  have "queue q1 = queue q @ [shutdown_directive discard]"
    using mpsc_channel.try_send_queue [OF assms(1) q1] by simp
  then show ?thesis
    using core' try_send_frame_closed [OF assms(1), of core' _ msg]
      send_frame_closed [OF assms(1), of core' _ msg] mpsc_channel.close [OF assms(1), of q1]
    by (simp add: shutdown_directive_def)
qed

theorem shutdown_refuses_later_frames_witness:
  "\<exists>core' q'. try_shutdown_writer fifo_ops (core_one None) False = Done (core', Inr ()) \<and>
     t_tx_deferred core' = Some q' \<and> fifo_items q' = [CloseAfterFlush] \<and>
     try_send_frame fifo_ops core' (WriteMsg [1]) = Done (core', Inl TryChannelClosed)"
proof -
  let ?core = "(core_one None)\<lparr>t_tx_deferred :=
    Some \<lparr>fifo_items = [CloseAfterFlush], fifo_closed = True, fifo_cap = None\<rparr>\<rparr>"
  have ok: "try_shutdown_writer fifo_ops (core_one None) False = Done (?core, Inr ())"
    by (simp add: try_shutdown_writer_def sender_tx_def fifo_ops_def fifo_new_def
        shutdown_directive_def has_room_def)
  show ?thesis
    using ok shutdown_refuses_later_frames [OF fifo.mpsc_channel_axioms _ ok, of "fifo_new None" "WriteMsg [1]"]
    by (auto simp: fifo_new_def)
qed

subsection \<open>Broadcasting\<close>

lemma burst_collect_eq:
  "burst_collect hash vec ps =
     (if \<forall>p\<in>set ps. pkt_hash p = hash then Burst hash (vec @ map pkt_data ps) else ErrHashMismatch)"
  by (induction ps arbitrary: vec) auto

text \<open>Broadcasting a list of prepared packets sends all of them, in order and counted, exactly
  when every packet was prepared by a codec with this connection's reusability id; a
  single packet of another codec makes the whole burst fail with \<open>NotReusable\<close>, and an
  empty list sends nothing.\<close>

theorem burst_from_packets_spec:
  "burst_into_directive codec (burst_from_packets ps) =
     (if ps = [] then Inr None
      else if list_all (\<lambda>p. pkt_hash p = codec_reusability_id codec) ps
        then Inr (Some (length ps,
               if length ps = 1 then WriteMsg (pkt_data (hd ps)) else WriteMsgBurst (map pkt_data ps)))
      else Inl NotReusable)"
  by (cases ps rule: burst_from_packets.cases)
    (auto simp: burst_into_directive_def burst_collect_eq list_all_iff)

end
