(* ===== verification/Writer.thy ===== *)
theory Writer
  imports Sender
begin

text \<open>
  The writer task of \<open>src/rpc/core.rs\<close> (\<open>write_runner\<close>) over the transport interface
  \<open>AsyncFrameWrite\<close> of \<open>src/io.rs\<close>. The transport is supplied by the user of the crate: a
  record of its four operations, each a function from the transport's state to the new
  state and the result of the I/O. The task owns the transport and the receiving end of
  the channel, and a weak handle to the connection's core: upgrading it fails once every
  strong handle is gone, and the core may have the request feature disabled.
\<close>

subsection \<open>The transport\<close>

datatype io_error = IoError string

record 'w frame_writer =
  fw_write_frame :: "'w \<Rightarrow> bytes \<Rightarrow> 'w \<times> (io_error + unit)"
  fw_write_frame_burst :: "'w \<Rightarrow> bytes list \<Rightarrow> 'w \<times> (io_error + unit)"
  fw_flush :: "'w \<Rightarrow> 'w \<times> (io_error + unit)"
  fw_close :: "'w \<Rightarrow> 'w \<times> (io_error + unit)"

text \<open>The provided methods of the trait: a burst writes frame by frame up to the first error.\<close>

fun default_write_frame_burst ::
  "('w \<Rightarrow> bytes \<Rightarrow> 'w \<times> (io_error + unit)) \<Rightarrow> 'w \<Rightarrow> bytes list \<Rightarrow> 'w \<times> (io_error + unit)" where
  "default_write_frame_burst put w [] = (w, Inr ())"
| "default_write_frame_burst put w (b # bs) =
     (case put w b of
        (w', Inl e) \<Rightarrow> (w', Inl e)
      | (w', Inr _) \<Rightarrow> default_write_frame_burst put w' bs)"

definition default_flush :: "'w \<Rightarrow> 'w \<times> (io_error + unit)" where
  "default_flush w = (w, Inr ())"

definition default_close :: "'w \<Rightarrow> 'w \<times> (io_error + unit)" where
  "default_close w = (w, Inr ())"

definition default_writer :: "('w \<Rightarrow> bytes \<Rightarrow> 'w \<times> (io_error + unit)) \<Rightarrow> 'w frame_writer" where
  "default_writer put =
     \<lparr>fw_write_frame = put, fw_write_frame_burst = default_write_frame_burst put,
      fw_flush = default_flush, fw_close = default_close\<rparr>"

subsection \<open>The task\<close>

datatype write_runner_exit = AllHandleDropped | ManualCloseImmediate | ManualClose

datatype write_runner_error =
  WriterCloseFailed io_error | WriterFlushFailed io_error | WriteFailed io_error

type_synonym write_runner_result = "write_runner_error + write_runner_exit"

text \<open>
  \<open>w_ctx\<close> is what upgrading the weak handle gives: \<open>None\<close> when the core is gone, \<open>Some None\<close>
  when it has no request context.
\<close>

record ('w, 'q) runner =
  writer :: 'w
  rx_directive :: 'q
  w_ctx :: "request_context option option"
  exit_type :: write_runner_exit

definition runner_new :: "'w \<Rightarrow> 'q \<Rightarrow> request_context option option \<Rightarrow> ('w, 'q) runner" where
  "runner_new w q up =
     \<lparr>writer = w, rx_directive = q, w_ctx = up, exit_type = AllHandleDropped\<rparr>"

text \<open>One directive: \<open>None\<close> lets the loop go on, \<open>Some r\<close> ends the block with the result \<open>r\<close>.\<close>

fun handle_directive ::
  "'w frame_writer \<Rightarrow> ('q, writer_directive) chan_ops \<Rightarrow> ('w, 'q) runner \<Rightarrow> writer_directive
   \<Rightarrow> (('w, 'q) runner \<times> write_runner_result option) outcome" where
  "handle_directive wr ops st CloseImmediately =
     (let st1 = st\<lparr>rx_directive := ch_close ops (rx_directive st)\<rparr> in
      case fw_close wr (writer st1) of
        (w, Inl e) \<Rightarrow> Done (st1\<lparr>writer := w\<rparr>, Some (Inl (WriterCloseFailed e)))
      | (w, Inr _) \<Rightarrow> Done (st1\<lparr>writer := w\<rparr>, Some (Inr ManualCloseImmediate)))"
| "handle_directive wr ops st CloseAfterFlush =
     Done (st\<lparr>rx_directive := ch_close ops (rx_directive st), exit_type := ManualClose\<rparr>, None)"
| "handle_directive wr ops st Flush =
     (case fw_flush wr (writer st) of
        (w, Inl e) \<Rightarrow> Done (st\<lparr>writer := w\<rparr>, Some (Inl (WriterFlushFailed e)))
      | (w, Inr _) \<Rightarrow> Done (st\<lparr>writer := w\<rparr>, None))"
| "handle_directive wr ops st (WriteMsg payload) =
     (case fw_write_frame wr (writer st) payload of
        (w, Inl e) \<Rightarrow> Done (st\<lparr>writer := w\<rparr>, Some (Inl (WriteFailed e)))
      | (w, Inr _) \<Rightarrow> Done (st\<lparr>writer := w\<rparr>, None))"
| "handle_directive wr ops st (WriteMsgBurst chunks) =
     (case fw_write_frame_burst wr (writer st) chunks of
        (w, Inl e) \<Rightarrow> Done (st\<lparr>writer := w\<rparr>, Some (Inl (WriteFailed e)))
      | (w, Inr _) \<Rightarrow> Done (st\<lparr>writer := w\<rparr>, None))"
| "handle_directive wr ops st (WriteReqMsg payload i) =
     (case fw_write_frame wr (writer st) payload of
        (w, result) \<Rightarrow>
          (let st1 = st\<lparr>writer := w\<rparr> in
           case w_ctx st1 of
             None \<Rightarrow> Done (st1, None)
           | Some reqs \<Rightarrow>
               obind (unwrap reqs) (\<lambda>c.
                 case result of
                   Inl e \<Rightarrow> Done (st1\<lparr>w_ctx := Some (Some (set_request_write_failed c i))\<rparr>,
                                   Some (Inl (WriteFailed e)))
                 | Inr _ \<Rightarrow> Done (st1, None))))"

text \<open>After the receive loop: the transport is closed only for \<open>ManualCloseImmediate\<close>.\<close>

definition after_loop ::
  "'w frame_writer \<Rightarrow> ('w, 'q) runner \<Rightarrow> ('w, 'q) runner \<times> write_runner_result" where
  "after_loop wr st =
     (if exit_type st = ManualCloseImmediate then
        (case fw_close wr (writer st) of
           (w, Inl e) \<Rightarrow> (st\<lparr>writer := w\<rparr>, Inl (WriterCloseFailed e))
         | (w, Inr _) \<Rightarrow> (st\<lparr>writer := w\<rparr>, Inr (exit_type st)))
      else (st, Inr (exit_type st)))"

text \<open>After the block, whatever its result: close the channel and expire the pending requests.\<close>

definition epilogue ::
  "('q, writer_directive) chan_ops \<Rightarrow> ('w, 'q) runner \<Rightarrow> ('w, 'q) runner" where
  "epilogue ops st =
     (case w_ctx st of
        Some (Some c) \<Rightarrow>
          st\<lparr>rx_directive := ch_close ops (rx_directive st), w_ctx := Some (Some (mark_expired c))\<rparr>
      | _ \<Rightarrow> st)"

text \<open>
  \<open>Waiting\<close> is a task suspended on an empty open channel. The loop is unfolded with fuel: one
  unit for each directive and one for the end of the channel.
\<close>

datatype 'r task_status = Waiting | Returned 'r

fun runner_loop ::
  "nat \<Rightarrow> 'w frame_writer \<Rightarrow> ('q, writer_directive) chan_ops \<Rightarrow> ('w, 'q) runner
   \<Rightarrow> (('w, 'q) runner \<times> write_runner_result task_status) outcome option" where
  "runner_loop 0 wr ops st = None"
| "runner_loop (Suc n) wr ops st =
     (case ch_recv ops (rx_directive st) of
        Pending \<Rightarrow> Some (Done (st, Waiting))
      | Ready_now (q, Inl _) \<Rightarrow>
          (case after_loop wr (st\<lparr>rx_directive := q\<rparr>) of
             (st', r) \<Rightarrow> Some (Done (st', Returned r)))
      | Ready_now (q, Inr msg) \<Rightarrow>
          (case handle_directive wr ops (st\<lparr>rx_directive := q\<rparr>) msg of
             Done (st', None) \<Rightarrow> runner_loop n wr ops st'
           | Done (st', Some r) \<Rightarrow> Some (Done (st', Returned r))
           | Panic \<Rightarrow> Some Panic
           | Undef \<Rightarrow> Some Undef))"

definition write_runner ::
  "nat \<Rightarrow> 'w frame_writer \<Rightarrow> ('q, writer_directive) chan_ops \<Rightarrow> ('w, 'q) runner
   \<Rightarrow> (('w, 'q) runner \<times> write_runner_result task_status) outcome option" where
  "write_runner fuel wr ops st =
     map_option (\<lambda>out. obind out (\<lambda>(st', r).
        case r of Waiting \<Rightarrow> Done (st', Waiting) | Returned x \<Rightarrow> Done (epilogue ops st', Returned x)))
       (runner_loop fuel wr ops st)"

subsection \<open>What the task promises: a list interpreter\<close>

text \<open>
  The abstract task: it works through the list of directives that reach it, with \<open>cl\<close> saying
  whether the channel ends after the last one. No channel, no fuel.
\<close>

fun deliver ::
  "'w frame_writer \<Rightarrow> bool \<Rightarrow> 'w \<Rightarrow> request_context option option \<Rightarrow> write_runner_exit
   \<Rightarrow> writer_directive list
   \<Rightarrow> ('w \<times> request_context option option \<times> write_runner_result task_status) outcome" where
  "deliver wr cl w up ex [] = Done (w, up, if cl then Returned (Inr ex) else Waiting)"
| "deliver wr cl w up ex (CloseImmediately # ds) =
     (let (w', r) = fw_close wr w in
      Done (w', up, Returned (case r of Inl e \<Rightarrow> Inl (WriterCloseFailed e)
                              | Inr _ \<Rightarrow> Inr ManualCloseImmediate)))"
| "deliver wr cl w up ex (CloseAfterFlush # ds) = deliver wr True w up ManualClose ds"
| "deliver wr cl w up ex (Flush # ds) =
     (let (w', r) = fw_flush wr w in
      case r of Inl e \<Rightarrow> Done (w', up, Returned (Inl (WriterFlushFailed e)))
      | Inr _ \<Rightarrow> deliver wr cl w' up ex ds)"
| "deliver wr cl w up ex (WriteMsg b # ds) =
     (let (w', r) = fw_write_frame wr w b in
      case r of Inl e \<Rightarrow> Done (w', up, Returned (Inl (WriteFailed e)))
      | Inr _ \<Rightarrow> deliver wr cl w' up ex ds)"
| "deliver wr cl w up ex (WriteMsgBurst bs # ds) =
     (let (w', r) = fw_write_frame_burst wr w bs in
      case r of Inl e \<Rightarrow> Done (w', up, Returned (Inl (WriteFailed e)))
      | Inr _ \<Rightarrow> deliver wr cl w' up ex ds)"
| "deliver wr cl w up ex (WriteReqMsg b i # ds) =
     (let (w', r) = fw_write_frame wr w b in
      case up of
        None \<Rightarrow> deliver wr cl w' up ex ds
      | Some None \<Rightarrow> Panic
      | Some (Some c) \<Rightarrow>
          (case r of
             Inl e \<Rightarrow> Done (w', Some (Some (set_request_write_failed c i)), Returned (Inl (WriteFailed e)))
           | Inr _ \<Rightarrow> deliver wr cl w' up ex ds))"

definition abs_run ::
  "('w, 'q) runner \<times> 'r \<Rightarrow> 'w \<times> request_context option option \<times> 'r" where
  "abs_run = (\<lambda>(st, r). (writer st, w_ctx st, r))"

lemma after_loop_normal:
  "exit_type st \<noteq> ManualCloseImmediate \<Longrightarrow> after_loop wr st = (st, Inr (exit_type st))"
  by (simp add: after_loop_def)

lemma runner_loop_refines:
  assumes "mpsc_channel ops queue closed capacity"
  shows "queue (rx_directive st) = ds \<Longrightarrow> exit_type st \<noteq> ManualCloseImmediate \<Longrightarrow> length ds < n \<Longrightarrow>
    \<exists>out. runner_loop n wr ops st = Some out \<and>
      map_outcome abs_run out =
        deliver wr (closed (rx_directive st)) (writer st) (w_ctx st) (exit_type st) ds"
proof (induction ds arbitrary: n st)
  case Nil
  then obtain m where n: "n = Suc m" by (cases n) auto
  show ?case
  proof (cases "closed (rx_directive st)")
    case True
    have "exit_type (st\<lparr>rx_directive := rx_directive st\<rparr>) \<noteq> ManualCloseImmediate"
      using Nil.prems(2) by simp
    then show ?thesis
      using mpsc_channel.recv_closed [OF assms Nil.prems(1) True] True
      by (simp add: n after_loop_normal abs_run_def)
  next
    case False
    then show ?thesis
      using mpsc_channel.recv_empty [OF assms Nil.prems(1) False] by (simp add: n abs_run_def)
  qed
next
  case (Cons d ds)
  then obtain m where n: "n = Suc m" "length ds < m" by (cases n) auto
  obtain q where recv: "ch_recv ops (rx_directive st) = Ready_now (q, Inr d)"
    and q: "queue q = ds" "closed q = closed (rx_directive st)"
    using mpsc_channel.recv_msg [OF assms Cons.prems(1)] by blast
  note cl = mpsc_channel.close [OF assms, of q]
  have step: "\<And>st'. queue (rx_directive st') = ds \<Longrightarrow> exit_type st' \<noteq> ManualCloseImmediate \<Longrightarrow>
      \<exists>out. runner_loop m wr ops st' = Some out \<and> map_outcome abs_run out =
        deliver wr (closed (rx_directive st')) (writer st') (w_ctx st') (exit_type st') ds"
    using Cons.IH n(2) by blast
  show ?case
  proof (cases d)
    case CloseImmediately
    then show ?thesis using cl
      by (auto simp: n recv Let_def abs_run_def split: prod.splits sum.splits)
  next
    case CloseAfterFlush
    then show ?thesis
      using step [of "st\<lparr>rx_directive := ch_close ops q, exit_type := ManualClose\<rparr>"] q cl
      by (auto simp: n recv)
  next
    case Flush
    then show ?thesis
      using step [of "st\<lparr>rx_directive := q, writer := fst (fw_flush wr (writer st))\<rparr>"] q Cons.prems(2)
      by (auto simp: n recv abs_run_def split: prod.splits sum.splits)
  next
    case (WriteMsg b)
    then show ?thesis
      using step [of "st\<lparr>rx_directive := q, writer := fst (fw_write_frame wr (writer st) b)\<rparr>"]
        q Cons.prems(2)
      by (auto simp: n recv abs_run_def split: prod.splits sum.splits)
  next
    case (WriteMsgBurst bs)
    then show ?thesis
      using step [of "st\<lparr>rx_directive := q, writer := fst (fw_write_frame_burst wr (writer st) bs)\<rparr>"]
        q Cons.prems(2)
      by (auto simp: n recv abs_run_def split: prod.splits sum.splits)
  next
    case (WriteReqMsg b i)
    then show ?thesis
      using step [of "st\<lparr>rx_directive := q, writer := fst (fw_write_frame wr (writer st) b)\<rparr>"]
        q Cons.prems(2)
      by (auto simp: n recv abs_run_def Let_def split: prod.splits sum.splits option.splits)
  qed
qed

definition expire_after ::
  "'w \<times> request_context option option \<times> 'r task_status
   \<Rightarrow> 'w \<times> request_context option option \<times> 'r task_status" where
  "expire_after = (\<lambda>(w, up, r).
     (w, case r of Waiting \<Rightarrow> up | Returned _ \<Rightarrow> map_option (map_option mark_expired) up, r))"

lemma epilogue_fields [simp]:
  "writer (epilogue ops st) = writer st"
  "w_ctx (epilogue ops st) = map_option (map_option mark_expired) (w_ctx st)"
  by (simp_all add: epilogue_def split: option.splits)

lemma epilogue_abs:
  "map_outcome abs_run (obind out (\<lambda>(st', r).
      case r of Waiting \<Rightarrow> Done (st', Waiting) | Returned x \<Rightarrow> Done (epilogue ops st', Returned x))) =
   map_outcome expire_after (map_outcome abs_run out)"
  by (cases out) (auto simp: abs_run_def expire_after_def split: task_status.splits)

lemma runner_loop_close_unused:
  assumes "mpsc_channel ops queue closed capacity"
  shows "CloseImmediately \<notin> set (queue (rx_directive st)) \<Longrightarrow> exit_type st \<noteq> ManualCloseImmediate \<Longrightarrow>
    runner_loop n (wr\<lparr>fw_close := f\<rparr>) ops st = runner_loop n wr ops st"
proof (induction n arbitrary: st)
  case 0
  then show ?case by simp
next
  case (Suc n)
  show ?case
  proof (cases rule: mpsc_channel.recv_cases [OF assms, of "rx_directive st", case_names msg ended waiting])
    case (msg m ms q)
    have m: "m \<noteq> CloseImmediately" using msg Suc.prems(1) by auto
    then have same: "handle_directive (wr\<lparr>fw_close := f\<rparr>) ops st0 m = handle_directive wr ops st0 m"
      for st0
      by (cases m) auto
    have keep: "CloseImmediately \<notin> set (queue (rx_directive st1)) \<and> exit_type st1 \<noteq> ManualCloseImmediate"
      if "handle_directive wr ops (st\<lparr>rx_directive := q\<rparr>) m = Done (st1, None)" for st1
      using that m msg Suc.prems mpsc_channel.close [OF assms, of q]
      by (cases m) (auto simp: Let_def obind_Done_iff dest: sum_unit_exhausted
          split: prod.splits sum.splits option.splits)
    show ?thesis using Suc.IH keep
      by (auto simp: msg(2) same split: outcome.splits option.splits)
  qed (use Suc.prems(2) in \<open>simp_all add: after_loop_normal\<close>)
qed

subsection \<open>Properties\<close>

lemma write_runner_refines_deliver_out:
  assumes "mpsc_channel ops queue closed capacity"
    and "exit_type st \<noteq> ManualCloseImmediate" and "length (queue (rx_directive st)) < n"
  shows "\<exists>out. write_runner n wr ops st = Some out \<and>
    map_outcome abs_run out = map_outcome expire_after
      (deliver wr (closed (rx_directive st)) (writer st) (w_ctx st) (exit_type st)
         (queue (rx_directive st)))"
proof -
  obtain out where "runner_loop n wr ops st = Some out"
    and "map_outcome abs_run out = deliver wr (closed (rx_directive st)) (writer st) (w_ctx st)
      (exit_type st) (queue (rx_directive st))"
    using runner_loop_refines [OF assms(1) refl assms(2,3), of wr] by blast
  then show ?thesis by (simp add: write_runner_def epilogue_abs)
qed

text \<open>C13: The writer task terminates on every finite queue and refines the list interpreter: with any
  transport and any channel that keeps the contract, one more unit of fuel than there are
  queued directives suffices, and the transport, the request context and the result are
  those of working through the queued directives in order, with the pending requests
  expired once the task returns.\<close>

theorem write_runner_refines_deliver:
  assumes "mpsc_channel ops queue closed capacity"
    and "exit_type st \<noteq> ManualCloseImmediate" and "length (queue (rx_directive st)) < n"
  shows "\<exists>out. write_runner n wr ops st = Some out \<and>
    map_outcome abs_run out = map_outcome expire_after
      (deliver wr (closed (rx_directive st)) (writer st) (w_ctx st) (exit_type st)
         (queue (rx_directive st)))"
  using assms by (rule write_runner_refines_deliver_out)

text \<open>A transport for the witnesses: it logs what it is asked to write and fails on empty frames.\<close>

definition log_writer :: "bytes list frame_writer" where
  "log_writer = default_writer (\<lambda>w b. if b = [] then (w, Inl (IoError ''empty'')) else (w @ [b], Inr ()))"

definition runner_of :: "writer_directive list \<Rightarrow> bool \<Rightarrow> (bytes list, writer_directive fifo) runner" where
  "runner_of ds cl =
     runner_new [] \<lparr>fifo_items = ds, fifo_closed = cl, fifo_cap = None\<rparr> (Some (Some table_one))"

lemma runner_of_simps [simp]:
  "writer (runner_of ds cl) = []" "w_ctx (runner_of ds cl) = Some (Some table_one)"
  "exit_type (runner_of ds cl) = AllHandleDropped"
  "fifo_items (rx_directive (runner_of ds cl)) = ds"
  "fifo_closed (rx_directive (runner_of ds cl)) = cl"
  by (simp_all add: runner_of_def runner_new_def)

theorem write_runner_refines_deliver_witness:
  "\<exists>out. write_runner 4 log_writer fifo_ops
       (runner_of [WriteMsg [1], CloseAfterFlush, WriteMsgBurst [[2], [3]]] False) = Some out \<and>
     map_outcome abs_run out =
       Done ([[1], [2], [3]], Some (Some (mark_expired table_one)), Returned (Inr ManualClose))"
  using write_runner_refines_deliver [OF fifo.mpsc_channel_axioms, of
      "runner_of [WriteMsg [1], CloseAfterFlush, WriteMsgBurst [[2], [3]]] False" 4 log_writer]
  by (simp add: log_writer_def default_writer_def expire_after_def)

text \<open>C16: However the writer task returns, while the connection's core is alive, it leaves the
  request context expired and the channel closed: no pending request keeps waiting for a
  connection that can no longer send, and no further directive is accepted.\<close>

theorem write_runner_exit_expires:
  assumes "mpsc_channel ops queue closed capacity"
    and "write_runner n wr ops st = Some (Done (st', Returned r))"
    and "w_ctx st' = Some (Some c)"
  shows "expired c \<and> closed (rx_directive st')"
proof -
  obtain st1 where "st' = epilogue ops st1"
    using assms(2)
    by (auto simp: write_runner_def obind_Done_iff split: task_status.splits)
      (metis task_status.exhaust)
  then show ?thesis
    using assms(3) mpsc_channel.close(1) [OF assms(1)] by (auto simp: epilogue_def split: option.splits)
qed

theorem write_runner_exit_expires_witness:
  "\<exists>st' c. write_runner 2 log_writer fifo_ops (runner_of [WriteMsg []] False) =
     Some (Done (st', Returned (Inl (WriteFailed (IoError ''empty''))))) \<and>
     w_ctx st' = Some (Some c) \<and> expired c \<and> fifo_closed (rx_directive st')"
proof -
  obtain st' where run: "write_runner 2 log_writer fifo_ops (runner_of [WriteMsg []] False) =
      Some (Done (st', Returned (Inl (WriteFailed (IoError ''empty'')))))"
    and up: "w_ctx st' = Some (Some (mark_expired table_one))"
    by (simp add: write_runner_def eval_nat_numeral log_writer_def default_writer_def fifo_ops_def
        runner_of_def runner_new_def)
  show ?thesis
    using run up write_runner_exit_expires [OF fifo.mpsc_channel_axioms run up] by blast
qed

fun frames_of :: "writer_directive \<Rightarrow> bytes list" where
  "frames_of (WriteMsg b) = [b]"
| "frames_of (WriteMsgBurst bs) = bs"
| "frames_of (WriteReqMsg b i) = [b]"
| "frames_of _ = []"

definition drain_status ::
  "bool \<Rightarrow> write_runner_exit \<Rightarrow> writer_directive list \<Rightarrow> write_runner_result task_status" where
  "drain_status cl ex ds =
     (if CloseImmediately \<in> set ds then Returned (Inr ManualCloseImmediate)
      else if CloseAfterFlush \<in> set ds then Returned (Inr ManualClose)
      else if cl then Returned (Inr ex) else Waiting)"

text \<open>
  A transport that does not fail, seen by the frames it has taken: \<open>sent\<close>. Flushing and closing
  it may change its state, but not these.
\<close>

definition healthy_writer :: "'w frame_writer \<Rightarrow> ('w \<Rightarrow> bytes list) \<Rightarrow> bool" where
  "healthy_writer wr sent \<longleftrightarrow>
     (\<forall>w b. \<exists>w'. fw_write_frame wr w b = (w', Inr ()) \<and> sent w' = sent w @ [b]) \<and>
     (\<forall>w bs. \<exists>w'. fw_write_frame_burst wr w bs = (w', Inr ()) \<and> sent w' = sent w @ bs) \<and>
     (\<forall>w. \<exists>w'. fw_flush wr w = (w', Inr ()) \<and> sent w' = sent w) \<and>
     (\<forall>w. \<exists>w'. fw_close wr w = (w', Inr ()) \<and> sent w' = sent w)"

lemma default_burst_sent:
  assumes "\<And>w b. \<exists>w'. put w b = (w', Inr ()) \<and> sent w' = sent w @ [b]"
  shows "\<exists>w'. default_write_frame_burst put w bs = (w', Inr ()) \<and> sent w' = sent w @ bs"
proof (induction bs arbitrary: w)
  case (Cons b bs)
  obtain w1 where "put w b = (w1, Inr ())" "sent w1 = sent w @ [b]" using assms by blast
  then show ?case using Cons.IH [of w1] by auto
qed simp

text \<open>With the provided methods of the trait, writing single frames is all that has to succeed.\<close>

lemma healthy_default_writer:
  assumes "\<And>w b. \<exists>w'. put w b = (w', Inr ()) \<and> sent w' = sent w @ [b]"
  shows "healthy_writer (default_writer put) sent"
  using assms default_burst_sent [of put sent, OF assms]
  by (simp add: healthy_writer_def default_writer_def default_flush_def default_close_def)

lemma healthy_writerE:
  assumes "healthy_writer wr sent"
  obtains w1 w2 w3 w4 where "fw_write_frame wr w b = (w1, Inr ())" "sent w1 = sent w @ [b]"
    "fw_write_frame_burst wr w bs = (w2, Inr ())" "sent w2 = sent w @ bs"
    "fw_flush wr w = (w3, Inr ())" "sent w3 = sent w" "fw_close wr w = (w4, Inr ())" "sent w4 = sent w"
  using assms unfolding healthy_writer_def by metis

lemma deliver_healthy:
  assumes "healthy_writer wr sent"
  shows "up = Some None \<longrightarrow> (\<forall>b i. WriteReqMsg b i \<notin> set ds) \<Longrightarrow>
    \<exists>w'. deliver wr cl w up ex ds = Done (w', up, drain_status cl ex ds) \<and>
      sent w' = sent w @ concat (map frames_of (takeWhile (\<lambda>d. d \<noteq> CloseImmediately) ds))"
proof (induction ds arbitrary: cl w ex)
  case Nil
  then show ?case by (simp add: drain_status_def)
next
  case (Cons d ds)
  have rest: "up = Some None \<longrightarrow> (\<forall>b i. WriteReqMsg b i \<notin> set ds)" using Cons.prems by auto
  note IH = Cons.IH [OF rest]
  show ?case
  proof (cases d)
    case CloseImmediately
    obtain w1 where "fw_close wr w = (w1, Inr ())" "sent w1 = sent w" using healthy_writerE [OF assms] by metis
    then show ?thesis using CloseImmediately by (auto simp: drain_status_def)
  next
    case CloseAfterFlush
    then show ?thesis using IH [of True w ManualClose] by (auto simp: drain_status_def)
  next
    case Flush
    obtain w1 where "fw_flush wr w = (w1, Inr ())" "sent w1 = sent w" using healthy_writerE [OF assms] by metis
    then show ?thesis using Flush IH [of cl w1 ex] by (auto simp: drain_status_def)
  next
    case (WriteMsg b)
    obtain w1 where "fw_write_frame wr w b = (w1, Inr ())" "sent w1 = sent w @ [b]"
      using healthy_writerE [OF assms] by metis
    then show ?thesis using WriteMsg IH [of cl w1 ex] by (auto simp: drain_status_def)
  next
    case (WriteMsgBurst bs)
    obtain w1 where "fw_write_frame_burst wr w bs = (w1, Inr ())" "sent w1 = sent w @ bs"
      using healthy_writerE [OF assms] by metis
    then show ?thesis using WriteMsgBurst IH [of cl w1 ex] by (auto simp: drain_status_def)
  next
    case (WriteReqMsg b i)
    have "up \<noteq> Some None" using Cons.prems WriteReqMsg by auto
    obtain w1 where "fw_write_frame wr w b = (w1, Inr ())" "sent w1 = sent w @ [b]"
      using healthy_writerE [OF assms] by metis
    then show ?thesis using WriteReqMsg \<open>up \<noteq> Some None\<close> IH [of cl w1 ex]
      by (auto simp: drain_status_def split: option.split)
  qed
qed

lemma write_runner_healthy:
  assumes "mpsc_channel ops queue closed capacity" and "healthy_writer wr sent"
    and "exit_type st \<noteq> ManualCloseImmediate"
    and "w_ctx st = Some None \<longrightarrow> (\<forall>b i. WriteReqMsg b i \<notin> set (queue (rx_directive st)))"
    and "length (queue (rx_directive st)) < n"
  obtains st' r where "write_runner n wr ops st = Some (Done (st', r))"
    "sent (writer st') = sent (writer st) @
      concat (map frames_of (takeWhile (\<lambda>d. d \<noteq> CloseImmediately) (queue (rx_directive st))))"
    "r = drain_status (closed (rx_directive st)) (exit_type st) (queue (rx_directive st))"
proof -
  obtain out where run: "write_runner n wr ops st = Some out"
    and abs: "map_outcome abs_run out = map_outcome expire_after
      (deliver wr (closed (rx_directive st)) (writer st) (w_ctx st) (exit_type st) (queue (rx_directive st)))"
    using write_runner_refines_deliver_out [OF assms(1,3,5)] by blast
  obtain w' where "deliver wr (closed (rx_directive st)) (writer st) (w_ctx st) (exit_type st) (queue (rx_directive st)) =
      Done (w', w_ctx st, drain_status (closed (rx_directive st)) (exit_type st) (queue (rx_directive st)))"
    "sent w' = sent (writer st) @
      concat (map frames_of (takeWhile (\<lambda>d. d \<noteq> CloseImmediately) (queue (rx_directive st))))"
    using deliver_healthy [OF assms(2,4)] by blast
  then show ?thesis using that run abs
    by (cases out) (auto simp: abs_run_def expire_after_def)
qed

text \<open>C14: On a transport that does not fail, the frames reach it in exactly the order they were
  queued, bursts flattened: all of them when the writer is shut down gracefully or every
  handle is dropped, and those in front of the first \<open>CloseImmediately\<close> when it is shut
  down at once, which is also what the task's result says. It makes no difference whether
  the core is alive or gone, or whether the connection has requests, as long as no request
  is queued in a connection without.\<close>

theorem writer_keeps_order:
  assumes "mpsc_channel ops queue closed capacity" and "healthy_writer wr sent"
    and "exit_type st \<noteq> ManualCloseImmediate"
    and "w_ctx st = Some None \<longrightarrow> (\<forall>b i. WriteReqMsg b i \<notin> set (queue (rx_directive st)))"
    and "length (queue (rx_directive st)) < n"
  shows "\<exists>st' r. write_runner n wr ops st = Some (Done (st', r)) \<and>
    sent (writer st') = sent (writer st) @
      concat (map frames_of (takeWhile (\<lambda>d. d \<noteq> CloseImmediately) (queue (rx_directive st)))) \<and>
    r = drain_status (closed (rx_directive st)) (exit_type st) (queue (rx_directive st))"
  using write_runner_healthy [OF assms] by metis

text \<open>A transport that only logs, in a connection whose core is alive and in one whose core is gone.\<close>

definition list_writer :: "bytes list frame_writer" where
  "list_writer = default_writer (\<lambda>w b. (w @ [b], Inr ()))"

lemma list_writer_healthy: "healthy_writer list_writer (\<lambda>w. w)"
  unfolding list_writer_def by (rule healthy_default_writer) simp

theorem writer_keeps_order_witness:
  "(\<exists>st'. write_runner 4 list_writer fifo_ops
      (runner_of [WriteMsgBurst [[1], [2]], CloseImmediately, WriteMsg [3]] False) =
      Some (Done (st', Returned (Inr ManualCloseImmediate))) \<and> writer st' = [[1], [2]]) \<and>
   (\<exists>st'. write_runner 3 list_writer fifo_ops
      ((runner_of [WriteReqMsg [1] (RequestId 7), WriteMsg [2]] True)\<lparr>w_ctx := None\<rparr>) =
      Some (Done (st', Returned (Inr AllHandleDropped))) \<and> writer st' = [[1], [2]])"
  using writer_keeps_order [OF fifo.mpsc_channel_axioms list_writer_healthy, of
      "runner_of [WriteMsgBurst [[1], [2]], CloseImmediately, WriteMsg [3]] False" 4]
    writer_keeps_order [OF fifo.mpsc_channel_axioms list_writer_healthy, of
      "(runner_of [WriteReqMsg [1] (RequestId 7), WriteMsg [2]] True)\<lparr>w_ctx := None\<rparr>" 3]
  by (auto simp: drain_status_def)

text \<open>C29: A graceful shutdown never closes the transport. For a queue without \<open>CloseImmediately\<close>, with
  any transport and any channel that keeps the channel contract, the whole run of the task,
  its result and all it does to the transport, is the same whatever the transport's \<open>close\<close>
  would do: \<open>close\<close> is not called. The directive \<open>CloseAfterFlush\<close> is documented to close the
  writer after flushing, but the test after the loop is for \<open>ManualCloseImmediate\<close>, which the
  loop has returned with earlier.\<close>

theorem graceful_shutdown_skips_close:
  assumes "mpsc_channel ops queue closed capacity"
    and "CloseImmediately \<notin> set (queue (rx_directive st))"
    and "exit_type st \<noteq> ManualCloseImmediate"
  shows "write_runner n (wr\<lparr>fw_close := f\<rparr>) ops st = write_runner n wr ops st"
  using runner_loop_close_unused [OF assms, of n f wr] by (simp add: write_runner_def)

theorem graceful_shutdown_skips_close_witness:
  "write_runner 3 (log_writer\<lparr>fw_close := \<lambda>w. (w @ [[0]], Inr ())\<rparr>) fifo_ops
      (runner_of [WriteMsg [1], CloseAfterFlush] False) =
    write_runner 3 log_writer fifo_ops (runner_of [WriteMsg [1], CloseAfterFlush] False)"
  using graceful_shutdown_skips_close [OF fifo.mpsc_channel_axioms, of
      "runner_of [WriteMsg [1], CloseAfterFlush] False" 3 "\<lambda>w. (w @ [[0]], Inr ())" log_writer]
  by simp

text \<open>C15: When writing a request fails, the task stops with the transport's error, writes nothing
  after it, and the future of that request is told: its wait object is marked as failed,
  its registered task is woken and the whole context is expired.\<close>

theorem failed_request_write_is_reported:
  assumes "mpsc_channel ops queue closed capacity"
    and "queue (rx_directive st) = WriteReqMsg b i # ds" and "w_ctx st = Some (Some c)"
    and "fw_write_frame wr (writer st) b = (w', Inl e)"
    and "table_ok c" and "map_of (wait_list c) i = Some r"
    and "waker (waiters c ! r) = Some t"
  shows "\<exists>st' c'. write_runner (Suc n) wr ops st = Some (Done (st', Returned (Inl (WriteFailed e)))) \<and>
    writer st' = w' \<and> w_ctx st' = Some (Some c') \<and> expired c' \<and>
    response (waiters c' ! r) = StWriteFailed \<and> t \<in> set (woken c')"
proof -
  obtain q where recv: "ch_recv ops (rx_directive st) = Ready_now (q, Inr (WriteReqMsg b i))"
    using mpsc_channel.recv_msg [OF assms(1,2)] by blast
  let ?c = "set_request_write_failed c i"
  have r: "r < length (waiters c)"
    using assms(5,6) by (auto dest!: map_of_SomeD table_ok_member)
  then have resp: "response (waiters ?c ! r) = StWriteFailed"
    by (simp add: set_request_write_failed_def assms(6) response_write_failed_store)
  have "t \<in> set (woken ?c)"
    using assms(6,7) r
    by (simp add: set_request_write_failed_def woken_waker_wake write_failed_store_def waiters_update_waiter)
  then have "t \<in> set (woken (mark_expired ?c))"
    using fold_wake_mono [of "?c\<lparr>expired := True\<rparr>"] by (auto simp: mark_expired_def)
  then show ?thesis
    using recv assms(3,4) resp by (simp add: write_runner_def)
qed

theorem failed_request_write_is_reported_witness:
  "\<exists>st' c'. write_runner 1 log_writer fifo_ops (runner_of [WriteReqMsg [] (RequestId 7), WriteMsg [1]] False) =
      Some (Done (st', Returned (Inl (WriteFailed (IoError ''empty''))))) \<and>
    writer st' = [] \<and> w_ctx st' = Some (Some c') \<and> expired c' \<and>
    response (waiters c' ! 0) = StWriteFailed \<and> 5 \<in> set (woken c')"
  using failed_request_write_is_reported [OF fifo.mpsc_channel_axioms, of
      "runner_of [WriteReqMsg [] (RequestId 7), WriteMsg [1]] False" "[]" "RequestId 7" "[WriteMsg [1]]"
      table_one log_writer "[]" "IoError ''empty''" 0 5 0]
  by (simp add: log_writer_def default_writer_def table_one_def session_one_def table_ok_def)

end
