(* ===== verification/Receiver.thy ===== *)
theory Receiver
  imports Writer
begin

text \<open>
  \<open>src/rpc/receiver.rs\<close>: decoding one frame (\<open>handle_inbound_once\<close>), the inbound message and
  its single-use right to respond, and the three ways to drive the receiver: \<open>recv\<close>,
  \<open>split_recv_task\<close> and \<open>into_weak_runner_task\<close>. The transport \<open>AsyncFrameRead\<close> is supplied by the
  user of the crate; what successive calls of \<open>next\<close> return is a list, and a receiver that
  has consumed the list waits.
\<close>

subsection \<open>The request identifier inside an inbound message\<close>

text \<open>
  The range of the raw request identifier is stored in one 64-bit word, to be taken
  atomically: \<open>transmute\<close> of the two 32-bit halves, the first in the low half on the
  little-endian targets.
\<close>

definition transmute_u32x2 :: "u32 \<Rightarrow> u32 \<Rightarrow> u64" where
  "transmute_u32x2 lo hi = ucast lo OR push_bit 32 (ucast hi)"

definition transmute_u64 :: "u64 \<Rightarrow> u32 \<times> u32" where
  "transmute_u64 i = (ucast i, ucast (drop_bit 32 i))"

definition req_id_to_inner :: "nonzero_range option \<Rightarrow> u64" where
  "req_id_to_inner r =
     (case r of None \<Rightarrow> transmute_u32x2 0 0
      | Some nr \<Rightarrow> transmute_u32x2 (nz_begin nr) (nz_end nr))"

definition to_req_range :: "u64 \<Rightarrow> nonzero_range option" where
  "to_req_range i =
     (case transmute_u64 i of (b, e) \<Rightarrow> map_option (NonZeroRange b) (nonzero_u32_new e))"

lemma transmute_inverse [simp]: "transmute_u64 (transmute_u32x2 a b) = (a, b)"
proof -
  have "ucast (transmute_u32x2 a b) = a"
    by (rule bit_eqI) (auto simp: transmute_u32x2_def bit_simps)
  moreover have "ucast (drop_bit 32 (transmute_u32x2 a b)) = b"
    by (rule bit_eqI) (auto simp: transmute_u32x2_def bit_simps dest: bit_imp_le_length)
  ultimately show ?thesis by (simp add: transmute_u64_def)
qed

lemma transmute_zero [simp]: "transmute_u32x2 0 0 = 0" "transmute_u64 0 = (0, 0)"
  by (simp_all add: transmute_u32x2_def transmute_u64_def)

lemma transmute_eq_0_iff [simp]: "transmute_u32x2 a b = 0 \<longleftrightarrow> a = 0 \<and> b = 0"
  using transmute_inverse [of a b] by (metis transmute_zero prod.inject)

lemma to_req_range_0 [simp]: "to_req_range 0 = None"
  by (simp add: to_req_range_def nonzero_u32_new_def)

lemma req_id_to_inner_None [simp]: "req_id_to_inner None = 0"
  by (simp add: req_id_to_inner_def)

lemma to_req_range_inverse [simp]:
  "nz_end nr \<noteq> 0 \<Longrightarrow> to_req_range (req_id_to_inner (Some nr)) = Some nr"
  by (cases nr) (simp add: to_req_range_def req_id_to_inner_def nonzero_u32_new_def)

subsection \<open>Inbound messages\<close>

record inbound_inner =
  ib_buffer :: bytes
  ib_method :: range_type
  ib_payload :: range_type
  ib_req_id :: u64

definition inbound_new_request ::
  "bytes \<Rightarrow> range_type \<Rightarrow> range_type \<Rightarrow> nonzero_range \<Rightarrow> inbound_inner" where
  "inbound_new_request buffer meth payload req_id =
     \<lparr>ib_buffer = buffer, ib_method = meth, ib_payload = payload,
      ib_req_id = req_id_to_inner (Some req_id)\<rparr>"

definition inbound_new_notify :: "bytes \<Rightarrow> range_type \<Rightarrow> range_type \<Rightarrow> inbound_inner" where
  "inbound_new_notify buffer meth payload =
     \<lparr>ib_buffer = buffer, ib_method = meth, ib_payload = payload, ib_req_id = 0\<rparr>"

definition method_bytes :: "inbound_inner \<Rightarrow> bytes outcome" where
  "method_bytes ib = index_by (ib_buffer ib) (ib_method ib)"

definition payload_bytes :: "inbound_inner \<Rightarrow> bytes outcome" where
  "payload_bytes ib = index_by (ib_buffer ib) (ib_payload ib)"

definition is_request :: "inbound_inner \<Rightarrow> bool" where
  "is_request ib \<longleftrightarrow> ib_req_id ib \<noteq> 0"

definition retrieve_req_id :: "inbound_inner \<Rightarrow> nonzero_range \<Rightarrow> bytes outcome" where
  "retrieve_req_id ib r =
     index_range (ib_buffer ib) (fst (nz_range_usize r)) (snd (nz_range_usize r))"

text \<open>\<open>Inbound::request_id\<close>; the range is looked at but not taken.\<close>

definition inbound_request_id :: "inbound_inner \<Rightarrow> bytes option outcome" where
  "inbound_request_id ib =
     (case to_req_range (ib_req_id ib) of
        None \<Rightarrow> Done None
      | Some r \<Rightarrow> obind (retrieve_req_id ib r) (\<lambda>b. Done (Some b)))"

text \<open>\<open>Inbound::method\<close> is \<open>from_utf8_unchecked\<close>: undefined behaviour on anything else.\<close>

definition inbound_method :: "inbound_inner \<Rightarrow> bytes outcome" where
  "inbound_method ib =
     obind (method_bytes ib) (\<lambda>b. if utf8_valid b then Done b else Undef)"

text \<open>
  The atomic swap with 0: whoever comes first gets the range. The source writes through a
  pointer cast from a shared reference, and \<open>is_request\<close> reads the same word without an atomic
  access, which Rust's rules do not allow; the model takes the swap for what it computes.
\<close>

definition atomic_take_req_range :: "inbound_inner \<Rightarrow> inbound_inner \<times> nonzero_range option" where
  "atomic_take_req_range ib = (ib\<lparr>ib_req_id := 0\<rparr>, to_req_range (ib_req_id ib))"

definition inbound_take :: "inbound_inner \<Rightarrow> inbound_inner \<times> inbound_inner" where
  "inbound_take ib =
     (let (ib1, r) = atomic_take_req_range ib in
      (\<lparr>ib_buffer = [], ib_method = range_default, ib_payload = range_default,
        ib_req_id = ib_req_id ib1\<rparr>,
       \<lparr>ib_buffer = ib_buffer ib1, ib_method = ib_method ib1, ib_payload = ib_payload ib1,
        ib_req_id = req_id_to_inner r\<rparr>))"

definition clone_message :: "inbound_inner \<Rightarrow> bool \<Rightarrow> inbound_inner \<times> inbound_inner" where
  "clone_message ib take_request =
     (let (ib1, r) = (if take_request then atomic_take_req_range ib else (ib, None)) in
      (ib1, ib1\<lparr>ib_req_id := req_id_to_inner r\<rparr>))"

definition drop_request :: "inbound_inner \<Rightarrow> inbound_inner" where
  "drop_request ib = fst (atomic_take_req_range ib)"

definition clone_reusable_packet :: "('p, 'd) codec \<Rightarrow> inbound_inner \<Rightarrow> prepared_packet option" where
  "clone_reusable_packet codec ib =
     (if codec_reusability_id codec = 0 then None
      else Some \<lparr>pkt_data = ib_buffer ib, pkt_hash = codec_reusability_id codec\<rparr>)"

subsection \<open>Responding\<close>

text \<open>\<open>ResponsePayload\<close> and its three conversions.\<close>

type_synonym 'p response_payload = "(response_error \<times> 'p option) + 'p"

definition payload_from_error :: "response_error \<Rightarrow> 'p response_payload" where
  "payload_from_error code = Inl (code, None)"

definition payload_from_result :: "'p + 'p \<Rightarrow> 'p response_payload" where
  "payload_from_result r = (case r of Inr obj \<Rightarrow> Inr obj | Inl obj \<Rightarrow> Inl (Unknown, Some obj))"

definition payload_from_pair :: "response_error \<times> 'p \<Rightarrow> 'p response_payload" where
  "payload_from_pair p = Inl (fst p, Some (snd p))"

fun encode_payload :: "'p response_payload \<Rightarrow> 'p encode_response_payload" where
  "encode_payload (Inr obj) = PayloadOk obj"
| "encode_payload (Inl (Unknown, Some obj)) = ErrObjectOnly obj"
| "encode_payload (Inl (errc, Some obj)) = PayloadErr errc obj"
| "encode_payload (Inl (errc, None)) = ErrCodeOnly errc"

text \<open>The range is taken before anything is encoded; the caller's buffer is not cleared.\<close>

definition inbound_encode_response ::
  "('p, 'd) codec \<Rightarrow> inbound_inner \<Rightarrow> bytes \<Rightarrow> 'p response_payload
   \<Rightarrow> (inbound_inner \<times> bytes \<times> (encode_error + unit) option) outcome" where
  "inbound_encode_response codec ib buf result =
     (case atomic_take_req_range ib of
        (ib1, None) \<Rightarrow> Done (ib1, buf, None)
      | (ib1, Some r) \<Rightarrow>
          obind (retrieve_req_id ib1 r) (\<lambda>req_id.
            case encode_response codec req_id (encode_payload result) buf of
              (buf1, res) \<Rightarrow> Done (ib1, buf1, Some res)))"

definition try_response ::
  "('q, writer_directive) chan_ops \<Rightarrow> ('p, 'd, 'q, 'u) rpc_core \<Rightarrow> inbound_inner \<Rightarrow> bytes
   \<Rightarrow> 'p response_payload
   \<Rightarrow> (('p, 'd, 'q, 'u) rpc_core \<times> inbound_inner \<times> bytes \<times> (try_send_response_error + unit)) outcome" where
  "try_response ops core ib buf result =
     obind (inbound_encode_response (core_codec core) ib buf result) (\<lambda>(ib1, buf1, r).
       case r of
         None \<Rightarrow> Done (core, ib1, buf1, Inl TryRespInboundNotRequest)
       | Some (Inl e) \<Rightarrow> Done (core, ib1, buf1, Inl (TryRespMsgError (TryEncodeFailed e)))
       | Some (Inr _) \<Rightarrow>
           (case t_tx_deferred core of
              None \<Rightarrow> Done (core, ib1, buf1, Inl (TryRespMsgError TryChannelClosed))
            | Some q \<Rightarrow>
                (case ch_try_send ops q (WriteMsg buf1) of
                   (q', res) \<Rightarrow> Done (core\<lparr>t_tx_deferred := Some q'\<rparr>, ib1, [],
                      map_err (\<lambda>e. TryRespMsgError
                        (case e of Full _ \<Rightarrow> TryChannelAtCapacity | Closed _ \<Rightarrow> TryChannelClosed)) res))))"

definition respond ::
  "('q, writer_directive) chan_ops \<Rightarrow> ('p, 'd, 'q, 'u) rpc_core \<Rightarrow> inbound_inner \<Rightarrow> bytes
   \<Rightarrow> 'p response_payload
   \<Rightarrow> (('p, 'd, 'q, 'u) rpc_core \<times> inbound_inner \<times> bytes \<times> (send_response_error + unit) poll) outcome" where
  "respond ops core ib buf result =
     obind (inbound_encode_response (core_codec core) ib buf result) (\<lambda>(ib1, buf1, r).
       case r of
         None \<Rightarrow> Done (core, ib1, buf1, Ready_now (Inl RespInboundNotRequest))
       | Some (Inl e) \<Rightarrow> Done (core, ib1, buf1, Ready_now (Inl (RespMsgError (SendEncodeFailed e))))
       | Some (Inr _) \<Rightarrow>
           (case t_tx_deferred core of
              None \<Rightarrow> Done (core, ib1, buf1, Ready_now (Inl (RespMsgError SendChannelClosed)))
            | Some q \<Rightarrow>
                (case ch_send ops q (WriteMsg buf1) of
                   Pending \<Rightarrow> Done (core, ib1, [], Pending)
                 | Ready_now (q', res) \<Rightarrow> Done (core\<lparr>t_tx_deferred := Some q'\<rparr>, ib1, [],
                      Ready_now (map_err (\<lambda>_. RespMsgError SendChannelClosed) res)))))"

text \<open>The drop guard answers a request nobody responded to.\<close>

definition inbound_drop ::
  "('q, writer_directive) chan_ops \<Rightarrow> ('p, 'd, 'q, 'u) rpc_core \<Rightarrow> inbound_inner
   \<Rightarrow> ('p, 'd, 'q, 'u) rpc_core outcome" where
  "inbound_drop ops core ib =
     (if is_request ib then
        obind (try_response ops core ib [] (payload_from_error Unhandled)) (\<lambda>(core1, _). Done core1)
      else Done core)"

subsection \<open>One inbound frame\<close>

datatype 'c receive_error =
  RxEof
| RxIoError io_error
| RxDecodeFailed decode_error bytes
| RxUnhandledResponse "'c error_response + 'c response_msg"
| RxNonUtf8MethodName utf8_error bytes "nat \<times> nat"

fun is_eof :: "'c receive_error \<Rightarrow> bool" where
  "is_eof RxEof = True"
| "is_eof (RxIoError _) = True"
| "is_eof _ = False"

text \<open>
  The response branch: hand the response to the pending request, or return it to the
  caller as unhandled when requests are disabled, the identifier is unknown or the
  context is expired.
\<close>

definition handle_response ::
  "('p, 'd, 'q, 'u) rpc_core \<Rightarrow> bytes \<Rightarrow> request_id \<Rightarrow> response_error option \<Rightarrow> range_type
   \<Rightarrow> ('p, 'd, 'q, 'u) rpc_core \<times> (('p, 'd) codec receive_error + inbound_inner option)" where
  "handle_response core ib i errc payload =
     (case core_reqs core of
        None \<Rightarrow> (core, Inl (RxUnhandledResponse (make_response (core_codec core) ib payload errc)))
      | Some reqs \<Rightarrow>
          (case set_response reqs i ib payload errc of
             (reqs', Inl ib') \<Rightarrow> (core\<lparr>core_reqs := Some reqs'\<rparr>,
                Inl (RxUnhandledResponse (make_response (core_codec core) ib' payload errc)))
           | (reqs', Inr _) \<Rightarrow> (core\<lparr>core_reqs := Some reqs'\<rparr>, Inr None)))"

text \<open>The method name is checked before the message is handed out.\<close>

definition check_method ::
  "inbound_inner \<Rightarrow> ('c receive_error + inbound_inner option) outcome" where
  "check_method ib =
     obind (method_bytes ib) (\<lambda>m.
       case from_utf8 m of
         Inl e \<Rightarrow> Done (Inl (RxNonUtf8MethodName e (ib_buffer ib) (range_usize (ib_method ib))))
       | Inr _ \<Rightarrow> Done (Inr (Some ib)))"

text \<open>\<open>end.try_into().unwrap()\<close> panics on a request identifier range that ends at 0.\<close>

definition handle_inbound_once ::
  "('p, 'd, 'q, 'u) rpc_core \<Rightarrow> bytes \<Rightarrow> bytes
   \<Rightarrow> (('p, 'd, 'q, 'u) rpc_core \<times> bytes
        \<times> (('p, 'd) codec receive_error + inbound_inner option)) outcome" where
  "handle_inbound_once core frame scratch =
     obind (decode_inbound (core_codec core) scratch frame) (\<lambda>(scratch1, ib, decoded).
       case decoded of
         Inl e \<Rightarrow> Done (core, scratch1, Inl (RxDecodeFailed e ib))
       | Inr (FrameRequest rid meth params) \<Rightarrow>
           obind (unwrap (nonzero_u32_new (snd rid))) (\<lambda>rid_end.
           obind (check_method (inbound_new_request ib (range_from meth) (range_from params)
                                  (NonZeroRange (fst rid) rid_end))) (\<lambda>r.
             Done (core, scratch1, r)))
       | Inr (FrameNotify meth params) \<Rightarrow>
           obind (check_method (inbound_new_notify ib (range_from meth) (range_from params))) (\<lambda>r.
             Done (core, scratch1, r))
       | Inr (FrameResponse i errc payload) \<Rightarrow>
           (case handle_response core ib i errc (range_from payload) of
              (core', r) \<Rightarrow> Done (core', scratch1, r)))"

subsection \<open>The receive loop\<close>

text \<open>
  What one \<open>next\<close> of the transport returns: an I/O error, the end of the stream, or a
  frame. \<open>recv\<close> on an exhausted list is suspended; the frames it consumed are gone, and
  the responses among them are delivered.
\<close>

type_synonym read_result = "io_error + bytes option"

fun receiver_recv ::
  "('p, 'd, 'q, 'u) rpc_core \<Rightarrow> bytes \<Rightarrow> read_result list
   \<Rightarrow> (('p, 'd, 'q, 'u) rpc_core \<times> bytes \<times> read_result list
        \<times> (('p, 'd) codec receive_error + inbound_inner) poll) outcome" where
  "receiver_recv core scratch [] = Done (core, scratch, [], Pending)"
| "receiver_recv core scratch (Inl e # reads) =
     Done (core, scratch, reads, Ready_now (Inl (RxIoError e)))"
| "receiver_recv core scratch (Inr None # reads) =
     Done (core, scratch, reads, Ready_now (Inl RxEof))"
| "receiver_recv core scratch (Inr (Some frame) # reads) =
     obind (handle_inbound_once core frame []) (\<lambda>(core1, scratch1, r).
       case r of
         Inl e \<Rightarrow> Done (core1, scratch1, reads, Ready_now (Inl e))
       | Inr (Some ib) \<Rightarrow> Done (core1, scratch1, reads, Ready_now (Inr ib))
       | Inr None \<Rightarrow> receiver_recv core1 scratch1 reads)"

text \<open>Dropping the receiver expires the request context; the weak runner took the core out.\<close>

definition receiver_drop ::
  "('p, 'd, 'q, 'u) rpc_core option \<Rightarrow> ('p, 'd, 'q, 'u) rpc_core option" where
  "receiver_drop held =
     map_option (\<lambda>core. core\<lparr>core_reqs := map_option mark_expired (core_reqs core)\<rparr>) held"

text \<open>\<open>create_notify_sender\<close> hands out the core whether or not it has a writer channel.\<close>

definition create_notify_sender :: "('p, 'd, 'q, 'u) rpc_core \<Rightarrow> ('p, 'd, 'q, 'u) rpc_core" where
  "create_notify_sender core = core"

lemma receiver_recv_shrinks:
  "receiver_recv core scratch reads = Done (core', scratch', reads', Ready_now m) \<Longrightarrow>
     length reads' < length reads"
proof (induction reads arbitrary: core scratch)
  case Nil
  then show ?case by simp
next
  case (Cons x reads)
  show ?case
  proof (cases "\<exists>frame. x = Inr (Some frame)")
    case False
    then show ?thesis using Cons.prems by (cases x rule: sum.exhaust; auto)
  next
    case True
    then obtain frame core1 scratch1 r where x: "x = Inr (Some frame)"
      and once: "handle_inbound_once core frame [] = Done (core1, scratch1, r)"
      using Cons.prems by (auto simp: obind_Done_iff)
    show ?thesis
    proof (cases "r = Inr None")
      case True
      then show ?thesis using Cons x once by (auto intro: less_SucI)
    next
      case False
      then show ?thesis using Cons.prems x once by (auto split: sum.split_asm option.split_asm)
    qed
  qed
qed

subsection \<open>The split receiver task\<close>

text \<open>
  \<open>split_recv_task\<close> forwards what \<open>recv\<close> returns into a second channel, read by the user.
  \<open>held\<close> is the message the task is suspended on while that channel has no room. A capacity
  that is no \<open>NonZeroUsize\<close> means an unbounded channel.
\<close>

definition channel_capacity :: "nat \<Rightarrow> nat option" where
  "channel_capacity n = (if n = 0 then None else Some n)"

type_synonym ('p, 'd) message = "('p, 'd) codec receive_error + inbound_inner"

datatype 'm split_status = SplitWaiting | SplitBlocked 'm | SplitEnded

definition message_is_eof :: "('p, 'd) message \<Rightarrow> bool" where
  "message_is_eof msg = (case msg of Inl e \<Rightarrow> is_eof e | Inr _ \<Rightarrow> False)"

definition drop_message ::
  "('q, writer_directive) chan_ops \<Rightarrow> ('p, 'd, 'q, 'u) rpc_core \<Rightarrow> ('p, 'd) message
   \<Rightarrow> ('p, 'd, 'q, 'u) rpc_core outcome" where
  "drop_message ops core msg = (case msg of Inl _ \<Rightarrow> Done core | Inr ib \<Rightarrow> inbound_drop ops core ib)"

definition split_end :: "('p, 'd, 'q, 'u) rpc_core \<Rightarrow> ('p, 'd, 'q, 'u) rpc_core" where
  "split_end core = core\<lparr>core_reqs := map_option mark_expired (core_reqs core)\<rparr>"

lemma receiver_drop_Some [simp]: "receiver_drop (Some core) = Some (split_end core)"
  by (simp add: receiver_drop_def split_end_def)

function split_recv_loop ::
  "('q, writer_directive) chan_ops \<Rightarrow> ('r, ('p, 'd) message) chan_ops
   \<Rightarrow> ('p, 'd, 'q, 'u) rpc_core \<Rightarrow> bytes \<Rightarrow> 'r \<Rightarrow> ('p, 'd) message option \<Rightarrow> read_result list
   \<Rightarrow> (('p, 'd, 'q, 'u) rpc_core \<times> 'r \<times> read_result list \<times> ('p, 'd) message split_status) outcome" where
  "split_recv_loop ops mops core scratch tx None reads =
     (case receiver_recv core scratch reads of
        Panic \<Rightarrow> Panic
      | Undef \<Rightarrow> Undef
      | Done (core1, scratch1, reads1, Pending) \<Rightarrow> Done (core1, tx, reads1, SplitWaiting)
      | Done (core1, scratch1, reads1, Ready_now msg) \<Rightarrow>
          split_recv_loop ops mops core1 scratch1 tx (Some msg) reads1)"
| "split_recv_loop ops mops core scratch tx (Some msg) reads =
     (case ch_send mops tx msg of
        Pending \<Rightarrow> Done (core, tx, reads, SplitBlocked msg)
      | Ready_now (tx1, Inl _) \<Rightarrow>
          obind (drop_message ops core msg) (\<lambda>core1. Done (split_end core1, tx1, reads, SplitEnded))
      | Ready_now (tx1, Inr _) \<Rightarrow>
          (if message_is_eof msg then Done (split_end core, tx1, reads, SplitEnded)
           else split_recv_loop ops mops core scratch tx1 None reads))"
  by pat_completeness auto
termination
  by (relation "measure (\<lambda>(ops, mops, core, scratch, tx, held, reads).
        2 * length reads + (if held = None then 0 else 1))")
    (use receiver_recv_shrinks in fastforce)+

subsection \<open>The weak runner task\<close>

text \<open>
  \<open>into_weak_runner_task\<close> takes the core out of the receiver and keeps a weak handle. Its
  events are the results of \<open>next\<close> and the moment the last strong handle is dropped, which
  wakes the task. The callback may send, so it acts on the core. Since the receiver no
  longer owns the core, its drop at the end of the task expires nothing.
\<close>

datatype read_runner_exit = ReadAllHandleDropped | ReadEof

datatype weak_event = WeakNext read_result | WeakHandlesDropped

fun weak_runner ::
  "(('p, 'd, 'q, 'u) rpc_core \<Rightarrow> ('p, 'd) message \<Rightarrow> ('p, 'd, 'q, 'u) rpc_core outcome)
   \<Rightarrow> ('p, 'd, 'q, 'u) rpc_core \<Rightarrow> weak_event list
   \<Rightarrow> (('p, 'd, 'q, 'u) rpc_core option \<times> (io_error + read_runner_exit) task_status) outcome" where
  "weak_runner on_inbound core [] = Done (Some core, Waiting)"
| "weak_runner on_inbound core (WeakHandlesDropped # evs) =
     Done (None, Returned (Inr ReadAllHandleDropped))"
| "weak_runner on_inbound core (WeakNext (Inl e) # evs) = Done (Some core, Returned (Inl e))"
| "weak_runner on_inbound core (WeakNext (Inr None) # evs) = Done (Some core, Returned (Inr ReadEof))"
| "weak_runner on_inbound core (WeakNext (Inr (Some frame)) # evs) =
     obind (handle_inbound_once core frame []) (\<lambda>(core1, scratch1, r).
       case r of
         Inr None \<Rightarrow> weak_runner on_inbound core1 evs
       | Inr (Some ib) \<Rightarrow>
           obind (on_inbound core1 (Inr ib)) (\<lambda>core2. weak_runner on_inbound core2 evs)
       | Inl e \<Rightarrow> obind (on_inbound core1 (Inl e)) (\<lambda>core2. weak_runner on_inbound core2 evs))"

subsection \<open>Facts about inbound messages\<close>

lemma atomic_take_simps [simp]:
  "\<not> is_request (fst (atomic_take_req_range ib))"
  "ib_buffer (fst (atomic_take_req_range ib)) = ib_buffer ib"
  "snd (atomic_take_req_range ib) = to_req_range (ib_req_id ib)"
  by (simp_all add: atomic_take_req_range_def is_request_def)

lemma encode_response_not_request:
  "\<not> is_request ib \<Longrightarrow> inbound_encode_response codec ib buf p = Done (ib, buf, None)"
  by (simp add: inbound_encode_response_def atomic_take_req_range_def is_request_def)

lemma encode_response_consumes:
  "inbound_encode_response codec ib buf p = Done (ib', buf', r) \<Longrightarrow> \<not> is_request ib'"
  by (auto simp: inbound_encode_response_def atomic_take_req_range_def is_request_def obind_Done_iff
      split_beta split: option.split_asm)

lemma try_response_consumes:
  assumes "try_response ops core ib buf p = Done (core', ib', buf', r)"
  shows "\<not> is_request ib'"
proof -
  obtain ib1 buf1 enc where enc: "inbound_encode_response (core_codec core) ib buf p = Done (ib1, buf1, enc)"
    using assms by (auto simp: try_response_def obind_Done_iff)
  consider "enc = None" | e where "enc = Some (Inl e)" | "enc = Some (Inr ())"
    by (metis option.exhaust sum.exhaust unit.exhaust)
  then have "ib' = ib1"
    by cases (use assms enc in \<open>auto simp: try_response_def split_beta split: option.split_asm\<close>)
  then show ?thesis using encode_response_consumes [OF enc] by simp
qed

lemma try_response_not_request:
  "\<not> is_request ib \<Longrightarrow>
     try_response ops core ib buf p = Done (core, ib, buf, Inl TryRespInboundNotRequest)"
  by (simp add: try_response_def encode_response_not_request)

text \<open>The raw identifier of a request whose range lies inside the frame.\<close>

definition raw_id_of :: "inbound_inner \<Rightarrow> bytes \<Rightarrow> bool" where
  "raw_id_of ib i \<longleftrightarrow>
     (\<exists>r. to_req_range (ib_req_id ib) = Some r \<and> retrieve_req_id ib r = Done i)"

lemma raw_id_of_new_request:
  assumes "unat lo \<le> unat hi" "unat hi \<le> length buffer" "hi \<noteq> 0"
  shows "raw_id_of (inbound_new_request buffer m p (NonZeroRange lo hi)) (sub_bytes (unat lo) (unat hi) buffer)"
  using assms
  by (simp add: raw_id_of_def inbound_new_request_def retrieve_req_id_def nz_range_usize_def index_range_def)

lemma encode_response_raw_id:
  "raw_id_of ib i \<Longrightarrow> inbound_encode_response codec ib buf p =
     (case encode_response codec i (encode_payload p) buf of (buf', r) \<Rightarrow> Done (ib\<lparr>ib_req_id := 0\<rparr>, buf', Some r))"
  by (auto simp: raw_id_of_def inbound_encode_response_def atomic_take_req_range_def retrieve_req_id_def
      split: prod.splits)

lemma raw_id_of_is_request: "raw_id_of ib i \<Longrightarrow> is_request ib"
  by (auto simp: raw_id_of_def is_request_def intro: ccontr)

lemma try_response_sends:
  assumes "mpsc_channel ops queue closed capacity" and "raw_id_of ib i"
    and "encode_response (core_codec core) i (encode_payload p) buf = (frame, Inr ())"
    and "t_tx_deferred core = Some q" and "\<not> closed q" and "has_room (capacity q) (queue q)"
  obtains q' where "try_response ops core ib buf p =
      Done (core\<lparr>t_tx_deferred := Some q'\<rparr>, ib\<lparr>ib_req_id := 0\<rparr>, [], Inr ())"
    "queue q' = queue q @ [WriteMsg frame]"
  using mpsc_channel.try_send_ok [OF assms(1,5,6), of "WriteMsg frame"] assms(2-4)
  by (auto simp: try_response_def encode_response_raw_id)

lemma try_response_error_queue:
  assumes "mpsc_channel ops queue closed capacity" and "t_tx_deferred core = Some q"
    and "try_response ops core ib buf p = Done (core', ib', buf', Inl e)"
  shows "\<exists>q'. t_tx_deferred core' = Some q' \<and> queue q' = queue q"
proof -
  obtain ib1 buf1 enc where enc: "inbound_encode_response (core_codec core) ib buf p = Done (ib1, buf1, enc)"
    using assms(3) by (auto simp: try_response_def obind_Done_iff)
  consider "enc = None" | e1 where "enc = Some (Inl e1)" | "enc = Some (Inr ())"
    by (metis option.exhaust sum.exhaust unit.exhaust)
  then show ?thesis
  proof cases
    case 3
    obtain q' r where sent: "ch_try_send ops q (WriteMsg buf1) = (q', r)" by fastforce
    then have "r \<noteq> Inr ()" "t_tx_deferred core' = Some q'"
      using assms(2,3) enc 3 by (auto simp: try_response_def)
    then show ?thesis
      using mpsc_channel.try_send_queue [OF assms(1) sent] by (cases r) auto
  qed (use assms enc in \<open>auto simp: try_response_def\<close>)
qed

subsection \<open>Properties\<close>

text \<open>C17: A request is answered at most once. Whatever the outcome of a first \<open>try_response\<close>,
  with any codec and channel, the message is no longer a request: a second response is
  refused with \<open>InboundNotRequest\<close> without touching the caller's buffer or the channel,
  and dropping the message sends nothing more.\<close>

theorem request_answered_at_most_once:
  assumes "try_response ops core ib buf p = Done (core', ib', buf', r)"
  shows "\<not> is_request ib' \<and>
    try_response ops core' ib' buf2 p2 = Done (core', ib', buf2, Inl TryRespInboundNotRequest) \<and>
    inbound_drop ops core' ib' = Done core'"
  using try_response_consumes [OF assms] by (simp add: try_response_not_request inbound_drop_def)

text \<open>A request for the witnesses: the frame is a method byte and an identifier byte.\<close>

definition request_one :: inbound_inner where
  "request_one = inbound_new_request [0x41, 9] (RangeType 0 1) (RangeType 1 1) (NonZeroRange 1 2)"

lemma request_one_raw_id [simp]: "raw_id_of request_one [9]"
  using raw_id_of_new_request [of 1 2 "[0x41, 9]" "RangeType 0 1" "RangeType 1 1"]
  by (simp add: request_one_def sub_bytes_def)

theorem request_answered_at_most_once_witness:
  "\<exists>core' ib'. try_response fifo_ops (core_one None) request_one [] (payload_from_error Busy) =
      Done (core', ib', [], Inr ()) \<and>
    try_response fifo_ops core' ib' [7] (payload_from_error Busy) =
      Done (core', ib', [7], Inl TryRespInboundNotRequest)"
proof -
  obtain q' where sent: "try_response fifo_ops (core_one None) request_one [] (payload_from_error Busy) =
      Done ((core_one None)\<lparr>t_tx_deferred := Some q'\<rparr>, request_one\<lparr>ib_req_id := 0\<rparr>, [], Inr ())"
    by (rule try_response_sends [OF fifo.mpsc_channel_axioms request_one_raw_id, of "core_one None"
          "payload_from_error Busy" "[]" "[9]" "fifo_new None"])
      (simp_all add: plain_codec_def fifo_new_def has_room_def)
  show ?thesis using sent request_answered_at_most_once [OF sent] by blast
qed

text \<open>C18: What the drop guard of a message sends. A request nobody answered and that is dropped is
  answered under its raw identifier with the code \<open>Unhandled\<close>: if the codec can encode this
  response and the writer's channel is open and has room, exactly one frame is queued, the
  encoding; otherwise, also in a connection without a channel, nothing is queued. A dropped
  notification sends nothing, and so does a request once a response to it was tried, even
  one that failed.\<close>

theorem dropped_request_is_answered:
  assumes "mpsc_channel ops queue closed capacity"
    and "unat lo \<le> unat hi" and "unat hi \<le> length buffer" and "hi \<noteq> 0"
    and "encode_response (core_codec core) (sub_bytes (unat lo) (unat hi) buffer)
           (ErrCodeOnly Unhandled) [] = (frame, res)"
  shows "(case (res, t_tx_deferred core) of
      (Inr _, Some q) \<Rightarrow>
        \<exists>q'. inbound_drop ops core (inbound_new_request buffer m p (NonZeroRange lo hi)) =
            Done (core\<lparr>t_tx_deferred := Some q'\<rparr>) \<and>
          queue q' = queue q @ (if \<not> closed q \<and> has_room (capacity q) (queue q) then [WriteMsg frame] else [])
    | _ \<Rightarrow> inbound_drop ops core (inbound_new_request buffer m p (NonZeroRange lo hi)) = Done core) \<and>
    inbound_drop ops core (inbound_new_notify buffer m p) = Done core \<and>
    (\<forall>core1 ib1 buf1 r.
       try_response ops core (inbound_new_request buffer m p (NonZeroRange lo hi)) buf result =
         Done (core1, ib1, buf1, r) \<longrightarrow> inbound_drop ops core1 ib1 = Done core1)"
proof -
  let ?ib = "inbound_new_request buffer m p (NonZeroRange lo hi)"
  have raw: "raw_id_of ?ib (sub_bytes (unat lo) (unat hi) buffer)"
    by (rule raw_id_of_new_request [OF assms(2-4)])
  have enc: "inbound_encode_response (core_codec core) ?ib [] (payload_from_error Unhandled) =
      Done (?ib\<lparr>ib_req_id := 0\<rparr>, frame, Some res)"
    using assms(5) by (simp add: encode_response_raw_id [OF raw] payload_from_error_def)
  have dropped: "inbound_drop ops core ?ib =
      obind (try_response ops core ?ib [] (payload_from_error Unhandled)) (\<lambda>(core1, _). Done core1)"
    using raw_id_of_is_request [OF raw] by (simp add: inbound_drop_def)
  have sends: "\<exists>q'. inbound_drop ops core ?ib = Done (core\<lparr>t_tx_deferred := Some q'\<rparr>) \<and>
      queue q' = queue q @ (if \<not> closed q \<and> has_room (capacity q) (queue q) then [WriteMsg frame] else [])"
    if q: "t_tx_deferred core = Some q" and ok: "res = Inr u" for q u
  proof -
    obtain q' r where sent: "ch_try_send ops q (WriteMsg frame) = (q', r)" by fastforce
    have "queue q' = queue q @ (if \<not> closed q \<and> has_room (capacity q) (queue q) then [WriteMsg frame] else [])"
      using mpsc_channel.try_send_queue [OF assms(1) sent] mpsc_channel.try_send_ok [OF assms(1), of q "WriteMsg frame"]
        mpsc_channel.try_send_full [OF assms(1), of q "WriteMsg frame"] sent
      by (cases r) auto
    moreover have "inbound_drop ops core ?ib = Done (core\<lparr>t_tx_deferred := Some q'\<rparr>)"
      using q ok enc sent by (simp add: dropped try_response_def)
    ultimately show ?thesis by blast
  qed
  have "inbound_drop ops core ?ib = Done core" if "t_tx_deferred core = None \<or> (\<exists>e. res = Inl e)"
    using that enc by (cases res) (auto simp: dropped try_response_def)
  moreover have "inbound_drop ops core (inbound_new_notify buffer m p) = Done core"
    by (simp add: inbound_drop_def inbound_new_notify_def is_request_def)
  moreover have "inbound_drop ops core1 ib1 = Done core1"
    if "try_response ops core ?ib buf result = Done (core1, ib1, buf1, r)" for core1 ib1 buf1 r
    using try_response_consumes [OF that] by (simp add: inbound_drop_def)
  ultimately show ?thesis using sends by (auto split: sum.split option.split)
qed

theorem dropped_request_is_answered_witness:
  "(\<exists>q'. inbound_drop fifo_ops (core_one None) request_one = Done ((core_one None)\<lparr>t_tx_deferred := Some q'\<rparr>) \<and>
     fifo_items q' = [WriteMsg [9]]) \<and>
   (\<exists>q'. inbound_drop fifo_ops (core_one (Some 0)) request_one =
       Done ((core_one (Some 0))\<lparr>t_tx_deferred := Some q'\<rparr>) \<and> fifo_items q' = [])"
proof -
  have enc: "encode_response (core_codec (core_one cap)) (sub_bytes (unat (1 :: u32)) (unat (2 :: u32)) [0x41, 9])
      (ErrCodeOnly Unhandled) [] = ([9], Inr ())" for cap
    by (simp add: sub_bytes_def plain_codec_def)
  show ?thesis
    using dropped_request_is_answered [OF fifo.mpsc_channel_axioms _ _ _ enc [of None], of "RangeType 0 1" "RangeType 1 1"]
      dropped_request_is_answered [OF fifo.mpsc_channel_axioms _ _ _ enc [of "Some 0"], of "RangeType 0 1" "RangeType 1 1"]
    by (simp add: request_one_def fifo_new_def has_room_def)
qed

text \<open>A response that fails is never sent. When \<open>try_response\<close> reports an error, because the
  codec could not encode it or because the writer's channel is full or closed, nothing was
  queued, and the request is spent all the same: a retry is refused and the drop guard no
  longer reports \<open>Unhandled\<close>, so the remote never gets any answer.\<close>

theorem failed_response_is_never_sent:
  assumes "mpsc_channel ops queue closed capacity" and "t_tx_deferred core = Some q"
    and "try_response ops core ib buf p = Done (core', ib', buf', Inl e)"
  shows "\<exists>q'. t_tx_deferred core' = Some q' \<and> queue q' = queue q \<and>
    try_response ops core' ib' buf2 p2 = Done (core', ib', buf2, Inl TryRespInboundNotRequest) \<and>
    inbound_drop ops core' ib' = Done core'"
  using try_response_error_queue [OF assms] try_response_consumes [OF assms(3)]
  by (auto simp: try_response_not_request inbound_drop_def)

theorem failed_response_is_never_sent_witness:
  "\<exists>core' q'. try_response fifo_ops (core_one (Some 0)) request_one [] (payload_from_error Busy) =
      Done (core', request_one\<lparr>ib_req_id := 0\<rparr>, [], Inl (TryRespMsgError TryChannelAtCapacity)) \<and>
    t_tx_deferred core' = Some q' \<and> fifo_items q' = [] \<and>
    inbound_drop fifo_ops core' (request_one\<lparr>ib_req_id := 0\<rparr>) = Done core'"
proof -
  obtain core' where fail: "try_response fifo_ops (core_one (Some 0)) request_one [] (payload_from_error Busy) =
      Done (core', request_one\<lparr>ib_req_id := 0\<rparr>, [], Inl (TryRespMsgError TryChannelAtCapacity))"
    by (simp add: try_response_def encode_response_raw_id [OF request_one_raw_id] plain_codec_def
        fifo_ops_def fifo_new_def has_room_def)
  show ?thesis
    using fail failed_response_is_never_sent [OF fifo.mpsc_channel_axioms _ fail, of "fifo_new (Some 0)"]
    by (auto simp: fifo_new_def)
qed

text \<open>What a checked message promises about its method name.\<close>

definition method_ok :: "inbound_inner \<Rightarrow> bool" where
  "method_ok ib \<longleftrightarrow> (\<exists>m. inbound_method ib = Done m \<and> utf8_valid m)"

lemma check_method_ok:
  "check_method ib = Done (Inr (Some ib')) \<Longrightarrow> ib' = ib \<and> method_ok ib"
  by (cases "method_bytes ib")
    (auto simp: check_method_def method_ok_def inbound_method_def from_utf8_def utf8_valid_def
      split: sum.splits)

lemma handle_inbound_once_message:
  assumes "handle_inbound_once core frame scratch = Done (core', scratch', Inr (Some ib))"
  shows "method_ok ib \<and> core' = core"
proof -
  obtain scratch1 f decoded where dec: "decode_inbound (core_codec core) scratch frame = Done (scratch1, f, decoded)"
    using assms by (auto simp: handle_inbound_once_def obind_Done_iff)
  consider e where "decoded = Inl e" | rid m p where "decoded = Inr (FrameRequest rid m p)"
    | m p where "decoded = Inr (FrameNotify m p)" | i errc p where "decoded = Inr (FrameResponse i errc p)"
    by (metis inbound_frame_type.exhaust sum.exhaust)
  then show ?thesis
  proof cases
    case 4
    then show ?thesis using assms dec
      by (auto simp: handle_inbound_once_def handle_response_def
          split: option.split_asm prod.split_asm sum.split_asm)
  qed (use assms dec in \<open>auto simp: handle_inbound_once_def obind_Done_iff dest: check_method_ok\<close>)
qed

text \<open>Every message the receiver hands out has a method name that is valid UTF-8, whatever the
  codec reported, and so have the messages made from it by \<open>take\<close> and \<open>clone_message\<close> and
  what they leave behind: the unchecked conversion in \<open>Inbound::method\<close> is never undefined
  behaviour.\<close>

theorem received_method_is_utf8:
  assumes "handle_inbound_once core frame scratch = Done (core', scratch', Inr (Some ib))"
    and "ib' \<in> {ib, fst (inbound_take ib), snd (inbound_take ib),
                 fst (clone_message ib b), snd (clone_message ib b)}"
  shows "\<exists>m. inbound_method ib' = Done m \<and> utf8_valid m"
proof -
  have same: "inbound_method ib1 = inbound_method ib"
    if "ib_buffer ib1 = ib_buffer ib" "ib_method ib1 = ib_method ib" for ib1
    using that by (simp add: inbound_method_def method_bytes_def)
  have empty: "inbound_method (fst (inbound_take ib)) = Done []"
    by (simp add: inbound_take_def inbound_method_def method_bytes_def range_default_def index_by_eq
        index_range_def sub_bytes_def atomic_take_req_range_def)
  have "ib' = fst (inbound_take ib) \<or> ib_buffer ib' = ib_buffer ib \<and> ib_method ib' = ib_method ib"
    using assms(2) by (auto simp: inbound_take_def clone_message_def atomic_take_req_range_def)
  then have "inbound_method ib' = Done [] \<or> inbound_method ib' = inbound_method ib"
    using empty same [of ib'] by metis
  then show ?thesis
    using handle_inbound_once_message [OF assms(1)] by (auto simp: method_ok_def)
qed

text \<open>
  A codec whose frames are: a tag byte; 1 is a notification with a one-byte method, 2 a
  response to the request the second byte names. The rest is the payload.
\<close>

definition tag_codec :: "(bytes, bytes) codec" where
  "tag_codec = plain_codec\<lparr>decode_inbound := (\<lambda>s f. Done (s, f,
     case f of
       t # b # rest \<Rightarrow>
         (if t = 1 then Inr (FrameNotify (1, 2) (2, of_nat (length f)))
          else if t = 2 then Inr (FrameResponse (RequestId (ucast b)) None (2, of_nat (length f)))
          else Inl InvalidFormat)
     | _ \<Rightarrow> Inl InvalidFormat))\<rparr>"

definition core_tag :: "(bytes, bytes, writer_directive fifo, unit) rpc_core" where
  "core_tag = (core_one None)\<lparr>core_codec := tag_codec\<rparr>"

lemma core_tag_simps [simp]:
  "core_codec core_tag = tag_codec" "core_reqs core_tag = Some table_one"
  "t_tx_deferred core_tag = Some (fifo_new None)"
  by (simp_all add: core_tag_def)

lemma tag_codec_response:
  "decode_inbound tag_codec [] [2, b, x] =
     Done ([], [2, b, x], Inr (FrameResponse (RequestId (ucast b)) None (2, 3)))"
  by (simp add: tag_codec_def)

lemma table_one_waiter [simp]: "response (waiters table_one ! 0) = StNone"
  by (simp add: table_one_def session_one_def)

lemma core_tag_notify:
  "handle_inbound_once core_tag [1, 0x41] [] =
     Done (core_tag, [], Inr (Some (inbound_new_notify [1, 0x41] (RangeType 1 2) (RangeType 2 2))))"
  by (simp add: handle_inbound_once_def tag_codec_def check_method_def method_bytes_def
      inbound_new_notify_def range_from_def index_by_eq index_range_def sub_bytes_def utf8_valid_ascii)

theorem received_method_is_utf8_witness:
  "inbound_method (inbound_new_notify [1, 0x41] (RangeType 1 2) (RangeType 2 2)) = Done [0x41] \<and>
   (\<exists>m. inbound_method (fst (inbound_take (inbound_new_notify [1, 0x41] (RangeType 1 2) (RangeType 2 2)))) =
      Done m \<and> utf8_valid m)"
  using received_method_is_utf8 [OF core_tag_notify]
  by (simp add: inbound_method_def method_bytes_def inbound_new_notify_def index_by_eq index_range_def
      sub_bytes_def utf8_valid_ascii)

text \<open>Handling a response frame for a pending request.\<close>

lemma poll_after_set_response:
  assumes "table_ok c" and "\<not> expired c" and "map_of (wait_list c) i = Some r"
    and "accepts_response (response (waiters c ! r))"
  obtains c1 c2 where "set_response c i raw payload errc = (c1, Inr ())"
    "rr_poll codec t c1 (receive_response_new (Receive i r)) =
       Done (c2, \<lparr>rr_state = None\<rparr>, Ready_now (map_err RecvResponse (make_response codec raw payload errc)))"
    "map_of (wait_list c2) = (map_of (wait_list c))(i := None)"
proof -
  let ?c1 = "waker_wake r (set_response_store c r raw payload errc)"
  have reg: "(i, r) \<in> set (wait_list c)" using assms(3) by (rule map_of_SomeD)
  then have r: "r < length (waiters c)" using table_ok_member [OF assms(1)] by blast
  then have resp: "response (waiters (set_response_store c r raw payload errc) ! r) = StReady raw errc payload"
    using assms(4) by (simp add: response_set_response_store)
  have set: "set_response c i raw payload errc = (?c1, Inr ())"
    using assms(2,3) by (simp add: set_response_def set_response_lookup_def set_response_commit_def)
  have reg1: "(rcv_id (Receive i r), rcv_obj (Receive i r)) \<in> set (wait_list ?c1)" using reg by simp
  have fin: "(receive_response_new (Receive i r))\<lparr>rr_state := None\<rparr> = \<lparr>rr_state = None\<rparr>"
    by (simp add: receive_response_new_def)
  show thesis
    by (rule that [OF set])
      (simp_all add: rr_poll_registered [OF reg1] Let_def resp fin, simp add: fun_eq_iff)
qed

text \<open>C9: A response frame completes exactly the request it answers: when the decoder reports a
  response to a pending request of an unexpired connection, handling the frame returns
  nothing to the user, and the next poll of that request's future yields the response, or
  the remote's error, over the very frame received; its identifier is freed and every
  other entry of the table stays.\<close>

theorem response_frame_completes_request:
  assumes "decode_inbound (core_codec core) scratch frame = Done (scratch', ib, Inr (FrameResponse i errc p))"
    and "core_reqs core = Some c" and "table_ok c" and "\<not> expired c"
    and "map_of (wait_list c) i = Some r" and "accepts_response (response (waiters c ! r))"
  shows "\<exists>c1 c2. handle_inbound_once core frame scratch =
      Done (core\<lparr>core_reqs := Some c1\<rparr>, scratch', Inr None) \<and>
    rr_poll (core_codec core) t c1 (receive_response_new (Receive i r)) =
      Done (c2, \<lparr>rr_state = None\<rparr>,
        Ready_now (map_err RecvResponse (make_response (core_codec core) ib (range_from p) errc))) \<and>
    map_of (wait_list c2) = (map_of (wait_list c))(i := None)"
proof -
  obtain c1 c2 where set: "set_response c i ib (range_from p) errc = (c1, Inr ())"
    and "rr_poll (core_codec core) t c1 (receive_response_new (Receive i r)) = Done (c2, \<lparr>rr_state = None\<rparr>,
        Ready_now (map_err RecvResponse (make_response (core_codec core) ib (range_from p) errc)))"
      "map_of (wait_list c2) = (map_of (wait_list c))(i := None)"
    by (rule poll_after_set_response [OF assms(3-6)])
  moreover have "handle_inbound_once core frame scratch =
      Done (core\<lparr>core_reqs := Some c1\<rparr>, scratch', Inr None)"
    by (simp add: handle_inbound_once_def handle_response_def assms(1,2) set)
  ultimately show ?thesis by blast
qed

theorem response_frame_completes_request_witness:
  "\<exists>c1 c2. handle_inbound_once core_tag [2, 7, 0x2A] [] =
      Done (core_tag\<lparr>core_reqs := Some c1\<rparr>, [], Inr None) \<and>
    rr_poll tag_codec 6 c1 (receive_response_new (Receive (RequestId 7) 0)) =
      Done (c2, \<lparr>rr_state = None\<rparr>, Ready_now (Inr
        \<lparr>resp_codec = tag_codec, resp_raw = [2, 7, 0x2A], resp_payload = RangeType 2 3\<rparr>))"
  using response_frame_completes_request [of core_tag "[]" "[2, 7, 0x2A]" "[]" "[2, 7, 0x2A]"
      "RequestId 7" None "(2, 3)" table_one 0 6]
  by (simp add: tag_codec_response make_response_def range_from_def) blast

text \<open>A response nobody waits for is returned, not lost: when its identifier is not pending, the
  context is expired or requests are disabled, the user gets the whole response back as
  \<open>UnhandledResponse\<close> and the connection is unchanged.\<close>

theorem unhandled_response_is_returned:
  assumes "decode_inbound (core_codec core) scratch frame = Done (scratch', ib, Inr (FrameResponse i errc p))"
    and "case core_reqs core of None \<Rightarrow> True | Some c \<Rightarrow> map_of (wait_list c) i = None \<or> expired c"
  shows "handle_inbound_once core frame scratch = Done (core, scratch',
    Inl (RxUnhandledResponse (make_response (core_codec core) ib (range_from p) errc)))"
  using assms
  by (auto simp: handle_inbound_once_def handle_response_def set_response_def set_response_lookup_def
      set_response_commit_def split: option.splits)

theorem unhandled_response_is_returned_witness:
  "handle_inbound_once core_tag [2, 8, 0x2A] [] = Done (core_tag, [], Inl (RxUnhandledResponse (Inr
     \<lparr>resp_codec = tag_codec, resp_raw = [2, 8, 0x2A], resp_payload = RangeType 2 3\<rparr>)))"
  using unhandled_response_is_returned [of core_tag "[]" "[2, 8, 0x2A]" "[]" "[2, 8, 0x2A]"
      "RequestId 8" None "(2, 3)"]
  by (simp add: tag_codec_response make_response_def range_from_def)

text \<open>What the background tasks leave of the request context.\<close>

definition same_table :: "request_context option \<Rightarrow> request_context option \<Rightarrow> bool" where
  "same_table a b \<longleftrightarrow> rel_option (\<lambda>c c'. wait_list c' = wait_list c \<and> expired c' = expired c) a b"

lemma same_table_refl [simp]: "same_table a a"
  by (auto simp: same_table_def intro: option.rel_refl)

lemma same_table_trans: "same_table a b \<Longrightarrow> same_table b c \<Longrightarrow> same_table a c"
  by (cases a; cases b; cases c) (auto simp: same_table_def)

lemma try_response_reqs:
  assumes "try_response ops core ib buf p = Done (core', ib', buf', r)"
  shows "core_reqs core' = core_reqs core"
proof -
  obtain ib1 buf1 enc where enc: "inbound_encode_response (core_codec core) ib buf p = Done (ib1, buf1, enc)"
    using assms by (auto simp: try_response_def obind_Done_iff)
  consider "enc = None" | e where "enc = Some (Inl e)" | "enc = Some (Inr ())"
    by (metis option.exhaust sum.exhaust unit.exhaust)
  then show ?thesis
    by cases (use assms enc in \<open>auto simp: try_response_def split_beta split: option.split_asm\<close>)
qed

lemma drop_message_reqs:
  "drop_message ops core msg = Done core' \<Longrightarrow> core_reqs core' = core_reqs core"
  by (auto simp: drop_message_def inbound_drop_def obind_Done_iff try_response_reqs
      split: sum.splits if_splits)

lemma handle_response_same_table:
  "same_table (core_reqs core) (core_reqs (fst (handle_response core ib i errc p)))"
  by (auto simp: handle_response_def same_table_def set_response_def set_response_commit_def
      split: option.splits prod.splits sum.splits if_splits)

lemma handle_inbound_once_same_table:
  assumes "handle_inbound_once core frame scratch = Done (core', scratch', r)"
  shows "same_table (core_reqs core) (core_reqs core')"
proof -
  obtain scratch1 f decoded where dec: "decode_inbound (core_codec core) scratch frame = Done (scratch1, f, decoded)"
    using assms by (auto simp: handle_inbound_once_def obind_Done_iff)
  consider e where "decoded = Inl e" | rid m p where "decoded = Inr (FrameRequest rid m p)"
    | m p where "decoded = Inr (FrameNotify m p)" | i errc p where "decoded = Inr (FrameResponse i errc p)"
    by (metis inbound_frame_type.exhaust sum.exhaust)
  then show ?thesis
  proof cases
    case 4
    then show ?thesis using assms dec handle_response_same_table [of core f i errc "range_from p"]
      by (auto simp: handle_inbound_once_def split_beta)
  qed (use assms dec in \<open>auto simp: handle_inbound_once_def obind_Done_iff\<close>)
qed

lemma receiver_recv_same_table:
  "receiver_recv core scratch reads = Done (core', scratch', reads', m) \<Longrightarrow>
     same_table (core_reqs core) (core_reqs core')"
proof (induction reads arbitrary: core scratch)
  case Nil
  then show ?case by simp
next
  case (Cons x reads)
  show ?case
  proof (cases "\<exists>frame. x = Inr (Some frame)")
    case False
    then show ?thesis using Cons.prems by (cases x rule: sum.exhaust; auto)
  next
    case True
    then obtain frame core1 scratch1 r where x: "x = Inr (Some frame)"
      and once: "handle_inbound_once core frame [] = Done (core1, scratch1, r)"
      using Cons.prems by (auto simp: obind_Done_iff)
    note same = handle_inbound_once_same_table [OF once]
    show ?thesis
    proof (cases "r = Inr None")
      case True
      then show ?thesis using Cons x once same_table_trans [OF same] by auto
    next
      case False
      then show ?thesis using Cons.prems x once same by (auto split: sum.split_asm option.split_asm)
    qed
  qed
qed

lemma weak_runner_same_table:
  "weak_runner (drop_message ops) core evs = Done (Some core', status) \<Longrightarrow>
     same_table (core_reqs core) (core_reqs core')"
proof (induction evs arbitrary: core)
  case Nil
  then show ?case by simp
next
  case (Cons ev evs)
  show ?case
  proof (cases "\<exists>frame. ev = WeakNext (Inr (Some frame))")
    case False
    then consider "ev = WeakHandlesDropped" | e where "ev = WeakNext (Inl e)" | "ev = WeakNext (Inr None)"
      by (metis weak_event.exhaust sum.exhaust option.exhaust)
    then show ?thesis by cases (use Cons.prems in auto)
  next
    case True
    then obtain frame core1 scratch1 r where ev: "ev = WeakNext (Inr (Some frame))"
      and once: "handle_inbound_once core frame [] = Done (core1, scratch1, r)"
      using Cons.prems by (auto simp: obind_Done_iff)
    note same = handle_inbound_once_same_table [OF once]
    consider "r = Inr None" | msg core2 where "drop_message ops core1 msg = Done core2"
        "weak_runner (drop_message ops) core2 evs = Done (Some core', status)"
      using Cons.prems ev once
      by (cases r) (auto simp: obind_Done_iff split: option.split_asm)
    then show ?thesis
    proof cases
      case 1
      then show ?thesis using Cons ev once same_table_trans [OF same] by auto
    next
      case 2
      then show ?thesis using Cons.IH [OF 2(2)] drop_message_reqs [OF 2(1)] same_table_trans [OF same] by simp
    qed
  qed
qed

text \<open>C22: The client's read task never expires pending requests: however it returns while handles
  are alive, end of stream and I/O errors included, the context is unexpired, no request has
  left the table, and polling the future of a request without a response is still pending.
  The full receiver's drop would have released it with \<open>Closed\<close>; here a request whose
  server has gone away waits until the writer fails.\<close>

theorem weak_runner_exit_leaves_requests_waiting:
  assumes "weak_runner (drop_message ops) core evs = Done (Some core', Returned r)"
    and "core_reqs core = Some c" and "\<not> expired c"
  shows "\<exists>c'. core_reqs core' = Some c' \<and> \<not> expired c' \<and> wait_list c' = wait_list c \<and>
    (\<forall>(i, w) \<in> set (wait_list c'). response (waiters c' ! w) = StNone \<longrightarrow>
       (\<exists>c''. rr_poll codec t c' (receive_response_new (Receive i w)) =
          Done (c'', receive_response_new (Receive i w), Pending)))"
proof -
  obtain c' where c': "core_reqs core' = Some c'" "wait_list c' = wait_list c" "\<not> expired c'"
    using weak_runner_same_table [OF assms(1)] assms(2,3)
    by (cases "core_reqs core'") (auto simp: same_table_def)
  have "\<exists>c''. rr_poll codec t c' (receive_response_new (Receive i w)) =
      Done (c'', receive_response_new (Receive i w), Pending)"
    if "(i, w) \<in> set (wait_list c')" "response (waiters c' ! w) = StNone" for i w
    using that c'(3) rr_poll_registered [of "Receive i w" c' "receive_response_new (Receive i w)" codec t]
    by (simp add: Let_def)
  then show ?thesis using c' by blast
qed

theorem weak_runner_exit_leaves_requests_waiting_witness:
  "\<exists>c''. weak_runner (drop_message fifo_ops) core_tag [WeakNext (Inr None)] =
      Done (Some core_tag, Returned (Inr ReadEof)) \<and>
    rr_poll tag_codec 6 table_one (receive_response_new (Receive (RequestId 7) 0)) =
      Done (c'', receive_response_new (Receive (RequestId 7) 0), Pending)"
  using weak_runner_exit_leaves_requests_waiting [of fifo_ops core_tag "[WeakNext (Inr None)]" core_tag
      "Inr ReadEof" table_one tag_codec 6]
  by simp

lemma expired_split_end:
  "core_reqs (split_end core) = Some c \<Longrightarrow> expired c"
  by (auto simp: split_end_def)

lemma split_end_None [simp]: "core_reqs (split_end core) = None \<longleftrightarrow> core_reqs core = None"
  by (simp add: split_end_def)

definition split_ended ::
  "('r \<Rightarrow> ('p, 'd) message list) \<Rightarrow> ('r \<Rightarrow> bool) \<Rightarrow> request_context option
   \<Rightarrow> ('p, 'd, 'q, 'u) rpc_core \<Rightarrow> 'r \<Rightarrow> bool" where
  "split_ended queue closed before core tx \<longleftrightarrow>
     (core_reqs core = None \<longleftrightarrow> before = None) \<and> (\<forall>c. core_reqs core = Some c \<longrightarrow> expired c) \<and>
     (closed tx \<or> (\<exists>e msgs. is_eof e \<and> queue tx = msgs @ [Inl e]))"

lemma split_recv_loop_end:
  assumes chan: "mpsc_channel mops queue closed capacity"
  shows "split_recv_loop ops mops core scratch tx held reads = Done (core', tx', reads', SplitEnded) \<Longrightarrow>
    split_ended queue closed (core_reqs core) core' tx'"
proof (induction "2 * length reads + (if held = None then 0 else 1)" arbitrary: core scratch tx held reads
    rule: less_induct)
  case less
  show ?case
  proof (cases held)
    case None
    obtain core1 scratch1 reads1 msg where recv:
      "receiver_recv core scratch reads = Done (core1, scratch1, reads1, Ready_now msg)"
      and rest: "split_recv_loop ops mops core1 scratch1 tx (Some msg) reads1 = Done (core', tx', reads', SplitEnded)"
      using less.prems None by (auto split: outcome.split_asm prod.split_asm poll.split_asm)
    have "length reads1 < length reads" using receiver_recv_shrinks [OF recv] .
    then have "split_ended queue closed (core_reqs core1) core' tx'"
      by (intro less.hyps [OF _ rest]) (simp add: None)
    then show ?thesis
      using receiver_recv_same_table [OF recv]
      by (cases "core_reqs core"; cases "core_reqs core1") (auto simp: split_ended_def same_table_def)
  next
    case (Some msg)
    consider tx1 where "ch_send mops tx msg = Ready_now (tx1, Inl ())" | tx1 where "ch_send mops tx msg = Ready_now (tx1, Inr ())"
      using less.prems Some by (auto split: poll.split_asm prod.split_asm sum.split_asm)
    then show ?thesis
    proof cases
      case 1
      then obtain core1 where "drop_message ops core msg = Done core1" "core' = split_end core1" "tx' = tx1"
        using less.prems Some by (auto simp: obind_Done_iff)
      then show ?thesis
        using drop_message_reqs [of ops core msg core1] mpsc_channel.send_queue [OF chan 1]
        by (auto simp: split_ended_def expired_split_end)
    next
      case 2
      show ?thesis
      proof (cases "message_is_eof msg")
        case True
        then show ?thesis
          using less.prems Some 2 mpsc_channel.send_queue [OF chan 2]
          by (auto simp: split_ended_def expired_split_end message_is_eof_def split: sum.split_asm)
      next
        case False
        then show ?thesis
          using less.prems Some 2 by (intro less.hyps [of reads None core scratch tx1]) auto
      qed
    qed
  qed
qed

text \<open>C19: The split receiver task ends in one of two ways only, and both expire the pending
  requests: either the user dropped the message channel, or the end of the stream or an
  I/O error was received and was handed to the user as the last message.\<close>

theorem split_task_end_expires:
  assumes "mpsc_channel mops queue closed capacity"
    and "split_recv_loop ops mops core scratch tx None reads = Done (core', tx', reads', SplitEnded)"
    and "core_reqs core = Some c"
  shows "\<exists>c'. core_reqs core' = Some c' \<and> expired c' \<and>
    (closed tx' \<or> (\<exists>e msgs. is_eof e \<and> queue tx' = msgs @ [Inl e]))"
  using split_recv_loop_end [OF assms(1,2)] assms(3) by (auto simp: split_ended_def)

theorem split_task_end_expires_witness:
  "\<exists>core' tx' c'. split_recv_loop fifo_ops fifo_ops core_tag [] (fifo_new None) None [Inr None] =
      Done (core', tx', [], SplitEnded) \<and> core_reqs core' = Some c' \<and> expired c' \<and>
    fifo_items tx' = [Inl RxEof]"
proof -
  obtain core' tx' where run: "split_recv_loop fifo_ops fifo_ops core_tag [] (fifo_new None) None [Inr None] =
      Done (core', tx', [], SplitEnded)" and tx': "fifo_items tx' = [Inl RxEof]"
    by (simp add: fifo_ops_def fifo_new_def has_room_def message_is_eof_def)
  show ?thesis
    using run tx' split_task_end_expires [OF fifo.mpsc_channel_axioms run, of table_one] by auto
qed

end
