(* ===== verification/Builder.thy ===== *)
theory Builder
  imports Receiver
begin

text \<open>
  \<open>src/rpc/core.rs\<close>: the connection builder and the four ways to start a connection. Starting
  one creates the shared core, the state of the writer task and the receiver. The channel
  constructors of \<open>async-channel\<close> are the parameter \<open>mk\<close>: the empty channel of a capacity,
  \<open>None\<close> being unbounded.
\<close>

subsection \<open>The builder\<close>

record ('w, 'r, 'u, 'c) builder =
  b_writer :: 'w
  b_reader :: 'r
  b_user_data :: 'u
  b_codec :: 'c
  b_capacity :: "nat option"

definition builder_new :: "(unit, unit, unit, unit) builder" where
  "builder_new = \<lparr>b_writer = (), b_reader = (), b_user_data = (), b_codec = (), b_capacity = None\<rparr>"

definition with_frame_writer ::
  "'w2 \<Rightarrow> ('w, 'r, 'u, 'c) builder \<Rightarrow> ('w2, 'r, 'u, 'c) builder" where
  "with_frame_writer w b =
     \<lparr>b_writer = w, b_reader = b_reader b, b_user_data = b_user_data b, b_codec = b_codec b,
      b_capacity = b_capacity b\<rparr>"

text \<open>\<open>with_stream_writer\<close> defines an adapter that writes whole frames, and stores the bare stream.\<close>

definition with_stream_writer ::
  "'w2 \<Rightarrow> ('w, 'r, 'u, 'c) builder \<Rightarrow> ('w2, 'r, 'u, 'c) builder" where
  "with_stream_writer w b =
     \<lparr>b_writer = w, b_reader = b_reader b, b_user_data = b_user_data b, b_codec = b_codec b,
      b_capacity = b_capacity b\<rparr>"

definition with_frame_reader ::
  "'r2 \<Rightarrow> ('w, 'r, 'u, 'c) builder \<Rightarrow> ('w, 'r2, 'u, 'c) builder" where
  "with_frame_reader r b =
     \<lparr>b_writer = b_writer b, b_reader = r, b_user_data = b_user_data b, b_codec = b_codec b,
      b_capacity = b_capacity b\<rparr>"

definition with_user_data ::
  "'u2 \<Rightarrow> ('w, 'r, 'u, 'c) builder \<Rightarrow> ('w, 'r, 'u2, 'c) builder" where
  "with_user_data u b =
     \<lparr>b_writer = b_writer b, b_reader = b_reader b, b_user_data = u, b_codec = b_codec b,
      b_capacity = b_capacity b\<rparr>"

definition with_codec ::
  "'c2 \<Rightarrow> ('w, 'r, 'u, 'c) builder \<Rightarrow> ('w, 'r, 'u, 'c2) builder" where
  "with_codec c b =
     \<lparr>b_writer = b_writer b, b_reader = b_reader b, b_user_data = b_user_data b, b_codec = c,
      b_capacity = b_capacity b\<rparr>"

text \<open>A capacity that is no \<open>NonZeroUsize\<close> is dropped, which means unbounded.\<close>

definition with_outbound_queue_capacity ::
  "nat \<Rightarrow> ('w, 'r, 'u, 'c) builder \<Rightarrow> ('w, 'r, 'u, 'c) builder" where
  "with_outbound_queue_capacity n b = b\<lparr>b_capacity := channel_capacity n\<rparr>"

definition make_write_channel :: "(nat option \<Rightarrow> 'q) \<Rightarrow> nat option \<Rightarrow> 'q" where
  "make_write_channel mk cap = mk cap"

subsection \<open>Starting a connection\<close>

text \<open>
  Each result holds the core, what is left of the reader and the initial state of the
  writer task, where there is one. The task's weak handle upgrades to the core's request
  context; in a write-only connection it is \<open>Weak::default()\<close>, which never upgrades.
\<close>

definition build_core ::
  "(nat option \<Rightarrow> 'q) \<Rightarrow> ('w, 'r, 'u, ('p, 'd) codec) builder \<Rightarrow> request_context option
   \<Rightarrow> ('p, 'd, 'q, 'u) rpc_core" where
  "build_core mk b reqs =
     \<lparr>core_codec = b_codec b, core_user_data = b_user_data b, core_reqs = reqs,
      t_tx_deferred = Some (make_write_channel mk (b_capacity b)), wake_on_drop = None\<rparr>"

definition build_client ::
  "(nat option \<Rightarrow> 'q) \<Rightarrow> ('w, 'r, 'u, ('p, 'd) codec) builder
   \<Rightarrow> ('p, 'd, 'q, 'u) rpc_core \<times> 'r \<times> ('w, 'q) runner" where
  "build_client mk b =
     (build_core mk b (Some request_context_new), b_reader b,
      runner_new (b_writer b) (make_write_channel mk (b_capacity b)) (Some (Some request_context_new)))"

definition build_server ::
  "(nat option \<Rightarrow> 'q) \<Rightarrow> ('w, 'r, 'u, ('p, 'd) codec) builder \<Rightarrow> bool
   \<Rightarrow> ('p, 'd, 'q, 'u) rpc_core \<times> 'r \<times> ('w, 'q) runner" where
  "build_server mk b enable_request =
     (let reqs = (if enable_request then Some request_context_new else None) in
      (build_core mk b reqs, b_reader b,
       runner_new (b_writer b) (make_write_channel mk (b_capacity b)) (Some reqs)))"

definition build_read_only ::
  "('w, 'r, 'u, ('p, 'd) codec) builder \<Rightarrow> ('p, 'd, 'q, 'u) rpc_core \<times> 'r" where
  "build_read_only b =
     (\<lparr>core_codec = b_codec b, core_user_data = b_user_data b, core_reqs = None,
       t_tx_deferred = None, wake_on_drop = None\<rparr>, b_reader b)"

definition build_write_only ::
  "(nat option \<Rightarrow> 'q) \<Rightarrow> ('w, 'r, 'u, ('p, 'd) codec) builder
   \<Rightarrow> ('p, 'd, 'q, 'u) rpc_core \<times> ('w, 'q) runner" where
  "build_write_only mk b =
     (build_core mk b None,
      runner_new (b_writer b) (make_write_channel mk (b_capacity b)) None)"

text \<open>The drop of the core wakes the task registered by the weak runner.\<close>

definition rpc_core_drop :: "('p, 'd, 'q, 'u) rpc_core \<Rightarrow> task list" where
  "rpc_core_drop core = (case wake_on_drop core of None \<Rightarrow> [] | Some t \<Rightarrow> [t])"

subsection \<open>Senders without a channel\<close>

text \<open>A builder for the examples.\<close>

definition builder_one :: "(unit, unit, unit, (bytes, bytes) codec) builder" where
  "builder_one = with_outbound_queue_capacity 2 (with_codec plain_codec builder_new)"

text \<open>The notification handle of a read-only connection is unsound: \<open>build_read_only\<close> creates no
  writer channel, \<open>create_notify_sender\<close> hands out a sender all the same, and the first
  frame sent through it, in safe code, is undefined behaviour (\<open>unwrap_unchecked\<close> on
  \<open>None\<close>) as soon as the codec has encoded it.\<close>

theorem read_only_sender_is_undefined:
  assumes "build_read_only b = (core, rd)"
    and "encode_notify (b_codec b) meth params [] = (frame, Inr ())"
  shows "try_send_notify ops (create_notify_sender core) buf meth params = Undef \<and>
    send_notify ops (create_notify_sender core) buf meth params = Undef \<and>
    try_flush_writer ops (create_notify_sender core) = Undef"
  using assms
  by (auto simp: build_read_only_def create_notify_sender_def try_send_notify_def send_notify_def
      try_flush_writer_def try_send_frame_def send_frame_def sender_tx_def)

theorem read_only_sender_is_undefined_witness:
  "try_send_notify fifo_ops (create_notify_sender (fst (build_read_only builder_one))) [] [1] [2] = Undef"
proof -
  have "encode_notify (b_codec builder_one) [1] [2] [] = ([1, 2], Inr ())"
    by (simp add: builder_one_def with_outbound_queue_capacity_def with_codec_def plain_codec_def)
  moreover have "build_read_only builder_one = (fst (build_read_only builder_one), ())"
    by (simp add: prod_eq_iff)
  ultimately show ?thesis
    using read_only_sender_is_undefined [of builder_one _ "()" "[1]" "[2]" "[1, 2]" fifo_ops "[]"] by blast
qed

end
