(* ===== verification/Rawrpc.thy ===== *)
theory Rawrpc
  imports Codec_Contract
begin

text \<open>
  The raw codec of \<open>src/ext_codec/rawrpc.rs\<close>: a frame is a serialised head followed by the
  serialised payload. Serialisation is the crate \<open>postcard\<close>, a parameter: what it writes
  for a head, for a value and for one byte, and what its deserialiser reads from a frame.
  The deserialiser borrows, so the byte strings in the head it returns are slices of the
  frame, given by offset and length. The contract is the locale \<open>postcard\<close>, interpreted at
  the end on a length-prefixed format.
\<close>

subsection \<open>The serialisation library\<close>

text \<open>\<open>Head\<close>, over the representation \<open>'s\<close> of its byte strings.\<close>

datatype 's head =
  HeadNotify 's            \<comment> \<open>method\<close>
| HeadRequest 's 's        \<comment> \<open>request id, method\<close>
| HeadResponse 's          \<comment> \<open>request id\<close>
| HeadResponseErr 's u8    \<comment> \<open>request id, error code\<close>

type_synonym slice_ref = "nat \<times> nat"

record ('p, 'd) postcard_ops =
  ser_head :: "bytes head \<Rightarrow> serde_error + bytes"
  ser_value :: "'p \<Rightarrow> serde_error + bytes"
  ser_u8 :: "u8 \<Rightarrow> serde_error + bytes"
  de_head :: "bytes \<Rightarrow> serde_error + slice_ref head \<times> slice_ref"
  de_payload :: "bytes \<Rightarrow> 'd"

definition slice_of :: "bytes \<Rightarrow> slice_ref \<Rightarrow> bytes" where
  "slice_of frame r = sub_bytes (fst r) (fst r + snd r) frame"

definition in_frame :: "bytes \<Rightarrow> slice_ref \<Rightarrow> bool" where
  "in_frame frame r \<longleftrightarrow> fst r + snd r \<le> length frame"

subsection \<open>Identifiers\<close>

definition request_id_as_bytes :: "request_id \<Rightarrow> bytes" where
  "request_id_as_bytes i = u64_to_le (request_id_value i)"

text \<open>Any identifier of at least eight bytes is read, from its first eight.\<close>

definition request_id_from_bytes :: "bytes \<Rightarrow> request_id option" where
  "request_id_from_bytes bs =
     (if length bs < 8 then None
      else map_option RequestId (nonzero_u64_new (u64_from_le (take 8 bs))))"

definition raw_restore_request_id :: "bytes \<Rightarrow> decode_error + request_id" where
  "raw_restore_request_id raw = ok_or InvalidFormat (request_id_from_bytes raw)"

subsection \<open>Encoding\<close>

text \<open>
  \<open>serialize\<close> moves the buffer into the serialiser and back: when the serialiser fails the
  buffer is left empty, whatever it held.
\<close>

definition raw_serialize :: "bytes \<Rightarrow> serde_error + bytes \<Rightarrow> bytes \<times> (encode_error + unit)" where
  "raw_serialize buf out =
     (case out of Inl e \<Rightarrow> ([], Inl (SerializeFailed e)) | Inr bs \<Rightarrow> (buf @ bs, Inr ()))"

definition raw_serialize2 ::
  "bytes \<Rightarrow> serde_error + bytes \<Rightarrow> serde_error + bytes \<Rightarrow> bytes \<times> (encode_error + unit)" where
  "raw_serialize2 buf out1 out2 =
     (case raw_serialize buf out1 of
        (buf1, Inl e) \<Rightarrow> (buf1, Inl e)
      | (buf1, Inr _) \<Rightarrow> raw_serialize buf1 out2)"

definition raw_encode_notify ::
  "('p, 'd) postcard_ops \<Rightarrow> bytes \<Rightarrow> 'p \<Rightarrow> bytes \<Rightarrow> bytes \<times> (encode_error + unit)" where
  "raw_encode_notify pc meth params buf =
     raw_serialize2 buf (ser_head pc (HeadNotify meth)) (ser_value pc params)"

definition raw_encode_request ::
  "('p, 'd) postcard_ops \<Rightarrow> request_id \<Rightarrow> bytes \<Rightarrow> 'p \<Rightarrow> bytes
   \<Rightarrow> bytes \<times> (encode_error + request_id)" where
  "raw_encode_request pc i meth params buf =
     (case raw_serialize2 buf (ser_head pc (HeadRequest (request_id_as_bytes i) meth)) (ser_value pc params) of
        (buf1, r) \<Rightarrow> (buf1, map_sum id (\<lambda>_. i) r))"

fun raw_split_error :: "'p encode_response_payload \<Rightarrow> (response_error \<times> 'p option) option" where
  "raw_split_error (PayloadOk r) = None"
| "raw_split_error (ErrCodeOnly ec) = Some (ec, None)"
| "raw_split_error (ErrObjectOnly eo) = Some (Unknown, Some eo)"
| "raw_split_error (PayloadErr ec eo) = Some (ec, Some eo)"

text \<open>The error code is \<open>errc as u8\<close>, the discriminant of the enumeration.\<close>

definition raw_encode_response ::
  "('p, 'd) postcard_ops \<Rightarrow> bytes \<Rightarrow> 'p encode_response_payload \<Rightarrow> bytes
   \<Rightarrow> bytes \<times> (encode_error + unit)" where
  "raw_encode_response pc raw result buf =
     (case raw_restore_request_id raw of
        Inl _ \<Rightarrow> (buf, Inl InvalidRequestId)
      | Inr i \<Rightarrow>
          (case (result, raw_split_error result) of
             (PayloadOk r, _) \<Rightarrow>
               raw_serialize2 buf (ser_head pc (HeadResponse (request_id_as_bytes i))) (ser_value pc r)
           | (_, Some (ec, Some eo)) \<Rightarrow>
               raw_serialize2 buf
                 (ser_head pc (HeadResponseErr (request_id_as_bytes i) (u8_of_response_error ec)))
                 (ser_value pc eo)
           | (_, Some (ec, None)) \<Rightarrow>
               raw_serialize2 buf
                 (ser_head pc (HeadResponseErr (request_id_as_bytes i) (u8_of_response_error ec)))
                 (ser_u8 pc (u8_of_response_error ec))
           | (_, None) \<Rightarrow> (buf, Inr ())))"

subsection \<open>Decoding\<close>

text \<open>
  \<open>range_of\<close> in 32-bit arithmetic. The sum panics on overflow when overflow checks are
  on and wraps otherwise; a slice that ends past the frame fails the assertion. A borrowed
  slice never starts before the frame.
\<close>

definition range_of :: "bool \<Rightarrow> bytes \<Rightarrow> slice_ref \<Rightarrow> std_range outcome" where
  "range_of checked base r =
     (let offset = word_of_nat (fst r) :: u32; len = word_of_nat (snd r) :: u32 in
      if checked \<and> offset + len < offset then Panic
      else if offset + len \<le> word_of_nat (length base) then Done (offset, offset + len)
      else Panic)"

definition raw_decode_response ::
  "bool \<Rightarrow> bytes \<Rightarrow> slice_ref \<Rightarrow> response_error option \<Rightarrow> slice_ref
   \<Rightarrow> (decode_error + inbound_frame_type) outcome" where
  "raw_decode_response checked frame raw errc payload =
     (case raw_restore_request_id (slice_of frame raw) of
        Inl e \<Rightarrow> Done (Inl e)
      | Inr i \<Rightarrow>
          obind (range_of checked frame payload) (\<lambda>p. Done (Inr (FrameResponse i errc p))))"

definition raw_decode_inbound ::
  "('p, 'd) postcard_ops \<Rightarrow> bool \<Rightarrow> bytes \<Rightarrow> bytes
   \<Rightarrow> (bytes \<times> bytes \<times> (decode_error + inbound_frame_type)) outcome" where
  "raw_decode_inbound pc checked scratch frame =
     (case de_head pc frame of
        Inl e \<Rightarrow> Done (scratch, frame, Inl (DecParseFailed e))
      | Inr (head, payload) \<Rightarrow>
          obind (case head of
              HeadNotify meth \<Rightarrow>
                obind (range_of checked frame meth) (\<lambda>m.
                obind (range_of checked frame payload) (\<lambda>p. Done (Inr (FrameNotify m p))))
            | HeadRequest raw meth \<Rightarrow>
                obind (range_of checked frame raw) (\<lambda>i.
                obind (range_of checked frame meth) (\<lambda>m.
                obind (range_of checked frame payload) (\<lambda>p. Done (Inr (FrameRequest i m p)))))
            | HeadResponse raw \<Rightarrow> raw_decode_response checked frame raw None payload
            | HeadResponseErr raw errc \<Rightarrow>
                raw_decode_response checked frame raw (Some (response_error_of_u8 errc)) payload)
            (\<lambda>r. Done (scratch, frame, r)))"

text \<open>
  The codec. \<open>addr\<close> is the address of the static object behind \<open>codec_reusability_id\<close>.
\<close>

definition raw_codec :: "('p, 'd) postcard_ops \<Rightarrow> bool \<Rightarrow> usize \<Rightarrow> ('p, 'd) codec" where
  "raw_codec pc checked addr =
     \<lparr>codec_reusability_id = addr,
      encode_notify = raw_encode_notify pc,
      encode_request = raw_encode_request pc,
      encode_response = raw_encode_response pc,
      payload_deserializer = (\<lambda>payload. Inr (de_payload pc payload)),
      decode_inbound = raw_decode_inbound pc checked,
      restore_request_id = raw_restore_request_id\<rparr>"

lemma request_id_bytes_roundtrip [simp]:
  "request_id_ok i \<Longrightarrow> request_id_from_bytes (request_id_as_bytes i) = Some i"
  by (cases i) (simp add: request_id_from_bytes_def request_id_as_bytes_def request_id_ok_def
      nonzero_u64_new_def)

lemma raw_restore_roundtrip [simp]:
  "request_id_ok i \<Longrightarrow> raw_restore_request_id (request_id_as_bytes i) = Inr i"
  by (simp add: raw_restore_request_id_def)

lemma range_of_in_frame:
  assumes "in_frame frame r" and "length frame < 2 ^ 32"
  obtains a b where "range_of checked frame r = Done (a, b)" "unat a = fst r" "unat b = fst r + snd r"
proof -
  let ?a = "word_of_nat (fst r) :: u32" and ?b = "word_of_nat (fst r + snd r) :: u32"
  have bounds: "fst r + snd r \<le> length frame" "fst r + snd r < 2 ^ 32" "fst r < 2 ^ 32"
    using assms by (simp_all add: in_frame_def)
  have a: "unat ?a = fst r" and b: "unat ?b = fst r + snd r"
    and l: "unat (word_of_nat (length frame) :: u32) = length frame"
    using bounds assms(2) by (simp_all add: unsigned_of_nat take_bit_nat_eq_self del: of_nat_add)
  have "range_of checked frame r = Done (?a, ?b)"
    using a b l bounds by (simp add: range_of_def Let_def word_less_nat_alt word_le_nat_alt flip: of_nat_add)
  then show thesis using that a b by blast
qed

subsection \<open>The contract of the serialisation library\<close>

text \<open>
  What the codec relies on: the deserialiser of a head that is followed by anything reads
  that head back, as slices of the frame, and leaves the rest as the payload. Method names
  are strings, so they are UTF-8.
\<close>

fun head_utf8 :: "bytes head \<Rightarrow> bool" where
  "head_utf8 (HeadNotify m) = utf8_valid m"
| "head_utf8 (HeadRequest i m) = utf8_valid m"
| "head_utf8 _ = True"

locale postcard =
  fixes pc :: "('p, 'd) postcard_ops" and checked :: bool and addr :: usize
  assumes head_roundtrip: "head_utf8 h \<Longrightarrow> ser_head pc h = Inr hb \<Longrightarrow>
      \<exists>r. de_head pc (hb @ rest) = Inr (r, (length hb, length rest)) \<and>
        map_head (slice_of (hb @ rest)) r = h \<and> (\<forall>x \<in> set_head r. in_frame (hb @ rest) x)"
begin

definition value_bytes :: "'p \<Rightarrow> bytes" where
  "value_bytes p = (case ser_value pc p of Inr bs \<Rightarrow> bs | Inl _ \<Rightarrow> [])"

lemma serialize2_ok:
  "raw_serialize2 [] out1 out2 = (f, Inr ()) \<Longrightarrow> \<exists>a b. out1 = Inr a \<and> out2 = Inr b \<and> f = a @ b"
  by (cases out1; cases out2) (auto simp: raw_serialize2_def raw_serialize_def)

lemma range_slice:
  assumes "in_frame frame r" and "length frame < 2 ^ 32"
  obtains rg where "range_of checked frame r = Done rg" "index_by frame (range_from rg) = Done (slice_of frame r)"
    "0 < snd r \<longrightarrow> snd rg \<noteq> 0"
proof -
  obtain a b where ab: "range_of checked frame r = Done (a, b)" "unat a = fst r" "unat b = fst r + snd r"
    using range_of_in_frame [OF assms] .
  moreover have "b \<noteq> 0" if "0 < snd r" using that ab(3) by auto
  ultimately show thesis
    using that assms(1)
    by (auto simp: range_from_def index_by_eq index_range_def slice_of_def in_frame_def)
qed

lemma payload_slice:
  "slice_of (hb @ rest) (length hb, length rest) = rest" "in_frame (hb @ rest) (length hb, length rest)"
  by (simp_all add: slice_of_def in_frame_def sub_bytes_def)

lemma notify_decodes:
  assumes "utf8_valid m" and "raw_encode_notify pc m p [] = (f, Inr ())" and "length f < 2 ^ 32"
  shows "\<exists>mr pr. raw_decode_inbound pc checked s f = Done (s, f, Inr (FrameNotify mr pr)) \<and>
    index_by f (range_from mr) = Done m \<and> index_by f (range_from pr) = Done (value_bytes p)"
proof -
  obtain a b where ab: "ser_head pc (HeadNotify m) = Inr a" "ser_value pc p = Inr b" "f = a @ b"
    using serialize2_ok assms(2) by (fastforce simp: raw_encode_notify_def)
  obtain r where "de_head pc f = Inr (r, (length a, length b))" "map_head (slice_of f) r = HeadNotify m"
    "\<forall>x \<in> set_head r. in_frame f x"
    using head_roundtrip [OF _ ab(1)] assms(1) ab(3) by auto
  then obtain mr where r: "de_head pc f = Inr (HeadNotify mr, (length a, length b))" "slice_of f mr = m" "in_frame f mr"
    by (cases r) auto
  obtain rg where rg: "range_of checked f mr = Done rg" "index_by f (range_from rg) = Done m"
    using range_slice [OF r(3) assms(3)] r(2) by metis
  obtain pg where pg: "range_of checked f (length a, length b) = Done pg" "index_by f (range_from pg) = Done b"
    using range_slice [of f "(length a, length b)"] assms(3) payload_slice [of a b] ab(3) by metis
  show ?thesis using r rg pg ab(2) by (simp add: raw_decode_inbound_def value_bytes_def)
qed

lemma request_decodes:
  assumes "request_id_ok i" and "utf8_valid m" and "raw_encode_request pc i m p [] = (f, Inr i')"
    and "length f < 2 ^ 32"
  shows "\<exists>rid mr pr raw. raw_decode_inbound pc checked s f = Done (s, f, Inr (FrameRequest rid mr pr)) \<and>
    index_by f (range_from mr) = Done m \<and> index_by f (range_from pr) = Done (value_bytes p) \<and>
    snd rid \<noteq> 0 \<and> index_by f (range_from rid) = Done raw \<and> raw_restore_request_id raw = Inr i'"
proof -
  obtain res where res: "raw_serialize2 [] (ser_head pc (HeadRequest (request_id_as_bytes i) m)) (ser_value pc p) = (f, res)"
    "map_sum id (\<lambda>_. i) res = Inr i'"
    using assms(3) by (auto simp: raw_encode_request_def split: prod.split_asm)
  then have i': "i' = i" and "res = Inr ()" by (cases res; simp)+
  then obtain a b where ab: "ser_head pc (HeadRequest (request_id_as_bytes i) m) = Inr a"
    "ser_value pc p = Inr b" "f = a @ b"
    using serialize2_ok res(1) by blast
  obtain r where "de_head pc f = Inr (r, (length a, length b))"
    "map_head (slice_of f) r = HeadRequest (request_id_as_bytes i) m" "\<forall>x \<in> set_head r. in_frame f x"
    using head_roundtrip [OF _ ab(1)] assms(2) ab(3) by auto
  then obtain ir mr where r: "de_head pc f = Inr (HeadRequest ir mr, (length a, length b))"
    "slice_of f ir = request_id_as_bytes i" "in_frame f ir" "slice_of f mr = m" "in_frame f mr"
    by (cases r) auto
  have "length (slice_of f ir) = 8" by (simp add: r(2) request_id_as_bytes_def)
  then have "0 < snd ir" by (cases "snd ir") (auto simp: slice_of_def sub_bytes_def)
  then obtain ig where ig: "range_of checked f ir = Done ig" "index_by f (range_from ig) = Done (request_id_as_bytes i)"
    "snd ig \<noteq> 0"
    using range_slice [OF r(3) assms(4)] r(2) by metis
  obtain rg where rg: "range_of checked f mr = Done rg" "index_by f (range_from rg) = Done m"
    using range_slice [OF r(5) assms(4)] r(4) by metis
  obtain pg where pg: "range_of checked f (length a, length b) = Done pg" "index_by f (range_from pg) = Done b"
    using range_slice [of f "(length a, length b)"] assms(4) payload_slice [of a b] ab(3) by metis
  show ?thesis using r(1) ig rg pg ab(2) i' assms(1)
    by (simp add: raw_decode_inbound_def value_bytes_def)
qed

lemma decode_response_head:
  assumes "ser_head pc h = Inr a" and "ser_out = Inr b" and "f = a @ b" and "length f < 2 ^ 32"
    and "h = HeadResponse (request_id_as_bytes i) \<and> errc = None \<or>
         h = HeadResponseErr (request_id_as_bytes i) (u8_of_response_error ec) \<and> errc = Some ec"
    and "request_id_ok i"
  shows "\<exists>pr. raw_decode_inbound pc checked s f = Done (s, f, Inr (FrameResponse i errc pr)) \<and>
    index_by f (range_from pr) = Done b"
proof -
  have "head_utf8 h" using assms(5) by auto
  then obtain r where r: "de_head pc f = Inr (r, (length a, length b))" "map_head (slice_of f) r = h"
    using head_roundtrip [OF _ assms(1), of b] assms(3) by blast
  obtain pg where pg: "range_of checked f (length a, length b) = Done pg" "index_by f (range_from pg) = Done b"
    using range_slice [of f "(length a, length b)"] assms(4) payload_slice [of a b] assms(3) by metis
  show ?thesis using r pg assms(5,6)
    by (cases r; cases pg) (auto simp: raw_decode_inbound_def raw_decode_response_def)
qed

lemma raw_restore_ok: "raw_restore_request_id raw = Inr i \<Longrightarrow> request_id_ok i"
  by (auto simp: raw_restore_request_id_def request_id_from_bytes_def ok_or_def request_id_ok_def
      split: option.splits if_splits)

lemma response_decodes:
  assumes "raw_restore_request_id raw = Inr i" and "raw_encode_response pc raw r [] = (f, Inr ())"
    and "length f < 2 ^ 32"
  shows "\<exists>pr. raw_decode_inbound pc checked s f = Done (s, f, Inr (FrameResponse i (payload_errc r) pr)) \<and>
    (\<forall>p. payload_object r = Some p \<longrightarrow> index_by f (range_from pr) = Done (value_bytes p))"
proof (cases r)
  case (PayloadOk p)
  then obtain a b where "ser_head pc (HeadResponse (request_id_as_bytes i)) = Inr a" "ser_value pc p = Inr b" "f = a @ b"
    using assms(1,2) serialize2_ok by (fastforce simp: raw_encode_response_def)
  then show ?thesis
    using decode_response_head [of "HeadResponse (request_id_as_bytes i)" a "ser_value pc p" b f i None _ s]
      assms(3) raw_restore_ok [OF assms(1)] PayloadOk by (auto simp: value_bytes_def)
next
  case (ErrCodeOnly e)
  then obtain a b where "ser_head pc (HeadResponseErr (request_id_as_bytes i) (u8_of_response_error e)) = Inr a"
    "ser_u8 pc (u8_of_response_error e) = Inr b" "f = a @ b"
    using assms(1,2) serialize2_ok by (fastforce simp: raw_encode_response_def)
  then show ?thesis
    using decode_response_head [OF _ _ _ assms(3) _ raw_restore_ok [OF assms(1)], where errc = "Some e" and ec = e]
      ErrCodeOnly by fastforce
next
  case (ErrObjectOnly p)
  then obtain a b where "ser_head pc (HeadResponseErr (request_id_as_bytes i) (u8_of_response_error Unknown)) = Inr a"
    "ser_value pc p = Inr b" "f = a @ b"
    using assms(1,2) serialize2_ok by (fastforce simp: raw_encode_response_def)
  then show ?thesis
    using decode_response_head [OF _ _ _ assms(3) _ raw_restore_ok [OF assms(1)], where errc = "Some Unknown" and ec = Unknown]
      ErrObjectOnly by (fastforce simp: value_bytes_def)
next
  case (PayloadErr e p)
  then obtain a b where "ser_head pc (HeadResponseErr (request_id_as_bytes i) (u8_of_response_error e)) = Inr a"
    "ser_value pc p = Inr b" "f = a @ b"
    using assms(1,2) serialize2_ok by (fastforce simp: raw_encode_response_def)
  then show ?thesis
    using decode_response_head [OF _ _ _ assms(3) _ raw_restore_ok [OF assms(1)], where errc = "Some e" and ec = e]
      PayloadErr by (fastforce simp: value_bytes_def)
qed

end

sublocale postcard \<subseteq> raw: codec_contract "raw_codec pc checked addr" utf8_valid value_bytes "\<lambda>e. e"
  "\<lambda>_. True" "\<lambda>_. True"
  by unfold_locales
    (use notify_decodes request_decodes response_decodes in \<open>simp_all add: raw_codec_def option.map_ident\<close>)

subsection \<open>A length-prefixed wire format\<close>

text \<open>
  An instance of the contract: heads as a tag byte and fields, strings and byte strings
  with their length in groups of seven bits in front. Values are byte strings.
\<close>

fun varint :: "nat \<Rightarrow> bytes" where
  "varint n = (if n < 128 then [word_of_nat n] else word_of_nat (128 + n mod 128) # varint (n div 128))"

declare varint.simps [simp del]

fun read_varint :: "bytes \<Rightarrow> (nat \<times> bytes) option" where
  "read_varint [] = None"
| "read_varint (b # bs) =
     (if b < 128 then Some (unat b, bs)
      else map_option (\<lambda>(n, r). (unat b - 128 + 128 * n, r)) (read_varint bs))"

lemma read_varint_roundtrip: "read_varint (varint n @ rest) = Some (n, rest)"
proof (induction n rule: varint.induct)
  case (1 n)
  show ?case
  proof (cases "n < 128")
    case True
    then show ?thesis
      by (simp add: varint.simps [of n] word_less_nat_alt unsigned_of_nat take_bit_nat_eq_self)
  next
    case False
    have "unat (word_of_nat (128 + n mod 128) :: u8) = 128 + n mod 128"
      by (simp add: unsigned_of_nat take_bit_nat_eq_self del: of_nat_add)
    then show ?thesis using 1 [OF False] False
      by (simp add: varint.simps [of n] word_less_nat_alt del: of_nat_add)
  qed
qed

definition wire_bytes :: "bytes \<Rightarrow> bytes" where
  "wire_bytes bs = varint (length bs) @ bs"

fun wire_head :: "bytes head \<Rightarrow> bytes" where
  "wire_head (HeadNotify m) = 0 # wire_bytes m"
| "wire_head (HeadRequest i m) = 1 # wire_bytes i @ wire_bytes m"
| "wire_head (HeadResponse i) = 2 # wire_bytes i"
| "wire_head (HeadResponseErr i e) = 3 # wire_bytes i @ [e]"

text \<open>Reads a byte string from the tail \<open>bs\<close> of a frame of \<open>n\<close> bytes.\<close>

definition read_slice :: "nat \<Rightarrow> bytes \<Rightarrow> (slice_ref \<times> bytes) option" where
  "read_slice n bs =
     (case read_varint bs of
        None \<Rightarrow> None
      | Some (k, r) \<Rightarrow> if k \<le> length r then Some ((n - length r, k), drop k r) else None)"

definition read_wire_head :: "bytes \<Rightarrow> (slice_ref head \<times> bytes) option" where
  "read_wire_head frame =
     (case frame of
        [] \<Rightarrow> None
      | tag # bs \<Rightarrow>
          (case read_slice (length frame) bs of
             None \<Rightarrow> None
           | Some (x, bs1) \<Rightarrow>
               if tag = 0 then (if utf8_valid (slice_of frame x) then Some (HeadNotify x, bs1) else None)
               else if tag = 1 then
                 (case read_slice (length frame) bs1 of
                    None \<Rightarrow> None
                  | Some (y, bs2) \<Rightarrow>
                      if utf8_valid (slice_of frame y) then Some (HeadRequest x y, bs2) else None)
               else if tag = 2 then Some (HeadResponse x, bs1)
               else if tag = 3 then (case bs1 of [] \<Rightarrow> None | e # bs2 \<Rightarrow> Some (HeadResponseErr x e, bs2))
               else None))"

definition wire_ops :: "(bytes, bytes) postcard_ops" where
  "wire_ops =
     \<lparr>ser_head = (\<lambda>h. Inr (wire_head h)), ser_value = (\<lambda>p. Inr (wire_bytes p)), ser_u8 = (\<lambda>b. Inr [b]),
      de_head = (\<lambda>frame. case read_wire_head frame of
         None \<Rightarrow> Inl (SerDeError ''malformed'')
       | Some (h, rest) \<Rightarrow> Inr (h, (length frame - length rest, length rest))),
      de_payload = (\<lambda>bs. bs)\<rparr>"

lemma read_slice_at:
  "read_slice (length pre + length (wire_bytes x) + length rest) (wire_bytes x @ rest) =
     Some ((length pre + length (varint (length x)), length x), rest)"
  by (simp add: read_slice_def wire_bytes_def read_varint_roundtrip)

lemma slice_at: "slice_of (pre @ x @ rest) (length pre, length x) = x"
  by (simp add: slice_of_def)

lemma wire_first:
  defines "frame tag x rest \<equiv> tag # wire_bytes x @ rest"
  shows "read_slice (length (frame tag x rest)) (wire_bytes x @ rest) =
      Some ((1 + length (varint (length x)), length x), rest)"
    and "slice_of (frame tag x rest) (1 + length (varint (length x)), length x) = x"
    and "in_frame (frame tag x rest) (1 + length (varint (length x)), length x)"
  using read_slice_at [of "[tag]" x rest] slice_at [of "tag # varint (length x)" x rest]
  by (simp_all add: frame_def wire_bytes_def in_frame_def add.assoc)

lemma wire_second:
  defines "frame tag x y rest \<equiv> tag # wire_bytes x @ wire_bytes y @ rest"
  shows "read_slice (length (frame tag x y rest)) (wire_bytes y @ rest) =
      Some ((1 + length (wire_bytes x) + length (varint (length y)), length y), rest)"
    and "slice_of (frame tag x y rest) (1 + length (wire_bytes x) + length (varint (length y)), length y) = y"
    and "in_frame (frame tag x y rest) (1 + length (wire_bytes x) + length (varint (length y)), length y)"
  using read_slice_at [of "tag # wire_bytes x" y rest]
    slice_at [of "tag # wire_bytes x @ varint (length y)" y rest]
  by (simp_all add: frame_def wire_bytes_def in_frame_def add.assoc)

interpretation wire: postcard wire_ops checked addr for checked addr
proof unfold_locales
  fix h :: "bytes head" and hb rest :: bytes
  assume utf8: "head_utf8 h" and "ser_head wire_ops h = Inr hb"
  then have hb: "hb = wire_head h" by (simp add: wire_ops_def)
  have "\<exists>r. read_wire_head (hb @ rest) = Some (r, rest) \<and> map_head (slice_of (hb @ rest)) r = h \<and>
    (\<forall>x \<in> set_head r. in_frame (hb @ rest) x)"
  proof (cases h)
    case (HeadNotify m)
    then show ?thesis using hb utf8 wire_first [of 0 m rest]
      by (simp add: read_wire_head_def)
  next
    case (HeadRequest i m)
    then show ?thesis using hb utf8 wire_first [of 1 i "wire_bytes m @ rest"] wire_second [of 1 i m rest]
      by (simp add: read_wire_head_def)
  next
    case (HeadResponse i)
    then show ?thesis using hb wire_first [of 2 i rest]
      by (simp add: read_wire_head_def)
  next
    case (HeadResponseErr i e)
    then show ?thesis using hb wire_first [of 3 i "e # rest"]
      by (simp add: read_wire_head_def)
  qed
  then show "\<exists>r. de_head wire_ops (hb @ rest) = Inr (r, (length hb, length rest)) \<and>
      map_head (slice_of (hb @ rest)) r = h \<and> (\<forall>x \<in> set_head r. in_frame (hb @ rest) x)"
    by (auto simp: wire_ops_def)
qed

subsection \<open>Properties\<close>

context postcard
begin

lemma contract: "codec_contract (raw_codec pc checked addr) utf8_valid value_bytes (\<lambda>e. e)
    (\<lambda>_. True) (\<lambda>_. True)"
  by (rule raw.codec_contract_axioms)

end

text \<open>C27: With any serialisation library that keeps the contract, a raw request frame is decoded as
  a request with the same method, and is answerable: every response encoded with the raw
  identifier found in it is decoded as the response to this very request, with the error
  code it was given, or none.\<close>

theorem raw_request_is_answerable:
  assumes "postcard pc" and "request_id_ok i" and "utf8_valid m"
    and "raw_encode_request pc i m p [] = (f, Inr i')" and "length f < 2 ^ 32"
  shows "\<exists>rid mr pr raw. raw_decode_inbound pc checked s f = Done (s, f, Inr (FrameRequest rid mr pr)) \<and>
    index_by f (range_from mr) = Done m \<and> index_by f (range_from rid) = Done raw \<and>
    (\<forall>r g. raw_encode_response pc raw r [] = (g, Inr ()) \<longrightarrow> length g < 2 ^ 32 \<longrightarrow>
       (\<exists>q. raw_decode_inbound pc checked s g = Done (s, g, Inr (FrameResponse i' (payload_errc r) q))))"
  using postcard.request_decodes [OF assms, of checked s] postcard.response_decodes [OF assms(1)]
  by metis

theorem raw_request_is_answerable_witness:
  "\<exists>rid mr pr raw. raw_decode_inbound wire_ops True [] (fst (raw_encode_request wire_ops (RequestId 7) [0x41] [1, 2] [])) =
      Done ([], fst (raw_encode_request wire_ops (RequestId 7) [0x41] [1, 2] []), Inr (FrameRequest rid mr pr)) \<and>
    index_by (fst (raw_encode_request wire_ops (RequestId 7) [0x41] [1, 2] [])) (range_from mr) = Done [0x41]"
proof -
  let ?f = "[1, 8, 7, 0, 0, 0, 0, 0, 0, 0, 1, 0x41, 2, 1, 2] :: bytes"
  have f: "raw_encode_request wire_ops (RequestId 7) [0x41] [1, 2] [] = (?f, Inr (RequestId 7))"
    by (simp add: raw_encode_request_def raw_serialize2_def raw_serialize_def wire_ops_def wire_bytes_def
        varint.simps request_id_as_bytes_def u64_to_le_def upt_rec)
  have "request_id_ok (RequestId 7)" "utf8_valid [0x41]"
    by (simp_all add: request_id_ok_def utf8_valid_ascii)
  from raw_request_is_answerable [OF wire.postcard_axioms this f]
  show ?thesis unfolding f by fastforce
qed

end
