(* ===== verification/Connection.thy ===== *)
theory Connection
  imports Builder Rawrpc
begin

text \<open>
  Two ends of a connection that share a codec: what one side sends, the other side
  receives. The lemmas hold for every codec with the contract \<open>codec_contract\<close> and every
  channel with the contract \<open>mpsc_channel\<close>; between the two ends is a transport that
  delivers each frame as it was written.
\<close>

subsection \<open>Sending a request at the first attempt\<close>

lemma request_encode_first:
  assumes "core_reqs core = Some c" and "\<not> expired c" and "rnd g = (v, g1)"
    and "encode_request (core_codec core) (RequestId v) meth params [] = (f, Inr i)"
    and "map_of (wait_list c) i = None"
  shows "request_encode core rnd g buf meth params =
    Done (core\<lparr>core_reqs := Some (c\<lparr>waiters := waiters c @ [waiter_default],
                                 wait_list := (i, length (waiters c)) # wait_list c\<rparr>)\<rparr>,
          f, g1, Some (Inr (receive_response_new (Receive i (length (waiters c))))))"
  using assms
  by (simp add: request_encode_def sender_reqs_def max_retry_heuristic_def eval_nat_numeral
      request_id_generate_def try_allocate_new_request_def Let_def)

lemma try_send_request_first:
  assumes "mpsc_channel ops queue closed capacity"
    and "core_reqs core = Some c" and "\<not> expired c" and "rnd g = (v, g1)"
    and "encode_request (core_codec core) (RequestId v) meth params [] = (f, Inr i)"
    and "map_of (wait_list c) i = None"
    and "t_tx_deferred core = Some q" and "\<not> closed q" and "has_room (capacity q) (queue q)"
  obtains q' where "try_send_request ops core rnd g buf meth params =
      Done (core\<lparr>core_reqs := Some (c\<lparr>waiters := waiters c @ [waiter_default],
                     wait_list := (i, length (waiters c)) # wait_list c\<rparr>), t_tx_deferred := Some q'\<rparr>,
            [], g1, Inr (receive_response_new (Receive i (length (waiters c)))))"
    "queue q' = queue q @ [WriteReqMsg f i]"
proof -
  obtain q' where "ch_try_send ops q (WriteReqMsg f i) = (q', Inr ())" "queue q' = queue q @ [WriteReqMsg f i]"
    using mpsc_channel.try_send_ok [OF assms(1,8,9)] by blast
  then show thesis
    using that request_encode_first [where rnd = rnd and g = g, OF assms(2-6)] assms(7)
    by (simp add: try_send_request_def rr_request_id_def try_send_frame_def sender_tx_def)
qed

subsection \<open>Both ends\<close>

text \<open>
  The result a future must give when the responder answered with \<open>r\<close>: the payload of the
  object that was sent, or an error with the code as the codec carries it.
\<close>

definition answers ::
  "('p \<Rightarrow> bytes) \<Rightarrow> (response_error \<Rightarrow> response_error) \<Rightarrow> 'p encode_response_payload
   \<Rightarrow> 'c response_receive_error + 'c response_msg \<Rightarrow> bool" where
  "answers payload_of carried r res \<longleftrightarrow>
     (case payload_errc r of
        None \<Rightarrow> \<exists>msg. res = Inr msg \<and>
          (\<forall>p. payload_object r = Some p \<longrightarrow> response_payload_bytes msg = Done (payload_of p))
      | Some e \<Rightarrow> \<exists>err. res = Inl (RecvResponse err) \<and> er_errc err = carried e \<and>
          (\<forall>p. payload_object r = Some p \<longrightarrow> error_payload_bytes err = Done (payload_of p)))"

lemma answers_make_response:
  assumes "\<forall>p. payload_object r = Some p \<longrightarrow> index_by f pr = Done (payload_of p)"
  shows "answers payload_of carried r
    (map_err RecvResponse (make_response codec f pr (map_option carried (payload_errc r))))"
  using assms
  by (cases "payload_errc r")
    (simp_all add: answers_def make_response_def response_payload_bytes_def error_payload_bytes_def)

context codec_contract
begin

lemma receives_notify:
  assumes "good_method m" and "encode_notify c m p [] = (f, Inr ())" and "length f < 2 ^ 32"
    and "core_codec core = c"
  shows "\<exists>ib. handle_inbound_once core f s = Done (core, s, Inr (Some ib)) \<and> \<not> is_request ib \<and>
    inbound_method ib = Done m \<and> payload_bytes ib = Done (payload_of p)"
proof -
  obtain mr pr where "decode_inbound c s f = Done (s, f, Inr (FrameNotify mr pr))"
    "index_by f (range_from mr) = Done m" "index_by f (range_from pr) = Done (payload_of p)"
    using notify_decodes [OF assms(1-3)] by blast
  then show ?thesis
    using good_method_utf8 [OF assms(1)] assms(4)
    by (simp add: handle_inbound_once_def check_method_def method_bytes_def inbound_new_notify_def
        inbound_method_def payload_bytes_def is_request_def)
qed

lemma receives_request:
  assumes "request_id_ok i0" and "good_method m" and "encode_request c i0 m p [] = (f, Inr i)"
    and "length f < 2 ^ 32" and "good_id i" and "core_codec core = c"
  shows "\<exists>ib raw. handle_inbound_once core f s = Done (core, s, Inr (Some ib)) \<and> raw_id_of ib raw \<and>
    inbound_method ib = Done m \<and> payload_bytes ib = Done (payload_of p) \<and>
    restore_request_id c raw = Inr i"
proof -
  obtain rid mr pr raw where dec: "decode_inbound c s f = Done (s, f, Inr (FrameRequest rid mr pr))"
    and m: "index_by f (range_from mr) = Done m" and p: "index_by f (range_from pr) = Done (payload_of p)"
    and rid: "snd rid \<noteq> 0" "index_by f (range_from rid) = Done raw" "restore_request_id c raw = Inr i"
    using request_decodes [OF assms(1-5)] by blast
  let ?ib = "inbound_new_request f (range_from mr) (range_from pr) (NonZeroRange (fst rid) (snd rid))"
  have "raw_id_of ?ib raw"
    using rid(1,2)
    by (simp add: raw_id_of_def inbound_new_request_def retrieve_req_id_def nz_range_usize_def
        index_by_def range_usize_def)
  moreover have "handle_inbound_once core f s = Done (core, s, Inr (Some ?ib))"
    using dec m rid(1) good_method_utf8 [OF assms(2)] assms(6)
    by (simp add: handle_inbound_once_def nonzero_u32_new_def check_method_def method_bytes_def
        inbound_new_request_def)
  moreover have "inbound_method ?ib = Done m" "payload_bytes ?ib = Done (payload_of p)"
    using m p good_method_utf8 [OF assms(2)]
    by (simp_all add: inbound_new_request_def inbound_method_def method_bytes_def payload_bytes_def)
  ultimately show ?thesis using rid(3) by blast
qed

lemma receives_response:
  assumes "restore_request_id c raw = Inr i" and "encode_response c raw r [] = (f, Inr ())"
    and "length f < 2 ^ 32" and "good_response r" and "core_codec core = c" and "core_reqs core = Some tc"
    and "table_ok tc"
    and "\<not> expired tc" and "map_of (wait_list tc) i = Some w"
    and "accepts_response (response (waiters tc ! w))"
  shows "\<exists>tc1 tc2 res. handle_inbound_once core f s = Done (core\<lparr>core_reqs := Some tc1\<rparr>, s, Inr None) \<and>
    rr_poll c t tc1 (receive_response_new (Receive i w)) = Done (tc2, \<lparr>rr_state = None\<rparr>, Ready_now res) \<and>
    answers payload_of carried r res \<and> map_of (wait_list tc2) = (map_of (wait_list tc))(i := None)"
proof -
  let ?errc = "map_option carried (payload_errc r)"
  obtain pr where dec: "decode_inbound c s f = Done (s, f, Inr (FrameResponse i ?errc pr))"
    and p: "\<forall>p. payload_object r = Some p \<longrightarrow> index_by f (range_from pr) = Done (payload_of p)"
    using response_decodes [OF assms(1-4)] by blast
  obtain tc1 tc2 where set: "set_response tc i f (range_from pr) ?errc = (tc1, Inr ())"
    and poll: "rr_poll c t tc1 (receive_response_new (Receive i w)) = Done (tc2, \<lparr>rr_state = None\<rparr>,
        Ready_now (map_err RecvResponse (make_response c f (range_from pr) ?errc)))"
    and table: "map_of (wait_list tc2) = (map_of (wait_list tc))(i := None)"
    by (rule poll_after_set_response [OF assms(7-10)])
  have "handle_inbound_once core f s = Done (core\<lparr>core_reqs := Some tc1\<rparr>, s, Inr None)"
    using dec set assms(5,6) by (simp add: handle_inbound_once_def handle_response_def)
  moreover have "answers payload_of carried r
      (map_err RecvResponse (make_response c f (range_from pr) ?errc))"
    by (rule answers_make_response [OF p])
  ultimately show ?thesis using poll table by (intro exI conjI)
qed

end

subsection \<open>There and back\<close>

lemma round_trip:
  assumes "codec_contract c good_method payload_of carried good_id good_response"
    and "mpsc_channel ops queue closed capacity"
    and "core_codec client = c" and "core_reqs client = Some tc" and "table_ok tc" and "\<not> expired tc"
    and "t_tx_deferred client = Some q" and "\<not> closed q" and "has_room (capacity q) (queue q)"
    and "rnd g = (v, g1)" and "v \<noteq> 0" and "good_method m"
    and "encode_request c (RequestId v) m p [] = (f, Inr i)" and "length f < 2 ^ 32"
    and "map_of (wait_list tc) i = None"
    and "core_codec server = c" and "t_tx_deferred server = Some q2" and "\<not> closed q2"
    and "has_room (capacity q2) (queue q2)" and "good_id i"
  shows "\<exists>client1 resp q'. try_send_request ops client rnd g buf m p = Done (client1, [], g1, Inr resp) \<and>
    t_tx_deferred client1 = Some q' \<and> queue q' = queue q @ [WriteReqMsg f i] \<and>
    (\<exists>ib raw. handle_inbound_once server f [] = Done (server, [], Inr (Some ib)) \<and>
      inbound_method ib = Done m \<and> payload_bytes ib = Done (payload_of p) \<and>
      inbound_request_id ib = Done (Some raw) \<and> restore_request_id c raw = Inr i \<and>
      (\<forall>result f2. encode_response c raw (encode_payload result) [] = (f2, Inr ()) \<longrightarrow> length f2 < 2 ^ 32 \<longrightarrow>
        good_response (encode_payload result) \<longrightarrow>
        (\<exists>server1 ib1 q2'. try_response ops server ib [] result = Done (server1, ib1, [], Inr ()) \<and>
           t_tx_deferred server1 = Some q2' \<and> queue q2' = queue q2 @ [WriteMsg f2]) \<and>
        (\<exists>client2 tc1 tc2 res. handle_inbound_once client1 f2 [] = Done (client2, [], Inr None) \<and>
           core_reqs client2 = Some tc1 \<and>
           rr_poll c t tc1 resp = Done (tc2, \<lparr>rr_state = None\<rparr>, Ready_now res) \<and>
           answers payload_of carried (encode_payload result) res \<and>
           map_of (wait_list tc2) = map_of (wait_list tc))))"
proof -
  let ?w = "length (waiters tc)" and ?resp = "receive_response_new (Receive i (length (waiters tc)))"
  let ?tc = "tc\<lparr>waiters := waiters tc @ [waiter_default], wait_list := (i, ?w) # wait_list tc\<rparr>"
  let ?client = "\<lambda>q'. client\<lparr>core_reqs := Some ?tc, t_tx_deferred := Some q'\<rparr>"
  have enc: "encode_request (core_codec client) (RequestId v) m p [] = (f, Inr i)" using assms(3,13) by simp
  obtain q' where sent: "try_send_request ops client rnd g buf m p = Done (?client q', [], g1, Inr ?resp)"
    and q': "queue q' = queue q @ [WriteReqMsg f i]"
    by (rule try_send_request_first [where rnd = rnd and g = g, OF assms(2,4,6,10) enc assms(15,7,8,9)])
  have "request_id_ok (RequestId v)" using assms(11) by (simp add: request_id_ok_def)
  then obtain ib raw where ib: "handle_inbound_once server f [] = Done (server, [], Inr (Some ib))"
    "raw_id_of ib raw" "inbound_method ib = Done m" "payload_bytes ib = Done (payload_of p)"
    and raw: "restore_request_id c raw = Inr i"
    using codec_contract.receives_request [OF assms(1) _ assms(12,13,14,20,16)] by blast
  have ok: "table_ok ?tc" using assms(5,15) by (intro table_ok_allocated) simp_all
  have fresh: "accepts_response (response (waiters ?tc ! ?w))" by (simp add: waiter_default_def)
  have returns: "(\<exists>server1 ib1 q2'. try_response ops server ib [] result = Done (server1, ib1, [], Inr ()) \<and>
           t_tx_deferred server1 = Some q2' \<and> queue q2' = queue q2 @ [WriteMsg f2]) \<and>
        (\<exists>client2 tc1 tc2 res. handle_inbound_once (?client q') f2 [] = Done (client2, [], Inr None) \<and>
           core_reqs client2 = Some tc1 \<and>
           rr_poll c t tc1 ?resp = Done (tc2, \<lparr>rr_state = None\<rparr>, Ready_now res) \<and>
           answers payload_of carried (encode_payload result) res \<and>
           map_of (wait_list tc2) = map_of (wait_list tc))"
    if enc2: "encode_response c raw (encode_payload result) [] = (f2, Inr ())" and len: "length f2 < 2 ^ 32"
      and good: "good_response (encode_payload result)" for result f2
  proof
    obtain q2' where r: "try_response ops server ib [] result =
        Done (server\<lparr>t_tx_deferred := Some q2'\<rparr>, ib\<lparr>ib_req_id := 0\<rparr>, [], Inr ())"
      "queue q2' = queue q2 @ [WriteMsg f2]"
      by (rule try_response_sends [OF assms(2) ib(2) _ assms(17,18,19), of result "[]" f2])
        (use enc2 assms(16) in simp_all)
    moreover have "t_tx_deferred (server\<lparr>t_tx_deferred := Some q2'\<rparr>) = Some q2'" by simp
    ultimately show "\<exists>server1 ib1 q2'. try_response ops server ib [] result = Done (server1, ib1, [], Inr ()) \<and>
           t_tx_deferred server1 = Some q2' \<and> queue q2' = queue q2 @ [WriteMsg f2]" by blast
    obtain tc1 tc2 res where "handle_inbound_once (?client q') f2 [] =
          Done ((?client q')\<lparr>core_reqs := Some tc1\<rparr>, [], Inr None)"
      "rr_poll c t tc1 ?resp = Done (tc2, \<lparr>rr_state = None\<rparr>, Ready_now res)"
      "answers payload_of carried (encode_payload result) res"
      "map_of (wait_list tc2) = (map_of (wait_list ?tc))(i := None)"
      using codec_contract.receives_response [OF assms(1) raw enc2 len good, of "?client q'" ?tc ?w "[]" t]
        assms(3,6) ok fresh by auto
    moreover have "core_reqs ((?client q')\<lparr>core_reqs := Some tc1\<rparr>) = Some tc1" by simp
    moreover have "(map_of (wait_list ?tc))(i := None) = map_of (wait_list tc)"
      using assms(15) by (auto simp: fun_eq_iff)
    ultimately show "\<exists>client2 tc1 tc2 res. handle_inbound_once (?client q') f2 [] = Done (client2, [], Inr None) \<and>
           core_reqs client2 = Some tc1 \<and>
           rr_poll c t tc1 ?resp = Done (tc2, \<lparr>rr_state = None\<rparr>, Ready_now res) \<and>
           answers payload_of carried (encode_payload result) res \<and>
           map_of (wait_list tc2) = map_of (wait_list tc)" by metis
  qed
  moreover have "t_tx_deferred (?client q') = Some q'" by simp
  moreover have "inbound_request_id ib = Done (Some raw)"
    using ib(2) by (auto simp: raw_id_of_def inbound_request_id_def)
  ultimately show ?thesis using sent q' ib(1,3,4) raw returns by blast
qed

subsection \<open>Properties\<close>

text \<open>C2: A request makes the whole way and comes back. Take a codec and a channel with their
  contracts, two ends whose channels are open and have room, a client that is not expired,
  an identifier that is not in its table, a method name and an identifier the codec
  transports, and parameters that can be encoded into a frame of less than \<open>2 ^ 32\<close> bytes.
  Then sending the request queues one frame; the receiver at the other end hands out a
  message with exactly the method and the payload that were sent, whose raw identifier the
  codec reads as the identifier in the client's table. Whatever result the server then
  answers with, if the codec can encode it under that raw identifier (again in less than
  \<open>2 ^ 32\<close> bytes, and it is a response the codec transports), one response frame is queued,
  and handling that frame at the client completes the very future that \<open>try_send_request\<close>
  returned, which yields the payload of the answer, or its error code as the codec carries
  it, and whose identifier is free again.\<close>

theorem request_makes_round_trip:
  assumes "codec_contract c good_method payload_of carried good_id good_response"
    and "mpsc_channel ops queue closed capacity"
    and "core_codec client = c" and "core_reqs client = Some tc" and "table_ok tc" and "\<not> expired tc"
    and "t_tx_deferred client = Some q" and "\<not> closed q" and "has_room (capacity q) (queue q)"
    and "rnd g = (v, g1)" and "v \<noteq> 0" and "good_method m"
    and "encode_request c (RequestId v) m p [] = (f, Inr i)" and "length f < 2 ^ 32"
    and "map_of (wait_list tc) i = None"
    and "core_codec server = c" and "t_tx_deferred server = Some q2" and "\<not> closed q2"
    and "has_room (capacity q2) (queue q2)" and "good_id i"
  shows "\<exists>client1 resp q'. try_send_request ops client rnd g buf m p = Done (client1, [], g1, Inr resp) \<and>
    t_tx_deferred client1 = Some q' \<and> queue q' = queue q @ [WriteReqMsg f i] \<and>
    (\<exists>ib raw. handle_inbound_once server f [] = Done (server, [], Inr (Some ib)) \<and>
      inbound_method ib = Done m \<and> payload_bytes ib = Done (payload_of p) \<and>
      inbound_request_id ib = Done (Some raw) \<and> restore_request_id c raw = Inr i \<and>
      (\<forall>result f2. encode_response c raw (encode_payload result) [] = (f2, Inr ()) \<longrightarrow> length f2 < 2 ^ 32 \<longrightarrow>
        good_response (encode_payload result) \<longrightarrow>
        (\<exists>server1 ib1 q2'. try_response ops server ib [] result = Done (server1, ib1, [], Inr ()) \<and>
           t_tx_deferred server1 = Some q2' \<and> queue q2' = queue q2 @ [WriteMsg f2]) \<and>
        (\<exists>client2 tc1 tc2 res. handle_inbound_once client1 f2 [] = Done (client2, [], Inr None) \<and>
           core_reqs client2 = Some tc1 \<and>
           rr_poll c t tc1 resp = Done (tc2, \<lparr>rr_state = None\<rparr>, Ready_now res) \<and>
           answers payload_of carried (encode_payload result) res \<and>
           map_of (wait_list tc2) = map_of (wait_list tc))))"
  by (rule round_trip [where rnd = rnd and g = g, OF assms])

text \<open>Two ends that speak the raw codec, for the witness.\<close>

definition raw_core :: "(bytes, bytes, writer_directive fifo, unit) rpc_core" where
  "raw_core = (core_one None)\<lparr>core_codec := raw_codec wire_ops True 1\<rparr>"

lemma raw_core_request:
  "encode_request (raw_codec wire_ops True 1) (RequestId 8) [0x41] [1, 2] [] =
     ([1, 8, 8, 0, 0, 0, 0, 0, 0, 0, 1, 0x41, 2, 1, 2], Inr (RequestId 8))"
  by (simp add: raw_codec_def raw_encode_request_def raw_serialize2_def raw_serialize_def wire_ops_def
      wire_bytes_def varint.simps request_id_as_bytes_def u64_to_le_def upt_rec)

lemma raw_core_response:
  assumes "restore_request_id (raw_codec wire_ops True 1) raw = Inr (RequestId 8)"
  shows "encode_response (raw_codec wire_ops True 1) raw (PayloadOk [5]) [] =
     ([2, 8, 8, 0, 0, 0, 0, 0, 0, 0, 1, 5], Inr ())"
  using assms
  by (simp add: raw_codec_def raw_encode_response_def raw_serialize2_def raw_serialize_def wire_ops_def
      wire_bytes_def varint.simps request_id_as_bytes_def u64_to_le_def upt_rec)

lemma wire_value_bytes: "postcard.value_bytes wire_ops p = varint (length p) @ p"
  using wire.value_bytes_def [of p] by (simp add: wire_ops_def wire_bytes_def)

text \<open>The response half is in the witness as well: the server answers with the byte string 5.\<close>

theorem request_makes_round_trip_witness:
  "\<exists>client1 resp q' ib. try_send_request fifo_ops raw_core count_up 8 [] [0x41] [1, 2] =
      Done (client1, [], 9, Inr resp) \<and> t_tx_deferred client1 = Some q' \<and>
    fifo_items q' = [WriteReqMsg [1, 8, 8, 0, 0, 0, 0, 0, 0, 0, 1, 0x41, 2, 1, 2] (RequestId 8)] \<and>
    handle_inbound_once raw_core [1, 8, 8, 0, 0, 0, 0, 0, 0, 0, 1, 0x41, 2, 1, 2] [] =
      Done (raw_core, [], Inr (Some ib)) \<and>
    inbound_method ib = Done [0x41] \<and>
    (\<exists>server1 ib1 q2. try_response fifo_ops raw_core ib [] (Inr [5]) = Done (server1, ib1, [], Inr ()) \<and>
       t_tx_deferred server1 = Some q2 \<and> fifo_items q2 = [WriteMsg [2, 8, 8, 0, 0, 0, 0, 0, 0, 0, 1, 5]]) \<and>
    (\<exists>client2 tc1 tc2 msg. handle_inbound_once client1 [2, 8, 8, 0, 0, 0, 0, 0, 0, 0, 1, 5] [] =
         Done (client2, [], Inr None) \<and> core_reqs client2 = Some tc1 \<and>
       rr_poll (raw_codec wire_ops True 1) 4 tc1 resp = Done (tc2, \<lparr>rr_state = None\<rparr>, Ready_now (Inr msg)) \<and>
       response_payload_bytes msg = Done [1, 5])"
proof -
  let ?c = "raw_codec wire_ops True 1" and ?f = "[1, 8, 8, 0, 0, 0, 0, 0, 0, 0, 1, 0x41, 2, 1, 2] :: bytes"
  let ?f2 = "[2, 8, 8, 0, 0, 0, 0, 0, 0, 0, 1, 5] :: bytes"
  have cap: "has_room (fifo_cap (fifo_new None)) (fifo_items (fifo_new None :: writer_directive fifo))"
    by (simp add: has_room_def fifo_new_def)
  have core: "core_codec raw_core = ?c" "core_reqs raw_core = Some table_one"
    "t_tx_deferred raw_core = Some (fifo_new None)" "\<not> fifo_closed (fifo_new None :: writer_directive fifo)"
    by (simp_all add: raw_core_def fifo_new_def)
  obtain client1 resp q' ib raw where sent: "try_send_request fifo_ops raw_core count_up 8 [] [0x41] [1, 2] =
      Done (client1, [], 9, Inr resp)" "t_tx_deferred client1 = Some q'"
      "fifo_items q' = [WriteReqMsg ?f (RequestId 8)]"
    and ib: "handle_inbound_once raw_core ?f [] = Done (raw_core, [], Inr (Some ib))" "inbound_method ib = Done [0x41]"
    and raw: "restore_request_id ?c raw = Inr (RequestId 8)"
    and ans: "\<And>result f2. encode_response ?c raw (encode_payload result) [] = (f2, Inr ()) \<Longrightarrow> length f2 < 2 ^ 32 \<Longrightarrow>
      (\<exists>server1 ib1 q2. try_response fifo_ops raw_core ib [] result = Done (server1, ib1, [], Inr ()) \<and>
         t_tx_deferred server1 = Some q2 \<and> fifo_items q2 = [WriteMsg f2]) \<and>
      (\<exists>client2 tc1 tc2 res. handle_inbound_once client1 f2 [] = Done (client2, [], Inr None) \<and>
         core_reqs client2 = Some tc1 \<and>
         rr_poll ?c 4 tc1 resp = Done (tc2, \<lparr>rr_state = None\<rparr>, Ready_now res) \<and>
         answers (postcard.value_bytes wire_ops) (\<lambda>e. e) (encode_payload result) res)"
    using request_makes_round_trip [where rnd = count_up and g = 8 and client = raw_core and server = raw_core
        and buf = "[]" and t = 4,
        OF wire.contract fifo.mpsc_channel_axioms core(1,2) table_one_simps(3,2) core(3,4) cap count_up_def [of 8]
          _ _ raw_core_request _ _ core(1,3,4) cap TrueI]
    by (fastforce simp: fifo_new_def utf8_valid_ascii)
  have enc: "encode_response ?c raw (encode_payload (Inr [5])) [] = (?f2, Inr ())"
    using raw_core_response [OF raw] by simp
  show ?thesis
    using sent ib ans [OF enc]
    by (fastforce simp: answers_def wire_value_bytes varint.simps)
qed

end
