(* ===== verification/In_Memory.thy ===== *)
theory In_Memory
  imports Prelude
begin

text \<open>
  The in-memory transport of \<open>src/io.rs\<close> (module \<open>in_memory\<close>): a bounded queue with a
  semaphore counting its free slots, a closed flag and one waker for each side. The two
  sides run concurrently: every load, store, push, pop, waker registration and waker take
  of \<open>poll_ready\<close>, \<open>start_send\<close>, \<open>poll_close\<close>, \<open>poll_read_frame\<close> and the drops is one step,
  so an interleaving is a list of steps. The memory is sequentially consistent: the relaxed
  and acquire-release orders the code asks for are not modelled. The lock-free queue (crate
  \<open>crossbeam-queue\<close>) is a bounded list and \<open>AtomicWaker\<close> a cell, both atomic, except that an
  attempt to push may fail spuriously, as a comment in the source expects.
\<close>

subsection \<open>State\<close>

text \<open>Where each side is in its code. The task is the one whose waker the poll was given.\<close>

datatype tx_pc =
  TxIdle
| TxSem1 nat      \<comment> \<open>not closed; about to load the semaphore\<close>
| TxRegister nat  \<comment> \<open>about to register the waker\<close>
| TxClosed2 nat   \<comment> \<open>registered; about to load the closed flag again\<close>
| TxSem2 nat
| TxParked nat    \<comment> \<open>\<open>poll_ready\<close> returned \<open>Pending\<close>\<close>
| TxReady         \<comment> \<open>\<open>poll_ready\<close> returned \<open>Ok\<close>\<close>
| TxBroken        \<comment> \<open>\<open>poll_ready\<close> returned \<open>BrokenPipe\<close>\<close>
| TxPush bytes    \<comment> \<open>in \<open>start_send\<close>, about to push\<close>
| TxSub           \<comment> \<open>pushed; about to decrement the semaphore\<close>
| TxWake          \<comment> \<open>about to take and wake the reader\<close>
| TxClosing       \<comment> \<open>the closed flag is stored; about to take and wake the reader\<close>
| TxDone          \<comment> \<open>\<open>drop_impl\<close> has run\<close>

datatype rx_pc =
  RxIdle
| RxClosed1 nat   \<comment> \<open>nothing popped; about to load the closed flag\<close>
| RxRegister nat
| RxPop2 nat      \<comment> \<open>registered; about to pop again\<close>
| RxClosed2 nat
| RxParked nat    \<comment> \<open>\<open>Pending\<close> was returned\<close>
| RxAdd bytes     \<comment> \<open>popped; about to increment the semaphore\<close>
| RxWake bytes    \<comment> \<open>about to take and wake the writer\<close>
| RxEof           \<comment> \<open>\<open>Ok(None)\<close> was returned\<close>
| RxClosing
| RxGone

record mem =
  mem_queue :: "bytes list"
  mem_cap :: nat
  semaphore :: nat
  sig_msg_sent :: "nat option"
  sig_ready_to_recv :: "nat option"
  mem_closed :: bool
  tx_pc :: tx_pc
  rx_pc :: rx_pc
  tx_woken :: "nat list"
  rx_woken :: "nat list"
  sent :: "bytes list"
  received :: "bytes list"

text \<open>
  \<open>tx_woken\<close> and \<open>rx_woken\<close> are the tasks woken since the last poll of the side, \<open>sent\<close> and
  \<open>received\<close> the frames pushed and returned so far. A capacity that is no \<open>NonZeroUsize\<close>
  panics, and so does the allocation of a queue beyond the address space.
\<close>

definition in_memory :: "nat \<Rightarrow> mem outcome" where
  "in_memory cap =
     (if cap = 0 \<or> 2 ^ 63 \<le> cap then Panic
      else Done \<lparr>mem_queue = [], mem_cap = cap, semaphore = cap, sig_msg_sent = None,
        sig_ready_to_recv = None, mem_closed = False, tx_pc = TxIdle, rx_pc = RxIdle,
        tx_woken = [], rx_woken = [], sent = [], received = []\<rparr>)"

text \<open>\<open>fetch_sub\<close> and \<open>fetch_add\<close> wrap at 64 bits.\<close>

definition wrapping_sub1 :: "nat \<Rightarrow> nat" where
  "wrapping_sub1 n = (if n = 0 then 2 ^ 64 - 1 else n - 1)"

definition wrapping_add1 :: "nat \<Rightarrow> nat" where
  "wrapping_add1 n = (if n + 1 = 2 ^ 64 then 0 else n + 1)"

definition wake_reader :: "mem \<Rightarrow> mem" where
  "wake_reader s =
     (case sig_msg_sent s of
        None \<Rightarrow> s
      | Some t \<Rightarrow> s\<lparr>sig_msg_sent := None, rx_woken := t # rx_woken s\<rparr>)"

definition wake_writer :: "mem \<Rightarrow> mem" where
  "wake_writer s =
     (case sig_ready_to_recv s of
        None \<Rightarrow> s
      | Some t \<Rightarrow> s\<lparr>sig_ready_to_recv := None, tx_woken := t # tx_woken s\<rparr>)"

subsection \<open>The writing side\<close>

text \<open>
  A new operation may start when none is in progress: polling again is always allowed,
  \<open>start_send\<close> only after a \<open>poll_ready\<close> that gave \<open>Ok\<close> (the contract of \<open>Sink\<close>).
\<close>

fun tx_free :: "tx_pc \<Rightarrow> bool" where
  "tx_free TxIdle = True"
| "tx_free (TxParked _) = True"
| "tx_free TxReady = True"
| "tx_free TxBroken = True"
| "tx_free TxDone = True"
| "tx_free _ = False"

definition tx_poll_ready :: "nat \<Rightarrow> mem \<Rightarrow> mem option" where
  "tx_poll_ready t s =
     (if tx_free (tx_pc s)
      then Some (s\<lparr>tx_woken := [], tx_pc := if mem_closed s then TxBroken else TxSem1 t\<rparr>)
      else None)"

definition tx_start_send :: "bytes \<Rightarrow> mem \<Rightarrow> mem option" where
  "tx_start_send item s = (if tx_pc s = TxReady then Some (s\<lparr>tx_pc := TxPush item\<rparr>) else None)"

text \<open>\<open>drop_impl\<close> of the writer, called by \<open>poll_close\<close> and by the drop.\<close>

definition tx_drop_impl :: "mem \<Rightarrow> mem option" where
  "tx_drop_impl s =
     (if tx_free (tx_pc s) then Some (s\<lparr>mem_closed := True, tx_pc := TxClosing\<rparr>) else None)"

text \<open>
  A spurious failure of the push: the item comes back, the thread yields, and the loop tries
  again.
\<close>

definition tx_push_fails :: "mem \<Rightarrow> mem option" where
  "tx_push_fails s = (case tx_pc s of TxPush item \<Rightarrow> Some (s\<lparr>tx_pc := TxPush item\<rparr>) | _ \<Rightarrow> None)"

text \<open>
  The next step of the operation in progress. A push to a full queue fails and is tried
  again; one that finds room and does not fail spuriously succeeds.
\<close>

definition tx_continue :: "mem \<Rightarrow> mem option" where
  "tx_continue s =
     (case tx_pc s of
        TxSem1 t \<Rightarrow> Some (s\<lparr>tx_pc := if 0 < semaphore s then TxReady else TxRegister t\<rparr>)
      | TxRegister t \<Rightarrow> Some (s\<lparr>sig_ready_to_recv := Some t, tx_pc := TxClosed2 t\<rparr>)
      | TxClosed2 t \<Rightarrow> Some (s\<lparr>tx_pc := if mem_closed s then TxBroken else TxSem2 t\<rparr>)
      | TxSem2 t \<Rightarrow> Some (s\<lparr>tx_pc := if 0 < semaphore s then TxReady else TxParked t\<rparr>)
      | TxPush item \<Rightarrow>
          (if length (mem_queue s) < mem_cap s
           then Some (s\<lparr>mem_queue := mem_queue s @ [item], sent := sent s @ [item], tx_pc := TxSub\<rparr>)
           else Some s)
      | TxSub \<Rightarrow> Some (s\<lparr>semaphore := wrapping_sub1 (semaphore s), tx_pc := TxWake\<rparr>)
      | TxWake \<Rightarrow> Some ((wake_reader s)\<lparr>tx_pc := TxIdle\<rparr>)
      | TxClosing \<Rightarrow> Some ((wake_reader s)\<lparr>tx_pc := TxDone\<rparr>)
      | _ \<Rightarrow> None)"

subsection \<open>The reading side\<close>

fun rx_free :: "rx_pc \<Rightarrow> bool" where
  "rx_free RxIdle = True"
| "rx_free (RxParked _) = True"
| "rx_free RxEof = True"
| "rx_free _ = False"

text \<open>The first half of \<open>try_recv!\<close>: pop, or go on to the closed flag.\<close>

definition rx_try_pop :: "rx_pc \<Rightarrow> mem \<Rightarrow> mem" where
  "rx_try_pop otherwise s =
     (case mem_queue s of
        m # q \<Rightarrow> s\<lparr>mem_queue := q, rx_pc := RxAdd m\<rparr>
      | [] \<Rightarrow> s\<lparr>rx_pc := otherwise\<rparr>)"

definition rx_poll_read_frame :: "nat \<Rightarrow> mem \<Rightarrow> mem option" where
  "rx_poll_read_frame t s =
     (if rx_free (rx_pc s) then Some (rx_try_pop (RxClosed1 t) (s\<lparr>rx_woken := []\<rparr>)) else None)"

definition rx_drop_impl :: "mem \<Rightarrow> mem option" where
  "rx_drop_impl s =
     (if rx_free (rx_pc s) then Some (s\<lparr>mem_closed := True, rx_pc := RxClosing\<rparr>) else None)"

definition rx_continue :: "mem \<Rightarrow> mem option" where
  "rx_continue s =
     (case rx_pc s of
        RxClosed1 t \<Rightarrow> Some (s\<lparr>rx_pc := if mem_closed s then RxEof else RxRegister t\<rparr>)
      | RxRegister t \<Rightarrow> Some (s\<lparr>sig_msg_sent := Some t, rx_pc := RxPop2 t\<rparr>)
      | RxPop2 t \<Rightarrow> Some (rx_try_pop (RxClosed2 t) s)
      | RxClosed2 t \<Rightarrow> Some (s\<lparr>rx_pc := if mem_closed s then RxEof else RxParked t\<rparr>)
      | RxAdd m \<Rightarrow> Some (s\<lparr>semaphore := wrapping_add1 (semaphore s), rx_pc := RxWake m\<rparr>)
      | RxWake m \<Rightarrow> Some ((wake_writer s)\<lparr>received := received s @ [m], rx_pc := RxIdle\<rparr>)
      | RxClosing \<Rightarrow> Some ((wake_writer s)\<lparr>rx_pc := RxGone\<rparr>)
      | _ \<Rightarrow> None)"

subsection \<open>Interleavings\<close>

datatype mem_op =
  PollReady nat | StartSend bytes | TxDrop | TxStep | TxPushFails | PollRead nat | RxDrop | RxStep

fun mem_step :: "mem_op \<Rightarrow> mem \<Rightarrow> mem option" where
  "mem_step (PollReady t) s = tx_poll_ready t s"
| "mem_step (StartSend item) s = tx_start_send item s"
| "mem_step TxDrop s = tx_drop_impl s"
| "mem_step TxStep s = tx_continue s"
| "mem_step TxPushFails s = tx_push_fails s"
| "mem_step (PollRead t) s = rx_poll_read_frame t s"
| "mem_step RxDrop s = rx_drop_impl s"
| "mem_step RxStep s = rx_continue s"

inductive mem_reach :: "nat \<Rightarrow> mem \<Rightarrow> bool" for cap where
  mem_start: "in_memory cap = Done s \<Longrightarrow> mem_reach cap s"
| mem_next: "mem_reach cap s \<Longrightarrow> mem_step x s = Some s' \<Longrightarrow> mem_reach cap s'"

fun mem_run :: "mem_op list \<Rightarrow> mem \<Rightarrow> mem option" where
  "mem_run [] s = Some s"
| "mem_run (x # xs) s = (case mem_step x s of None \<Rightarrow> None | Some s' \<Rightarrow> mem_run xs s')"

lemma mem_run_reach: "mem_reach cap s \<Longrightarrow> mem_run xs s = Some s' \<Longrightarrow> mem_reach cap s'"
  by (induction xs arbitrary: s) (auto split: option.splits intro: mem_next)

subsection \<open>The invariant\<close>

text \<open>Slots: what one side has taken from the queue and not yet counted.\<close>

fun rx_popped :: "rx_pc \<Rightarrow> nat" where
  "rx_popped (RxAdd _) = 1"
| "rx_popped _ = 0"

fun tx_pushed :: "tx_pc \<Rightarrow> nat" where
  "tx_pushed TxSub = 1"
| "tx_pushed _ = 0"

fun rx_inflight :: "rx_pc \<Rightarrow> bytes list" where
  "rx_inflight (RxAdd m) = [m]"
| "rx_inflight (RxWake m) = [m]"
| "rx_inflight _ = []"

fun has_permit :: "tx_pc \<Rightarrow> bool" where
  "has_permit TxReady = True"
| "has_permit (TxPush _) = True"
| "has_permit TxSub = True"
| "has_permit _ = False"

definition accounting :: "mem \<Rightarrow> bool" where
  "accounting s \<longleftrightarrow>
     mem_cap s < 2 ^ 63 \<and>
     semaphore s + length (mem_queue s) + rx_popped (rx_pc s) = mem_cap s + tx_pushed (tx_pc s) \<and>
     (has_permit (tx_pc s) \<longrightarrow> 0 < semaphore s) \<and>
     sent s = received s @ rx_inflight (rx_pc s) @ mem_queue s"

text \<open>A side that is about to take and wake the other one.\<close>

fun rx_will_wake :: "rx_pc \<Rightarrow> bool" where
  "rx_will_wake (RxAdd _) = True"
| "rx_will_wake (RxWake _) = True"
| "rx_will_wake RxClosing = True"
| "rx_will_wake _ = False"

fun tx_will_wake :: "tx_pc \<Rightarrow> bool" where
  "tx_will_wake TxSub = True"
| "tx_will_wake TxWake = True"
| "tx_will_wake TxClosing = True"
| "tx_will_wake _ = False"

text \<open>
  A side that has registered its waker is woken, or its waker is in place and either the
  other side is about to take it or there is still nothing to wake up for.
\<close>

definition tx_covered :: "mem \<Rightarrow> bool" where
  "tx_covered s \<longleftrightarrow>
     (case tx_pc s of
        TxClosed2 t \<Rightarrow> t \<in> set (tx_woken s) \<or> sig_ready_to_recv s = Some t
      | TxSem2 t \<Rightarrow> t \<in> set (tx_woken s) \<or>
          sig_ready_to_recv s = Some t \<and> (rx_will_wake (rx_pc s) \<or> \<not> mem_closed s)
      | TxParked t \<Rightarrow> t \<in> set (tx_woken s) \<or>
          sig_ready_to_recv s = Some t \<and> (rx_will_wake (rx_pc s) \<or> semaphore s = 0 \<and> \<not> mem_closed s)
      | _ \<Rightarrow> True)"

definition rx_covered :: "mem \<Rightarrow> bool" where
  "rx_covered s \<longleftrightarrow>
     (case rx_pc s of
        RxPop2 t \<Rightarrow> t \<in> set (rx_woken s) \<or> sig_msg_sent s = Some t
      | RxClosed2 t \<Rightarrow> t \<in> set (rx_woken s) \<or>
          sig_msg_sent s = Some t \<and> (tx_will_wake (tx_pc s) \<or> mem_queue s = [])
      | RxParked t \<Rightarrow> t \<in> set (rx_woken s) \<or>
          sig_msg_sent s = Some t \<and> (tx_will_wake (tx_pc s) \<or> mem_queue s = [] \<and> \<not> mem_closed s)
      | _ \<Rightarrow> True)"

lemmas mem_ops = tx_poll_ready_def tx_start_send_def tx_drop_impl_def tx_continue_def
  rx_poll_read_frame_def rx_drop_impl_def rx_continue_def rx_try_pop_def wake_reader_def wake_writer_def
  wrapping_sub1_def wrapping_add1_def

text \<open>A spurious failure leaves no trace.\<close>

lemma tx_push_fails_same: "tx_push_fails s = Some s' \<Longrightarrow> s' = s"
  by (auto simp: tx_push_fails_def split: tx_pc.split_asm)

lemma tx_pushed_le: "tx_pushed p \<le> 1"
  by (cases p) auto

lemma accounting_step:
  assumes "accounting s" and "mem_step x s = Some s'"
  shows "accounting s'"
proof -
  have tx: "accounting s'" if "tx_continue s = Some s'"
    using assms(1) that
    by (cases "tx_pc s") (auto simp: accounting_def mem_ops split: if_splits option.splits)
  have rx: "accounting s'" if "rx_continue s = Some s'"
    using assms(1) that tx_pushed_le [of "tx_pc s"]
    by (cases "rx_pc s") (auto simp: accounting_def mem_ops split: if_splits option.splits list.splits)
  have free: "tx_pushed (tx_pc s) = 0" if "tx_free (tx_pc s)"
    using that by (cases "tx_pc s") auto
  have rfree: "rx_popped (rx_pc s) = 0 \<and> rx_inflight (rx_pc s) = []" if "rx_free (rx_pc s)"
    using that by (cases "rx_pc s") auto
  show ?thesis
    using assms tx rx free rfree tx_push_fails_same
    by (cases x) (auto simp: accounting_def mem_ops split: if_splits list.splits)
qed

lemma covered_tx_continue:
  "tx_covered s \<Longrightarrow> rx_covered s \<Longrightarrow> tx_continue s = Some s' \<Longrightarrow> tx_covered s' \<and> rx_covered s'"
  by (cases "tx_pc s"; cases "rx_pc s")
    (auto simp: tx_covered_def rx_covered_def mem_ops split: if_splits option.splits)

lemma covered_rx_continue:
  "tx_covered s \<Longrightarrow> rx_covered s \<Longrightarrow> rx_continue s = Some s' \<Longrightarrow> tx_covered s' \<and> rx_covered s'"
  by (cases "tx_pc s"; cases "rx_pc s")
    (auto simp: tx_covered_def rx_covered_def mem_ops split: if_splits option.splits list.splits)

lemma free_no_wake:
  "tx_free p \<Longrightarrow> \<not> tx_will_wake p" "rx_free r \<Longrightarrow> \<not> rx_will_wake r"
  by (cases p; simp) (cases r; simp)

lemma covered_tx_start:
  "tx_covered s \<Longrightarrow> rx_covered s \<Longrightarrow> tx_poll_ready t s = Some s' \<Longrightarrow> tx_covered s' \<and> rx_covered s'"
  "tx_covered s \<Longrightarrow> rx_covered s \<Longrightarrow> tx_start_send item s = Some s' \<Longrightarrow> tx_covered s' \<and> rx_covered s'"
  "tx_covered s \<Longrightarrow> rx_covered s \<Longrightarrow> tx_drop_impl s = Some s' \<Longrightarrow> tx_covered s' \<and> rx_covered s'"
  by (cases "rx_pc s"; force simp: tx_covered_def rx_covered_def tx_poll_ready_def tx_start_send_def
        tx_drop_impl_def free_no_wake split: if_splits)+

lemma covered_rx_start:
  "tx_covered s \<Longrightarrow> rx_covered s \<Longrightarrow> rx_poll_read_frame t s = Some s' \<Longrightarrow> tx_covered s' \<and> rx_covered s'"
  "tx_covered s \<Longrightarrow> rx_covered s \<Longrightarrow> rx_drop_impl s = Some s' \<Longrightarrow> tx_covered s' \<and> rx_covered s'"
  by (cases "tx_pc s"; force simp: tx_covered_def rx_covered_def rx_poll_read_frame_def rx_drop_impl_def
        rx_try_pop_def free_no_wake split: if_splits list.splits)+

lemma covered_step:
  assumes "tx_covered s" and "rx_covered s" and "mem_step x s = Some s'"
  shows "tx_covered s' \<and> rx_covered s'"
proof (cases x)
  case (PollReady t)
  then show ?thesis using covered_tx_start(1) [OF assms(1,2)] assms(3) by simp
next
  case (StartSend item)
  then show ?thesis using covered_tx_start(2) [OF assms(1,2)] assms(3) by simp
next
  case TxDrop
  then show ?thesis using covered_tx_start(3) [OF assms(1,2)] assms(3) by simp
next
  case TxStep
  then show ?thesis using covered_tx_continue [OF assms(1,2)] assms(3) by simp
next
  case TxPushFails
  then show ?thesis using assms tx_push_fails_same [of s s'] by simp
next
  case (PollRead t)
  then show ?thesis using covered_rx_start(1) [OF assms(1,2)] assms(3) by simp
next
  case RxDrop
  then show ?thesis using covered_rx_start(2) [OF assms(1,2)] assms(3) by simp
next
  case RxStep
  then show ?thesis using covered_rx_continue [OF assms(1,2)] assms(3) by simp
qed

lemma mem_step_cap: "mem_step x s = Some s' \<Longrightarrow> mem_cap s' = mem_cap s"
proof (cases x)
  case TxStep
  then show "mem_step x s = Some s' \<Longrightarrow> ?thesis"
    by (cases "tx_pc s") (auto simp: mem_ops split: if_splits option.splits)
next
  case TxPushFails
  then show "mem_step x s = Some s' \<Longrightarrow> ?thesis" using tx_push_fails_same by auto
next
  case RxStep
  then show "mem_step x s = Some s' \<Longrightarrow> ?thesis"
    by (cases "rx_pc s") (auto simp: mem_ops split: if_splits option.splits list.splits)
qed (auto simp: mem_ops split: if_splits list.splits)

lemma mem_reach_inv:
  "mem_reach cap s \<Longrightarrow> accounting s \<and> tx_covered s \<and> rx_covered s \<and> mem_cap s = cap \<and> 0 < cap"
proof (induction rule: mem_reach.induct)
  case (mem_start s)
  then show ?case
    by (auto simp: in_memory_def accounting_def tx_covered_def rx_covered_def split: if_splits)
next
  case (mem_next s x s')
  have "mem_cap s' = mem_cap s" using mem_next.hyps(2) by (rule mem_step_cap)
  moreover have "accounting s'" using mem_next accounting_step by blast
  moreover have "tx_covered s' \<and> rx_covered s'" using mem_next covered_step by blast
  ultimately show ?case using mem_next by simp
qed

subsection \<open>Properties\<close>

text \<open>C25: The in-memory transport is a bounded first-in first-out channel under every interleaving
  of its two sides: the frames returned to the reader, the one it is handling and those in
  the queue are exactly the frames sent, in order; the queue never exceeds the capacity; and
  the semaphore never wraps. Whenever \<open>start_send\<close> is about to push there is room. So the loop
  that retries the push never spins on a full queue: an attempt that does not fail spuriously
  pushes the frame, and one that does changes nothing.\<close>

theorem in_memory_fifo:
  assumes "mem_reach cap s"
  shows "sent s = received s @ rx_inflight (rx_pc s) @ mem_queue s \<and> length (mem_queue s) \<le> cap \<and>
    (\<forall>item. tx_pc s = TxPush item \<longrightarrow> length (mem_queue s) < cap \<and>
       mem_step TxPushFails s = Some s \<and>
       mem_step TxStep s =
         Some (s\<lparr>mem_queue := mem_queue s @ [item], sent := sent s @ [item], tx_pc := TxSub\<rparr>)) \<and>
    (tx_pc s = TxSub \<longrightarrow> 0 < semaphore s) \<and> semaphore s \<le> cap + 1"
proof -
  have inv: "accounting s" "mem_cap s = cap" using mem_reach_inv [OF assms] by auto
  have "length (mem_queue s) \<le> cap"
    using inv by (cases "tx_pc s") (auto simp: accounting_def)
  moreover have "length (mem_queue s) < cap \<and> mem_step TxPushFails s = Some s \<and> mem_step TxStep s =
      Some (s\<lparr>mem_queue := mem_queue s @ [item], sent := sent s @ [item], tx_pc := TxSub\<rparr>)"
    if push: "tx_pc s = TxPush item" for item
  proof -
    have "length (mem_queue s) < cap" using inv push by (auto simp: accounting_def)
    then show ?thesis using inv(2) push by (cases s) (simp add: tx_continue_def tx_push_fails_def)
  qed
  ultimately show ?thesis
    using inv tx_pushed_le [of "tx_pc s"] by (auto simp: accounting_def)
qed

definition mem_one :: mem where
  "mem_one = \<lparr>mem_queue = [], mem_cap = 1, semaphore = 1, sig_msg_sent = None,
     sig_ready_to_recv = None, mem_closed = False, tx_pc = TxIdle, rx_pc = RxIdle,
     tx_woken = [], rx_woken = [], sent = [], received = []\<rparr>"

lemma mem_one_reach: "mem_reach 1 mem_one"
  by (rule mem_start) (simp add: in_memory_def mem_one_def)

text \<open>The writer fills the queue and waits; then the reader pops.\<close>

definition fill_run :: "mem_op list" where
  "fill_run = [PollReady 5, TxStep, StartSend [7], TxStep, TxStep, TxStep,
     PollReady 5, TxStep, TxStep, TxStep, TxStep]"

lemma fill_run_result:
  "mem_run fill_run mem_one =
     Some (mem_one\<lparr>mem_queue := [[7]], semaphore := 0, sig_ready_to_recv := Some 5,
             tx_pc := TxParked 5, sent := [[7]]\<rparr>)"
  by (simp add: fill_run_def mem_one_def mem_ops)

lemma fill_run_reach:
  "mem_reach 1 (mem_one\<lparr>mem_queue := [[7]], semaphore := 0, sig_ready_to_recv := Some 5,
     tx_pc := TxParked 5, sent := [[7]]\<rparr>)"
  using mem_run_reach [OF mem_one_reach fill_run_result] .

theorem in_memory_fifo_witness:
  "\<exists>s s'. mem_run [PollReady 5, TxStep, StartSend [7], TxPushFails] mem_one = Some s \<and> tx_pc s = TxPush [7] \<and>
     length (mem_queue s) < 1 \<and> mem_step TxPushFails s = Some s \<and>
     mem_step TxStep s = Some s' \<and> mem_queue s' = [[7]] \<and> sent s' = [[7]]"
proof -
  obtain s where run: "mem_run [PollReady 5, TxStep, StartSend [7], TxPushFails] mem_one = Some s"
    and s: "tx_pc s = TxPush [7]" "mem_queue s = []" "sent s = []"
    by (simp add: mem_one_def mem_ops tx_push_fails_def)
  have "mem_reach 1 s" by (rule mem_run_reach [OF mem_one_reach run])
  from in_memory_fifo [OF this] show ?thesis using run s by auto
qed

text \<open>C26: No wake-up is lost: under every interleaving, a writer that waits has been woken, or the
  reader is about to wake it, or the queue is full and open; a reader that waits has been
  woken, or the writer is about to wake it, or the queue is empty and open. So the two
  sides never wait for each other.\<close>

theorem in_memory_no_lost_wakeup:
  assumes "mem_reach cap s"
  shows "(tx_pc s = TxParked t \<longrightarrow> t \<in> set (tx_woken s) \<or> rx_will_wake (rx_pc s) \<or>
            length (mem_queue s) = cap \<and> \<not> mem_closed s) \<and>
    (rx_pc s = RxParked u \<longrightarrow> u \<in> set (rx_woken s) \<or> tx_will_wake (tx_pc s) \<or>
            mem_queue s = [] \<and> \<not> mem_closed s) \<and>
    \<not> (tx_pc s = TxParked t \<and> t \<notin> set (tx_woken s) \<and> rx_pc s = RxParked u \<and> u \<notin> set (rx_woken s))"
proof -
  note inv = mem_reach_inv [OF assms]
  have popped: "rx_popped (rx_pc s) = 0" if "\<not> rx_will_wake (rx_pc s)"
    using that by (cases "rx_pc s") auto
  show ?thesis
    using inv popped by (auto simp: accounting_def tx_covered_def rx_covered_def)
qed

theorem in_memory_no_lost_wakeup_witness:
  "\<exists>s s'. mem_run fill_run mem_one = Some s \<and> tx_pc s = TxParked 5 \<and> 5 \<notin> set (tx_woken s) \<and>
     length (mem_queue s) = 1 \<and> \<not> mem_closed s \<and>
     mem_run [PollRead 6, RxStep, RxStep] s = Some s' \<and> 5 \<in> set (tx_woken s')"
  using in_memory_no_lost_wakeup [OF fill_run_reach, of 5 0] fill_run_result
  by (simp add: mem_one_def mem_ops)

text \<open>The last frame can be lost at closing. If the writer sends a frame and is dropped
  between the reader's pop, which found nothing, and its load of the closed flag, the
  reader reports the end of the stream although the frame, accepted with \<open>Ok\<close>, is still in
  the queue.\<close>

theorem in_memory_close_race:
  "\<exists>s0 s. in_memory 1 = Done s0 \<and>
    mem_run [PollReady 5, TxStep, PollRead 6, StartSend [7], TxStep, TxStep, TxStep, TxDrop, TxStep,
             RxStep] s0 = Some s \<and>
    rx_pc s = RxEof \<and> tx_pc s = TxDone \<and> received s = [] \<and> sent s = [[7]] \<and> mem_queue s = [[7]]"
  by (simp add: in_memory_def mem_ops)

end
