(* ===== verification/Link.thy ===== *)
theory Link
  imports Connection In_Memory
begin

text \<open>
  A connection over the in-memory transport. The writer task at one end writes its frames
  with \<open>SinkExt::send\<close>, the read task at the other end awaits \<open>next\<close>; both are driven by an
  executor that polls a suspended task only after its waker was called. Steps in which a push
  fails spuriously change nothing and are left out. The lemmas show
  that such a transfer always ends, with every frame at the other side, and compose it
  with the writer task, the codec and the receiver.
\<close>

subsection \<open>Two tasks over one transport\<close>

text \<open>
  \<open>lk_todo\<close> are the frames the writing task still has to write, and \<open>lk_close\<close> says whether it
  returns after the last one, which drops its end of the transport. Otherwise it is
  suspended on its directives.
\<close>

record link =
  lk_mem :: mem
  lk_todo :: "bytes list"
  lk_close :: bool

definition link_start :: "nat \<Rightarrow> bytes list \<Rightarrow> bool \<Rightarrow> link outcome" where
  "link_start cap fs cl =
     obind (in_memory cap) (\<lambda>m. Done \<lparr>lk_mem = m, lk_todo = fs, lk_close = cl\<rparr>)"

text \<open>
  The next step of the writing task \<open>t\<close>. \<open>send\<close> polls \<open>poll_ready\<close> until it is ready and then
  calls \<open>start_send\<close>; the sink has nothing to flush.
\<close>

definition link_tx :: "nat \<Rightarrow> link \<Rightarrow> link option" where
  "link_tx t s =
     (let m = lk_mem s; upd = map_option (\<lambda>m'. s\<lparr>lk_mem := m'\<rparr>) in
      case tx_pc m of
        TxIdle \<Rightarrow>
          (if lk_todo s \<noteq> [] then upd (tx_poll_ready t m)
           else if lk_close s then upd (tx_drop_impl m) else None)
      | TxParked _ \<Rightarrow> if t \<in> set (tx_woken m) then upd (tx_poll_ready t m) else None
      | TxReady \<Rightarrow>
          (case lk_todo s of
             [] \<Rightarrow> None
           | b # bs \<Rightarrow> map_option (\<lambda>m'. s\<lparr>lk_mem := m', lk_todo := bs\<rparr>) (tx_start_send b m))
      | _ \<Rightarrow> upd (tx_continue m))"

text \<open>The next step of the reading task \<open>u\<close>: \<open>next\<close> is \<open>poll_fn\<close> of \<open>poll_read_frame\<close>.\<close>

definition link_rx :: "nat \<Rightarrow> link \<Rightarrow> link option" where
  "link_rx u s =
     (let m = lk_mem s; upd = map_option (\<lambda>m'. s\<lparr>lk_mem := m'\<rparr>) in
      case rx_pc m of
        RxIdle \<Rightarrow> upd (rx_poll_read_frame u m)
      | RxParked _ \<Rightarrow> if u \<in> set (rx_woken m) then upd (rx_poll_read_frame u m) else None
      | _ \<Rightarrow> upd (rx_continue m))"

datatype side = TxSide | RxSide

fun link_step :: "nat \<Rightarrow> nat \<Rightarrow> side \<Rightarrow> link \<Rightarrow> link option" where
  "link_step t u TxSide s = link_tx t s"
| "link_step t u RxSide s = link_rx u s"

text \<open>A schedule is a list of sides, each of which can move when its turn comes.\<close>

fun link_run :: "nat \<Rightarrow> nat \<Rightarrow> side list \<Rightarrow> link \<Rightarrow> link option" where
  "link_run t u [] s = Some s"
| "link_run t u (x # xs) s =
     (case link_step t u x s of None \<Rightarrow> None | Some s' \<Rightarrow> link_run t u xs s')"

definition link_stuck :: "nat \<Rightarrow> nat \<Rightarrow> link \<Rightarrow> bool" where
  "link_stuck t u s \<longleftrightarrow> link_tx t s = None \<and> link_rx u s = None"

subsection \<open>Every step is a step of the transport\<close>

fun tx_pushing :: "tx_pc \<Rightarrow> bytes list" where
  "tx_pushing (TxPush b) = [b]"
| "tx_pushing _ = []"

text \<open>The task in the program counters is the one that is polled.\<close>

fun tx_polled_by :: "nat \<Rightarrow> tx_pc \<Rightarrow> bool" where
  "tx_polled_by t (TxSem1 t') = (t' = t)"
| "tx_polled_by t (TxRegister t') = (t' = t)"
| "tx_polled_by t (TxClosed2 t') = (t' = t)"
| "tx_polled_by t (TxSem2 t') = (t' = t)"
| "tx_polled_by t (TxParked t') = (t' = t)"
| "tx_polled_by t _ = True"

fun rx_polled_by :: "nat \<Rightarrow> rx_pc \<Rightarrow> bool" where
  "rx_polled_by u (RxClosed1 u') = (u' = u)"
| "rx_polled_by u (RxRegister u') = (u' = u)"
| "rx_polled_by u (RxPop2 u') = (u' = u)"
| "rx_polled_by u (RxClosed2 u') = (u' = u)"
| "rx_polled_by u (RxParked u') = (u' = u)"
| "rx_polled_by u _ = True"

text \<open>Waiting for room, or having it: there is a frame to write.\<close>

fun tx_polling :: "tx_pc \<Rightarrow> bool" where
  "tx_polling (TxSem1 _) = True"
| "tx_polling (TxRegister _) = True"
| "tx_polling (TxClosed2 _) = True"
| "tx_polling (TxSem2 _) = True"
| "tx_polling (TxParked _) = True"
| "tx_polling TxReady = True"
| "tx_polling TxBroken = True"
| "tx_polling _ = False"

text \<open>
  Nothing is lost in front of the transport, the transport is closed only by the end of
  the writing task, and the reader is not dropped.
\<close>

definition link_local :: "bytes list \<Rightarrow> nat \<Rightarrow> nat \<Rightarrow> link \<Rightarrow> bool" where
  "link_local fs t u s \<longleftrightarrow>
     (let m = lk_mem s in
      sent m @ tx_pushing (tx_pc m) @ lk_todo s = fs \<and>
      tx_polled_by t (tx_pc m) \<and> rx_polled_by u (rx_pc m) \<and>
      (mem_closed m \<longleftrightarrow> tx_pc m = TxClosing \<or> tx_pc m = TxDone) \<and>
      (tx_polling (tx_pc m) \<longrightarrow> lk_todo s \<noteq> [] \<and> tx_pc m \<noteq> TxBroken) \<and>
      (mem_closed m \<longrightarrow> lk_close s \<and> lk_todo s = []) \<and>
      (rx_pc m = RxEof \<longrightarrow> mem_closed m) \<and> rx_pc m \<noteq> RxClosing \<and> rx_pc m \<noteq> RxGone)"

definition link_inv :: "nat \<Rightarrow> bytes list \<Rightarrow> nat \<Rightarrow> nat \<Rightarrow> link \<Rightarrow> bool" where
  "link_inv cap fs t u s \<longleftrightarrow> mem_reach cap (lk_mem s) \<and> link_local fs t u s"

lemma link_start_inv:
  assumes "link_start cap fs cl = Done s"
  shows "link_inv cap fs t u s"
proof -
  obtain m where m: "in_memory cap = Done m" and s: "s = \<lparr>lk_mem = m, lk_todo = fs, lk_close = cl\<rparr>"
    using assms by (auto simp: link_start_def obind_Done_iff)
  have "mem_reach cap m" using m by (rule mem_start)
  then show ?thesis using m by (auto simp: link_inv_def link_local_def s in_memory_def split: if_splits)
qed

lemma link_tx_step:
  assumes "link_tx t s = Some s'"
  shows "\<exists>x. mem_step x (lk_mem s) = Some (lk_mem s') \<and> lk_close s' = lk_close s \<and>
    (case x of StartSend b \<Rightarrow> lk_todo s = b # lk_todo s' | _ \<Rightarrow> lk_todo s' = lk_todo s) \<and>
    x \<in> insert TxDrop (insert TxStep (insert (PollReady t) (range StartSend))) \<and>
    (x = TxDrop \<longrightarrow> tx_pc (lk_mem s) = TxIdle \<and> lk_todo s = [] \<and> lk_close s)"
proof -
  have ready: ?thesis if "map_option (\<lambda>m'. s\<lparr>lk_mem := m'\<rparr>) (tx_poll_ready t (lk_mem s)) = Some s'"
    using that by (intro exI [of _ "PollReady t"]) auto
  have step: ?thesis if "map_option (\<lambda>m'. s\<lparr>lk_mem := m'\<rparr>) (tx_continue (lk_mem s)) = Some s'"
    using that by (intro exI [of _ TxStep]) auto
  have drop: ?thesis if "map_option (\<lambda>m'. s\<lparr>lk_mem := m'\<rparr>) (tx_drop_impl (lk_mem s)) = Some s'"
    "tx_pc (lk_mem s) = TxIdle" "lk_todo s = []" "lk_close s"
    using that by (intro exI [of _ TxDrop]) auto
  have send: ?thesis if "lk_todo s = b # bs"
    "map_option (\<lambda>m'. s\<lparr>lk_mem := m', lk_todo := bs\<rparr>) (tx_start_send b (lk_mem s)) = Some s'" for b bs
    using that by (intro exI [of _ "StartSend b"]) auto
  show ?thesis
    by (cases "tx_pc (lk_mem s)"; use assms ready step drop send in
        \<open>simp add: link_tx_def Let_def split: if_splits list.splits\<close>)
qed

lemma link_rx_step:
  assumes "link_rx u s = Some s'"
  shows "\<exists>x. mem_step x (lk_mem s) = Some (lk_mem s') \<and> lk_close s' = lk_close s \<and>
    lk_todo s' = lk_todo s \<and> x \<in> {RxStep, PollRead u}"
proof -
  have ready: ?thesis if "map_option (\<lambda>m'. s\<lparr>lk_mem := m'\<rparr>) (rx_poll_read_frame u (lk_mem s)) = Some s'"
    using that by (intro exI [of _ "PollRead u"]) auto
  have step: ?thesis if "map_option (\<lambda>m'. s\<lparr>lk_mem := m'\<rparr>) (rx_continue (lk_mem s)) = Some s'"
    using that by (intro exI [of _ RxStep]) auto
  show ?thesis
    by (cases "rx_pc (lk_mem s)"; use assms ready step in
        \<open>simp add: link_rx_def Let_def split: if_splits\<close>)
qed

lemma link_tx_local:
  assumes "link_local fs t u s" and "link_tx t s = Some s'"
  shows "link_local fs t u s'"
proof -
  obtain m td cl where s: "s = \<lparr>lk_mem = m, lk_todo = td, lk_close = cl\<rparr>" by (cases s)
  show ?thesis
    using assms(2,1) unfolding s
    by (cases "tx_pc m"; clarsimp simp: link_tx_def mem_ops Let_def
        split: if_splits list.splits option.splits; simp add: link_local_def Let_def)
qed

lemma link_rx_local:
  assumes "link_local fs t u s" and "link_rx u s = Some s'"
  shows "link_local fs t u s'"
proof -
  obtain m td cl where s: "s = \<lparr>lk_mem = m, lk_todo = td, lk_close = cl\<rparr>" by (cases s)
  show ?thesis
    using assms(2,1) unfolding s
    by (cases "rx_pc m"; clarsimp simp: link_rx_def mem_ops Let_def
        split: if_splits list.splits option.splits; simp add: link_local_def Let_def)
qed

lemma link_step_inv:
  assumes "link_inv cap fs t u s" and "link_step t u x s = Some s'"
  shows "link_inv cap fs t u s'"
proof -
  obtain y where "mem_step y (lk_mem s) = Some (lk_mem s')"
    using link_tx_step [of t s s'] link_rx_step [of u s s'] assms(2) by (cases x) auto
  moreover have "link_local fs t u s'"
    using link_tx_local [of fs t u s s'] link_rx_local [of fs t u s s'] assms
    by (cases x) (simp_all add: link_inv_def)
  moreover have "mem_reach cap (lk_mem s)" using assms(1) by (simp add: link_inv_def)
  ultimately show ?thesis unfolding link_inv_def by (blast intro: mem_next)
qed

lemma link_run_inv:
  "link_inv cap fs t u s \<Longrightarrow> link_run t u xs s = Some s' \<Longrightarrow> link_inv cap fs t u s'"
  by (induction xs arbitrary: s) (auto split: option.splits intro: link_step_inv)

subsection \<open>Every transfer ends\<close>

text \<open>
  How many more steps there can be: a frame that is still to be written or to be read is worth
  the steps it takes and the wake-ups it can cause, and a wake-up is worth one more poll.
\<close>

fun tx_rank :: "tx_pc \<Rightarrow> nat" where
  "tx_rank TxIdle = 9"
| "tx_rank (TxSem1 _) = 5"
| "tx_rank (TxRegister _) = 4"
| "tx_rank (TxClosed2 _) = 3"
| "tx_rank (TxSem2 _) = 2"
| "tx_rank TxReady = 1"
| "tx_rank (TxPush _) = 32"
| "tx_rank TxSub = 18"
| "tx_rank TxWake = 17"
| "tx_rank TxClosing = 8"
| "tx_rank _ = 0"

fun rx_rank :: "rx_pc \<Rightarrow> nat" where
  "rx_rank RxIdle = 6"
| "rx_rank (RxClosed1 _) = 5"
| "rx_rank (RxRegister _) = 4"
| "rx_rank (RxPop2 _) = 3"
| "rx_rank (RxClosed2 _) = 2"
| "rx_rank (RxAdd _) = 15"
| "rx_rank (RxWake _) = 14"
| "rx_rank RxClosing = 8"
| "rx_rank _ = 0"

definition wake_rank :: "nat list \<Rightarrow> nat" where
  "wake_rank ts = (if ts = [] then 0 else 7)"

lemma wake_rank_simps [simp]: "wake_rank [] = 0" "wake_rank (t # ts) = 7"
  by (simp_all add: wake_rank_def)

lemma wake_rank_member: "t \<in> set ts \<Longrightarrow> wake_rank ts = 7"
  by (cases ts) auto

lemma wake_rank_le: "wake_rank ts \<le> 7"
  by (simp add: wake_rank_def)

definition mem_rank :: "mem \<Rightarrow> nat" where
  "mem_rank m = tx_rank (tx_pc m) + rx_rank (rx_pc m) + 13 * length (mem_queue m) +
     wake_rank (tx_woken m) + wake_rank (rx_woken m)"

definition link_rank :: "link \<Rightarrow> nat" where
  "link_rank s = 32 * length (lk_todo s) + mem_rank (lk_mem s)"

lemma link_tx_rank:
  assumes "link_tx t s = Some s'" and "link_inv cap fs t u s"
  shows "link_rank s' < link_rank s"
proof -
  obtain m td cl where s: "s = \<lparr>lk_mem = m, lk_todo = td, lk_close = cl\<rparr>" by (cases s)
  have room: "length (mem_queue m) < mem_cap m" if "tx_pc m = TxPush b" for b
    using mem_reach_inv [of cap m] assms(2) that by (auto simp: link_inv_def s accounting_def)
  show ?thesis
    using assms(1) room unfolding s
    by (cases "tx_pc m")
      (auto simp: link_tx_def link_rank_def mem_rank_def mem_ops Let_def wake_rank_member
        split: if_splits list.splits option.splits intro: order.strict_trans1 [OF wake_rank_le])
qed

lemma link_rx_rank:
  assumes "link_rx u s = Some s'"
  shows "link_rank s' < link_rank s"
proof -
  obtain m td cl where s: "s = \<lparr>lk_mem = m, lk_todo = td, lk_close = cl\<rparr>" by (cases s)
  show ?thesis
    using assms unfolding s
    by (cases "rx_pc m")
      (auto simp: link_rx_def link_rank_def mem_rank_def mem_ops Let_def wake_rank_member
        split: if_splits list.splits option.splits intro: order.strict_trans1 [OF wake_rank_le])
qed

lemma link_run_bound:
  "link_inv cap fs t u s \<Longrightarrow> link_run t u xs s = Some s' \<Longrightarrow> length xs + link_rank s' \<le> link_rank s"
proof (induction xs arbitrary: s)
  case (Cons x xs)
  obtain s1 where s1: "link_step t u x s = Some s1" "link_run t u xs s1 = Some s'"
    using Cons.prems(2) by (auto split: option.splits)
  have "link_inv cap fs t u s1" by (rule link_step_inv [OF Cons.prems(1) s1(1)])
  then have "length xs + link_rank s' \<le> link_rank s1" using s1(2) by (rule Cons.IH)
  moreover have "link_rank s1 < link_rank s"
    using s1(1) link_tx_rank [OF _ Cons.prems(1)] link_rx_rank by (cases x) simp_all
  ultimately show ?case by simp
qed simp

lemma link_run_close: "link_run t u xs s = Some s' \<Longrightarrow> lk_close s' = lk_close s"
proof (induction xs arbitrary: s)
  case (Cons x xs)
  then show ?case
    using link_tx_step link_rx_step by (cases x) (fastforce split: option.splits)+
qed simp

text \<open>Two tasks that cannot move have nothing left to do.\<close>

lemma link_stuck_done:
  assumes inv: "link_inv cap fs t u s" and stuck: "link_stuck t u s"
  shows "received (lk_mem s) @ mem_queue (lk_mem s) = fs \<and>
    (if lk_close s then rx_pc (lk_mem s) = RxEof \<and> tx_pc (lk_mem s) = TxDone
     else mem_queue (lk_mem s) = [])"
proof -
  obtain m td cl where s: "s = \<lparr>lk_mem = m, lk_todo = td, lk_close = cl\<rparr>" by (cases s)
  have reach: "accounting m" "tx_covered m" "rx_covered m" and cap: "mem_cap m = cap" "0 < cap"
    and local: "link_local fs t u s"
    using inv mem_reach_inv [of cap m] by (auto simp: link_inv_def s)
  have step: "link_tx t s = None" "link_rx u s = None" using stuck by (simp_all add: link_stuck_def)
  have tx: "tx_pc m = TxDone \<or> tx_pc m = TxIdle \<and> td = [] \<and> \<not> cl \<or> tx_pc m = TxParked t \<and> t \<notin> set (tx_woken m)"
    using step(1) local unfolding s
    by (cases "tx_pc m"; simp add: link_tx_def Let_def tx_poll_ready_def tx_drop_impl_def
        tx_start_send_def tx_continue_def link_local_def split: if_splits list.splits)
  have rx: "rx_pc m = RxEof \<or> rx_pc m = RxParked u \<and> u \<notin> set (rx_woken m)"
    using step(2) local unfolding s
    by (cases "rx_pc m"; simp add: link_rx_def Let_def rx_poll_read_frame_def rx_continue_def
        link_local_def split: if_splits list.splits)
  have closed: "mem_closed m \<longleftrightarrow> tx_pc m = TxDone" and eof: "rx_pc m = RxEof \<longrightarrow> mem_closed m"
    and sent: "sent m @ tx_pushing (tx_pc m) @ td = fs"
    using local tx by (auto simp: link_local_def s)
  have received: "received m = fs \<and> mem_queue m = []" if "tx_pc m = TxIdle" "td = []"
  proof -
    have "rx_pc m = RxParked u" "u \<notin> set (rx_woken m)" using rx closed eof that by auto
    then have "mem_queue m = []" using reach(3) that by (simp add: rx_covered_def)
    then show ?thesis
      using sent reach(1) that \<open>rx_pc m = RxParked u\<close> by (simp add: accounting_def)
  qed
  have parked: False if "tx_pc m = TxParked t" "t \<notin> set (tx_woken m)"
  proof -
    have "rx_pc m = RxParked u" "u \<notin> set (rx_woken m)" using rx closed eof that by auto
    then have "mem_queue m = []" "semaphore m = 0" using reach(2,3) that by (simp_all add: rx_covered_def tx_covered_def)
    then show False using reach(1) cap that \<open>rx_pc m = RxParked u\<close> by (simp add: accounting_def)
  qed
  have ended: "rx_pc m = RxEof" "received m @ mem_queue m = fs" "cl" if "tx_pc m = TxDone"
  proof -
    show "rx_pc m = RxEof" using rx closed reach(3) that by (auto simp: rx_covered_def)
    then show "received m @ mem_queue m = fs"
      using sent reach(1) closed local that by (simp add: accounting_def link_local_def s)
    show cl using local closed that by (simp add: link_local_def s)
  qed
  show ?thesis using tx received parked ended by (auto simp: s)
qed

lemma link_received_prefix:
  assumes "link_inv cap fs t u s"
  shows "\<exists>rest. fs = received (lk_mem s) @ rest"
  using assms mem_reach_inv [of cap "lk_mem s"]
  by (auto simp: link_inv_def link_local_def Let_def accounting_def)

lemma link_start_rank: "link_start cap fs cl = Done s \<Longrightarrow> link_rank s = 32 * length fs + 15"
  by (auto simp: link_start_def obind_Done_iff in_memory_def link_rank_def mem_rank_def split: if_splits)

lemma link_start_close: "link_start cap fs cl = Done s \<Longrightarrow> lk_close s = cl"
  by (auto simp: link_start_def obind_Done_iff)

lemma transfer_facts:
  assumes "link_start cap fs cl = Done s" and "link_run t u xs s = Some s'"
  shows "length xs \<le> 32 * length fs + 15" "\<exists>rest. fs = received (lk_mem s') @ rest"
    "link_stuck t u s' \<Longrightarrow> received (lk_mem s') @ mem_queue (lk_mem s') = fs \<and>
       (if cl then rx_pc (lk_mem s') = RxEof \<and> tx_pc (lk_mem s') = TxDone else mem_queue (lk_mem s') = [])"
proof -
  have inv: "link_inv cap fs t u s" by (rule link_start_inv [OF assms(1)])
  then have inv': "link_inv cap fs t u s'" using assms(2) by (rule link_run_inv)
  show "length xs \<le> 32 * length fs + 15"
    using link_run_bound [OF inv assms(2)] link_start_rank [OF assms(1)] by simp
  show "\<exists>rest. fs = received (lk_mem s') @ rest" by (rule link_received_prefix [OF inv'])
  show "received (lk_mem s') @ mem_queue (lk_mem s') = fs \<and>
       (if cl then rx_pc (lk_mem s') = RxEof \<and> tx_pc (lk_mem s') = TxDone else mem_queue (lk_mem s') = [])"
    if "link_stuck t u s'"
    using link_stuck_done [OF inv' that] link_run_close [OF assms(2)] link_start_close [OF assms(1)] by simp
qed

subsection \<open>Properties of the transfer\<close>

text \<open>C24: Every transfer over the in-memory transport ends, however the two tasks are scheduled.
  When each suspended task is polled only after its waker was called, \<open>n\<close> frames take at most
  \<open>32 * n + 15\<close> atomic steps, not counting pushes that fail spuriously and are tried again; at
  any time the frames read are a prefix of the frames to write;
  and when neither task can move, all frames have been read, or, if the writing task
  returned and dropped its end, the reader has reported the end of the stream and the
  frames not read are the last ones, still in the queue.\<close>

theorem transfer_terminates:
  assumes "link_start cap fs cl = Done s" and "link_run t u xs s = Some s'"
  shows "length xs \<le> 32 * length fs + 15 \<and> (\<exists>rest. fs = received (lk_mem s') @ rest) \<and>
    (link_stuck t u s' \<longrightarrow> received (lk_mem s') @ mem_queue (lk_mem s') = fs \<and>
       (if cl then rx_pc (lk_mem s') = RxEof \<and> tx_pc (lk_mem s') = TxDone
        else mem_queue (lk_mem s') = []))"
  using transfer_facts [OF assms] by blast

text \<open>Two frames through a queue of one slot: the writer fills it and waits, the reader drains it.\<close>

definition two_frames :: link where
  "two_frames = \<lparr>lk_mem = mem_one, lk_todo = [[7], [8]], lk_close = False\<rparr>"

definition two_frames_run :: "side list" where
  "two_frames_run =
     [TxSide, TxSide, TxSide, TxSide, TxSide, TxSide, TxSide, TxSide, TxSide, TxSide,
      TxSide, RxSide, RxSide, RxSide, TxSide, TxSide, TxSide, TxSide, TxSide, TxSide,
      RxSide, RxSide, RxSide, RxSide, RxSide, RxSide, RxSide, RxSide]"

lemma two_frames_start: "link_start 1 [[7], [8]] False = Done two_frames"
  by (simp add: link_start_def in_memory_def two_frames_def mem_one_def)

lemma two_frames_end:
  "\<exists>s. link_run 1 2 two_frames_run two_frames = Some s \<and> link_stuck 1 2 s"
  by (simp add: two_frames_run_def two_frames_def mem_one_def link_tx_def link_rx_def mem_ops Let_def
      link_stuck_def)

theorem transfer_terminates_witness:
  "\<exists>s. link_run 1 2 two_frames_run two_frames = Some s \<and> received (lk_mem s) = [[7], [8]] \<and>
     length two_frames_run \<le> 79"
proof -
  obtain s where s: "link_run 1 2 two_frames_run two_frames = Some s" "link_stuck 1 2 s"
    using two_frames_end by blast
  then show ?thesis using transfer_terminates [OF two_frames_start s(1)] by auto
qed

subsection \<open>Notifications from one end to the other\<close>

text \<open>A user who sends a list of notifications, and one who calls \<open>recv\<close> so many times.\<close>

fun notify_all ::
  "('q, writer_directive) chan_ops \<Rightarrow> ('p, 'd, 'q, 'u) rpc_core \<Rightarrow> (bytes \<times> 'p) list
   \<Rightarrow> (('p, 'd, 'q, 'u) rpc_core \<times> (try_send_msg_error + unit) list) outcome" where
  "notify_all ops core [] = Done (core, [])"
| "notify_all ops core ((m, p) # ns) =
     obind (try_send_notify ops core [] m p) (\<lambda>(core1, _, r).
       obind (notify_all ops core1 ns) (\<lambda>(core2, rs). Done (core2, r # rs)))"

fun recv_times ::
  "nat \<Rightarrow> ('p, 'd, 'q, 'u) rpc_core \<Rightarrow> bytes \<Rightarrow> read_result list
   \<Rightarrow> (('p, 'd, 'q, 'u) rpc_core \<times> read_result list \<times> ('p, 'd) message list) outcome" where
  "recv_times 0 core scratch reads = Done (core, reads, [])"
| "recv_times (Suc n) core scratch reads =
     obind (receiver_recv core scratch reads) (\<lambda>(core1, scratch1, reads1, p).
       case p of
         Pending \<Rightarrow> Done (core1, reads1, [])
       | Ready_now msg \<Rightarrow>
           obind (recv_times n core1 scratch1 reads1) (\<lambda>(core2, reads2, ms). Done (core2, reads2, msg # ms)))"

definition notify_frame :: "('p, 'd) codec \<Rightarrow> bytes \<times> 'p \<Rightarrow> bytes" where
  "notify_frame c = (\<lambda>(m, p). fst (encode_notify c m p []))"

definition sendable :: "('p, 'd) codec \<Rightarrow> (bytes \<Rightarrow> bool) \<Rightarrow> bytes \<times> 'p \<Rightarrow> bool" where
  "sendable c good_method = (\<lambda>(m, p).
     good_method m \<and> snd (encode_notify c m p []) = Inr () \<and> length (fst (encode_notify c m p [])) < 2 ^ 32)"

definition room_for :: "nat option \<Rightarrow> nat \<Rightarrow> bool" where
  "room_for cap n = (case cap of None \<Rightarrow> True | Some k \<Rightarrow> n \<le> k)"

text \<open>A message that is the notification that was sent.\<close>

definition arrives :: "('p \<Rightarrow> bytes) \<Rightarrow> bytes \<times> 'p \<Rightarrow> ('p, 'd) message \<Rightarrow> bool" where
  "arrives payload_of = (\<lambda>(m, p) msg.
     case msg of
       Inl _ \<Rightarrow> False
     | Inr ib \<Rightarrow> \<not> is_request ib \<and> inbound_method ib = Done m \<and> payload_bytes ib = Done (payload_of p))"

lemma notify_all_queues:
  assumes "mpsc_channel ops queue closed capacity"
  shows "core_codec core = c \<Longrightarrow> t_tx_deferred core = Some q \<Longrightarrow> \<not> closed q \<Longrightarrow>
    room_for (capacity q) (length (queue q) + length ns) \<Longrightarrow> \<forall>n \<in> set ns. sendable c good_method n \<Longrightarrow>
    \<exists>q'. notify_all ops core ns = Done (core\<lparr>t_tx_deferred := Some q'\<rparr>, replicate (length ns) (Inr ())) \<and>
      queue q' = queue q @ map (WriteMsg \<circ> notify_frame c) ns \<and> \<not> closed q'"
proof (induction ns arbitrary: core q)
  case Nil
  then show ?case by (intro exI [of _ q]) simp
next
  case (Cons n ns)
  obtain m p where n: "n = (m, p)" by fastforce
  have enc: "encode_notify c m p [] = (notify_frame c n, Inr ())"
    using Cons.prems(5) by (simp add: n sendable_def notify_frame_def prod_eq_iff)
  have "has_room (capacity q) (queue q)"
    using Cons.prems(4) by (simp add: room_for_def has_room_def split: option.splits)
  then obtain q1 where q1: "ch_try_send ops q (WriteMsg (notify_frame c n)) = (q1, Inr ())"
    "queue q1 = queue q @ [WriteMsg (notify_frame c n)]" "\<not> closed q1" "capacity q1 = capacity q"
    using mpsc_channel.try_send_ok [OF assms Cons.prems(3)] by blast
  have send: "try_send_notify ops core [] m p = Done (core\<lparr>t_tx_deferred := Some q1\<rparr>, [], Inr ())"
    using Cons.prems(1,2) enc q1(1) by (simp add: try_send_notify_def try_send_frame_def sender_tx_def)
  obtain q' where "notify_all ops (core\<lparr>t_tx_deferred := Some q1\<rparr>) ns =
      Done (core\<lparr>t_tx_deferred := Some q'\<rparr>, replicate (length ns) (Inr ()))"
    "queue q' = queue q1 @ map (WriteMsg \<circ> notify_frame c) ns" "\<not> closed q'"
    using Cons.IH [of "core\<lparr>t_tx_deferred := Some q1\<rparr>" q1] Cons.prems q1 by auto
  then show ?case using send q1(2) by (intro exI [of _ q']) (simp add: n)
qed

lemma deliver_notes:
  "deliver (default_writer (\<lambda>w b. (w @ [b], Inr ()))) False w up ex (map (WriteMsg \<circ> f) ns) =
     Done (w @ map f ns, up, Waiting)"
  by (induction ns arbitrary: w) (simp_all add: default_writer_def)

context codec_contract
begin

lemma recv_times_notes:
  assumes "core_codec core = c"
  shows "\<forall>n \<in> set ns. sendable c good_method n \<Longrightarrow>
    \<exists>ms. recv_times (length ns) core scratch (map (\<lambda>n. Inr (Some (notify_frame c n))) ns) =
        Done (core, [], ms) \<and> list_all2 (arrives payload_of) ns ms"
proof (induction ns arbitrary: scratch)
  case Nil
  then show ?case by simp
next
  case (Cons n ns)
  obtain m p where n: "n = (m, p)" by fastforce
  have "good_method m" "encode_notify c m p [] = (notify_frame c n, Inr ())" "length (notify_frame c n) < 2 ^ 32"
    using Cons.prems by (simp_all add: n sendable_def notify_frame_def prod_eq_iff)
  then obtain ib where "handle_inbound_once core (notify_frame c n) [] = Done (core, [], Inr (Some ib))"
    "\<not> is_request ib" "inbound_method ib = Done m" "payload_bytes ib = Done (payload_of p)"
    using receives_notify [OF _ _ _ assms] by blast
  moreover obtain ms where "recv_times (length ns) core [] (map (\<lambda>n. Inr (Some (notify_frame c n))) ns) =
      Done (core, [], ms)" "list_all2 (arrives payload_of) ns ms"
    using Cons.IH [of "[]"] Cons.prems by auto
  ultimately show ?case by (intro exI [of _ "Inr ib # ms"]) (simp add: n arrives_def)
qed

end

text \<open>C23: Notifications arrive, unchanged, once each and in order. For every codec and channel with
  their contracts: sending a list of notifications queues them; the writer task turns them
  into frames and waits for more; and however the two tasks at the in-memory transport are
  scheduled, the calls of \<open>recv\<close> at the other end give exactly the first so many of the
  notifications that were sent, with the same methods and payloads, and all of them after
  at most \<open>32 * n + 15\<close> steps of the transport, when neither task can move.\<close>

theorem notifications_arrive_in_order:
  assumes "codec_contract c good_method payload_of carried good_id good_response"
    and "mpsc_channel ops queue closed capacity"
    and "core_codec client = c" and "t_tx_deferred client = Some q" and "queue q = []" and "\<not> closed q"
    and "room_for (capacity q) (length ns)" and "\<forall>n \<in> set ns. sendable c good_method n"
    and "core_codec server = c" and "0 < cap" and "cap < 2 ^ 63"
  shows "\<exists>client' q' st s.
    notify_all ops client ns = Done (client', replicate (length ns) (Inr ())) \<and>
    t_tx_deferred client' = Some q' \<and>
    write_runner (Suc (length ns)) (default_writer (\<lambda>w b. (w @ [b], Inr ()))) ops
      (runner_new [] q' (Some (core_reqs client'))) = Some (Done (st, Waiting)) \<and>
    link_start cap (writer st) False = Done s \<and>
    (\<forall>xs s'. link_run t u xs s = Some s' \<longrightarrow> length xs \<le> 32 * length ns + 15 \<and>
      (\<exists>k ms. recv_times k server [] (map (\<lambda>b. Inr (Some b)) (received (lk_mem s'))) = Done (server, [], ms) \<and>
        list_all2 (arrives payload_of) (take k ns) ms \<and> k \<le> length ns \<and>
        (link_stuck t u s' \<longrightarrow> k = length ns)))"
proof -
  obtain q' where sent: "notify_all ops client ns =
      Done (client\<lparr>t_tx_deferred := Some q'\<rparr>, replicate (length ns) (Inr ()))"
    and q': "queue q' = map (WriteMsg \<circ> notify_frame c) ns" "\<not> closed q'"
    using notify_all_queues [OF assms(2,3,4,6) _ assms(8)] assms(5,7) by auto
  obtain out where run: "write_runner (Suc (length ns)) (default_writer (\<lambda>w b. (w @ [b], Inr ()))) ops
      (runner_new [] q' (Some (core_reqs client))) = Some out"
    and "map_outcome abs_run out = Done (map (notify_frame c) ns, Some (core_reqs client), Waiting)"
    using write_runner_refines_deliver_out [OF assms(2), of "runner_new [] q' (Some (core_reqs client))"
        "Suc (length ns)" "default_writer (\<lambda>w b. (w @ [b], Inr ()))"] q'
    by (auto simp: runner_new_def deliver_notes expire_after_def)
  then obtain st where st: "out = Done (st, Waiting)" "writer st = map (notify_frame c) ns"
    by (cases out) (auto simp: abs_run_def)
  obtain s where s: "link_start cap (map (notify_frame c) ns) False = Done s"
    using assms(10,11) by (auto simp: link_start_def in_memory_def)
  have arrive: "length xs \<le> 32 * length ns + 15 \<and>
      (\<exists>k ms. recv_times k server [] (map (\<lambda>b. Inr (Some b)) (received (lk_mem s'))) = Done (server, [], ms) \<and>
        list_all2 (arrives payload_of) (take k ns) ms \<and> k \<le> length ns \<and>
        (link_stuck t u s' \<longrightarrow> k = length ns))"
    if "link_run t u xs s = Some s'" for xs s'
  proof -
    note facts = transfer_facts [OF s that]
    let ?k = "length (received (lk_mem s'))"
    obtain rest where rest: "map (notify_frame c) ns = received (lk_mem s') @ rest" using facts(2) by blast
    then have "?k \<le> length ns" by (metis length_map le_add1 length_append)
    have received: "received (lk_mem s') = map (notify_frame c) (take ?k ns)"
      using rest by (metis append_eq_conv_conj take_map)
    have "\<forall>n \<in> set (take ?k ns). sendable c good_method n" using assms(8) by (meson in_set_takeD)
    then obtain ms where "recv_times (length (take ?k ns)) server []
        (map (\<lambda>n. Inr (Some (notify_frame c n))) (take ?k ns)) = Done (server, [], ms)"
      "list_all2 (arrives payload_of) (take ?k ns) ms"
      using codec_contract.recv_times_notes [OF assms(1,9)] by blast
    moreover have "map (\<lambda>n. Inr (Some (notify_frame c n)) :: read_result) (take ?k ns) =
        map (\<lambda>b. Inr (Some b)) (received (lk_mem s'))"
      using arg_cong [OF received, of "map (\<lambda>b. Inr (Some b) :: read_result)"] by (simp add: comp_def)
    moreover have "link_stuck t u s' \<longrightarrow> ?k = length ns"
      using facts(3) by (metis append_Nil2 length_map)
    ultimately show ?thesis
      using facts(1) \<open>?k \<le> length ns\<close> by (intro conjI exI [of _ ?k] exI [of _ ms]) simp_all
  qed
  show ?thesis
  proof (intro exI conjI)
    show "notify_all ops client ns = Done (client\<lparr>t_tx_deferred := Some q'\<rparr>, replicate (length ns) (Inr ()))"
      by (rule sent)
    show "t_tx_deferred (client\<lparr>t_tx_deferred := Some q'\<rparr>) = Some q'" by simp
    show "write_runner (Suc (length ns)) (default_writer (\<lambda>w b. (w @ [b], Inr ()))) ops
        (runner_new [] q' (Some (core_reqs (client\<lparr>t_tx_deferred := Some q'\<rparr>)))) = Some (Done (st, Waiting))"
      using run st(1) by simp
    show "link_start cap (writer st) False = Done s" using s st(2) by simp
  qed (use arrive in blast)
qed

text \<open>Two notifications over the raw codec and a transport with one slot.\<close>

theorem notifications_arrive_in_order_witness:
  "\<exists>client' q' st s.
    notify_all fifo_ops raw_core [([0x41], [1]), ([0x42], [])] = Done (client', [Inr (), Inr ()]) \<and>
    t_tx_deferred client' = Some q' \<and>
    write_runner 3 (default_writer (\<lambda>w b. (w @ [b], Inr ()))) fifo_ops
      (runner_new [] q' (Some (core_reqs client'))) = Some (Done (st, Waiting)) \<and>
    link_start 1 (writer st) False = Done s"
proof -
  let ?ns = "[([0x41], [1]), ([0x42], [])] :: (bytes \<times> bytes) list"
  have codec: "core_codec raw_core = raw_codec wire_ops True 1"
    and q: "t_tx_deferred raw_core = Some (fifo_new None)"
    by (simp_all add: raw_core_def)
  have empty: "fifo_items (fifo_new None :: writer_directive fifo) = []"
    and opened: "\<not> fifo_closed (fifo_new None :: writer_directive fifo)"
    and room: "room_for (fifo_cap (fifo_new None :: writer_directive fifo)) (length ?ns)"
    by (simp_all add: fifo_new_def room_for_def)
  have good: "\<forall>n \<in> set ?ns. sendable (raw_codec wire_ops True 1) utf8_valid n"
    by (simp add: sendable_def utf8_valid_ascii raw_codec_def raw_encode_notify_def raw_serialize2_def
        raw_serialize_def wire_ops_def wire_bytes_def varint.simps)
  have "(0 :: nat) < 1" "(1 :: nat) < 2 ^ 63" by simp_all
  from notifications_arrive_in_order [where t = 1 and u = 2,
      OF wire.contract fifo.mpsc_channel_axioms codec q empty opened room good codec this]
  obtain client' q' st s where
    "notify_all fifo_ops raw_core ?ns = Done (client', replicate (length ?ns) (Inr ()))"
    "t_tx_deferred client' = Some q'"
    "write_runner (Suc (length ?ns)) (default_writer (\<lambda>w b. (w @ [b], Inr ()))) fifo_ops
      (runner_new [] q' (Some (core_reqs client'))) = Some (Done (st, Waiting))"
    "link_start 1 (writer st) False = Done s" by blast
  then show ?thesis by (intro exI [of _ client'] exI [of _ q'] exI [of _ st] exI [of _ s]) (simp add: numeral_3_eq_3)
qed

end
