(* ===== verification/Sender_Session.thy ===== *)
theory Sender_Session
  imports Builder
begin

text \<open>
  What a user can do with the sender handles of \<open>src/rpc/sender.rs\<close>, and the writer task beside
  it. Every operation exists in a form that is tried at once and in an asynchronous one. An
  asynchronous send is suspended while the channel has no room; it is then polled again or
  dropped. A session interleaves these polls with the use of the futures that requests
  return, with responses that arrive and with the steps of the writer task of
  \<open>src/rpc/core.rs\<close>. The lemmas show that no step of a session panics.
\<close>

subsection \<open>Operations of a sender handle\<close>

datatype 'p sender_op =
  OpNotify bytes 'p
| OpRequest bytes 'p
| OpBurst "prepared_packet list"
| OpFlush
| OpShutdown bool

text \<open>
  What is left of a suspended asynchronous send: the frame in hand, with the future of the
  request it carries, or the action that still has to be queued.
\<close>

datatype pending_send =
  PendingFrame writer_directive
| PendingRequest writer_directive receive_response
| PendingFlush
| PendingShutdown bool

text \<open>
  One operation that is tried at once, with the identifier generator threaded through. A
  request needs a \<open>RequestSender\<close>, which only an enabled request context gives. The result
  lists the future it returns and the send it leaves suspended, if any.
\<close>

fun sender_step ::
  "('q, writer_directive) chan_ops \<Rightarrow> ('g \<Rightarrow> u64 \<times> 'g) \<Rightarrow> ('p, 'd, 'q, 'u) rpc_core \<times> 'g
   \<Rightarrow> 'p sender_op
   \<Rightarrow> (('p, 'd, 'q, 'u) rpc_core \<times> 'g \<times> receive_response list \<times> pending_send list) outcome" where
  "sender_step ops rnd (core, g) (OpNotify meth params) =
     obind (try_send_notify ops core [] meth params) (\<lambda>(core', _). Done (core', g, [], []))"
| "sender_step ops rnd (core, g) (OpRequest meth params) =
     (case try_into_request_sender core of
        Inl _ \<Rightarrow> Done (core, g, [], [])
      | Inr _ \<Rightarrow> obind (try_send_request ops core rnd g [] meth params) (\<lambda>(core', _, g', r).
          Done (core', g', case r of Inr resp \<Rightarrow> [resp] | Inl _ \<Rightarrow> [], [])))"
| "sender_step ops rnd (core, g) (OpBurst ps) =
     obind (try_burst ops core (burst_from_packets ps)) (\<lambda>(core', _). Done (core', g, [], []))"
| "sender_step ops rnd (core, g) OpFlush =
     obind (try_flush_writer ops core) (\<lambda>(core', _). Done (core', g, [], []))"
| "sender_step ops rnd (core, g) (OpShutdown discard) =
     obind (try_shutdown_writer ops core discard) (\<lambda>(core', _). Done (core', g, [], []))"

text \<open>The first poll of the asynchronous operation.\<close>

definition burst_frame :: "('p, 'd) codec \<Rightarrow> packet_write_burst \<Rightarrow> pending_send list" where
  "burst_frame codec b =
     (case burst_into_directive codec b of Inr (Some (_, msg)) \<Rightarrow> [PendingFrame msg] | _ \<Rightarrow> [])"

fun sender_await ::
  "('q, writer_directive) chan_ops \<Rightarrow> ('g \<Rightarrow> u64 \<times> 'g) \<Rightarrow> ('p, 'd, 'q, 'u) rpc_core \<times> 'g
   \<Rightarrow> 'p sender_op
   \<Rightarrow> (('p, 'd, 'q, 'u) rpc_core \<times> 'g \<times> receive_response list \<times> pending_send list) outcome" where
  "sender_await ops rnd (core, g) (OpNotify meth params) =
     obind (send_notify ops core [] meth params) (\<lambda>polled. Done (case polled of
         Pending \<Rightarrow> (core, g, [], [PendingFrame (WriteMsg (fst (encode_notify (core_codec core) meth params [])))])
       | Ready_now (core', _) \<Rightarrow> (core', g, [], [])))"
| "sender_await ops rnd (core, g) (OpRequest meth params) =
     (case try_into_request_sender core of
        Inl _ \<Rightarrow> Done (core, g, [], [])
      | Inr _ \<Rightarrow> obind (send_request ops core rnd g [] meth params) (\<lambda>(core', _, g', r). Done (case r of
            Suspended msg resp \<Rightarrow> (core', g', [], [PendingRequest msg resp])
          | Finished (Inr resp) \<Rightarrow> (core', g', [resp], [])
          | Finished (Inl _) \<Rightarrow> (core', g', [], []))))"
| "sender_await ops rnd (core, g) (OpBurst ps) =
     obind (burst ops core (burst_from_packets ps)) (\<lambda>polled. Done (case polled of
         Pending \<Rightarrow> (core, g, [], burst_frame (core_codec core) (burst_from_packets ps))
       | Ready_now (core', _) \<Rightarrow> (core', g, [], [])))"
| "sender_await ops rnd (core, g) OpFlush =
     obind (flush_writer ops core) (\<lambda>polled. Done (case polled of
         Pending \<Rightarrow> (core, g, [], [PendingFlush]) | Ready_now (core', _) \<Rightarrow> (core', g, [], [])))"
| "sender_await ops rnd (core, g) (OpShutdown discard) =
     obind (shutdown_writer ops core discard) (\<lambda>polled. Done (case polled of
         Pending \<Rightarrow> (core, g, [], [PendingShutdown discard]) | Ready_now (core', _) \<Rightarrow> (core', g, [], [])))"

text \<open>
  A later poll of a suspended send: the code behind its await. A request whose frame cannot
  be sent any more drops its future. Dropping the suspended send itself drops that future,
  too.
\<close>

fun sender_resume ::
  "('q, writer_directive) chan_ops \<Rightarrow> ('p, 'd, 'q, 'u) rpc_core \<Rightarrow> pending_send
   \<Rightarrow> (('p, 'd, 'q, 'u) rpc_core \<times> receive_response list \<times> pending_send list) outcome" where
  "sender_resume ops core (PendingFrame msg) =
     obind (send_frame ops core msg) (\<lambda>polled. Done (case polled of
         Pending \<Rightarrow> (core, [], [PendingFrame msg]) | Ready_now (core', _) \<Rightarrow> (core', [], [])))"
| "sender_resume ops core (PendingRequest msg resp) =
     obind (send_frame ops core msg) (\<lambda>polled. case polled of
         Pending \<Rightarrow> Done (core, [], [PendingRequest msg resp])
       | Ready_now (core', Inr _) \<Rightarrow> Done (core', [resp], [])
       | Ready_now (core', Inl _) \<Rightarrow> obind (drop_unsent core' resp) (\<lambda>core''. Done (core'', [], [])))"
| "sender_resume ops core PendingFlush =
     obind (flush_writer ops core) (\<lambda>polled. Done (case polled of
         Pending \<Rightarrow> (core, [], [PendingFlush]) | Ready_now (core', _) \<Rightarrow> (core', [], [])))"
| "sender_resume ops core (PendingShutdown discard) =
     obind (shutdown_writer ops core discard) (\<lambda>polled. Done (case polled of
         Pending \<Rightarrow> (core, [], [PendingShutdown discard]) | Ready_now (core', _) \<Rightarrow> (core', [], [])))"

fun pending_future :: "pending_send \<Rightarrow> receive_response list" where
  "pending_future (PendingRequest msg resp) = [resp]"
| "pending_future _ = []"

fun sender_cancel :: "('p, 'd, 'q, 'u) rpc_core \<Rightarrow> pending_send \<Rightarrow> ('p, 'd, 'q, 'u) rpc_core outcome" where
  "sender_cancel core (PendingRequest msg resp) = drop_unsent core resp"
| "sender_cancel core _ = Done core"

subsection \<open>The writer task, step by step\<close>

text \<open>
  One round of the loop of \<open>write_runner\<close>: \<open>None\<close> lets it go on. The end of the task includes
  the epilogue and drops the receiving end of the channel, which closes it.
\<close>

definition runner_step ::
  "'w frame_writer \<Rightarrow> ('q, writer_directive) chan_ops \<Rightarrow> ('w, 'q) runner
   \<Rightarrow> (('w, 'q) runner \<times> write_runner_result task_status option) outcome" where
  "runner_step wr ops st =
     (case ch_recv ops (rx_directive st) of
        Pending \<Rightarrow> Done (st, Some Waiting)
      | Ready_now (q, Inl _) \<Rightarrow>
          (case after_loop wr (st\<lparr>rx_directive := q\<rparr>) of
             (st', r) \<Rightarrow> Done (epilogue ops st', Some (Returned r)))
      | Ready_now (q, Inr msg) \<Rightarrow>
          obind (handle_directive wr ops (st\<lparr>rx_directive := q\<rparr>) msg) (\<lambda>(st', r). Done (case r of
              None \<Rightarrow> (st', None)
            | Some x \<Rightarrow> (epilogue ops st', Some (Returned x)))))"

text \<open>The task is these rounds, one after another.\<close>

lemma write_runner_steps:
  "write_runner (Suc n) wr ops st =
     (case runner_step wr ops st of
        Done (st', None) \<Rightarrow> write_runner n wr ops st'
      | Done (st', Some r) \<Rightarrow> Some (Done (st', r))
      | Panic \<Rightarrow> Some Panic
      | Undef \<Rightarrow> Some Undef)"
proof (cases "ch_recv ops (rx_directive st)")
  case Pending
  then show ?thesis by (simp add: write_runner_def runner_step_def)
next
  case (Ready_now x)
  obtain q r where x: "x = (q, r)" by (cases x)
  show ?thesis
  proof (cases r)
    case (Inl u)
    then show ?thesis using Ready_now x
      by (simp add: write_runner_def runner_step_def split: prod.split)
  next
    case (Inr msg)
    then show ?thesis using Ready_now x
      by (cases "handle_directive wr ops (st\<lparr>rx_directive := q\<rparr>) msg")
        (auto simp: write_runner_def runner_step_def split: option.split)
  qed
qed

subsection \<open>A session\<close>

text \<open>
  The core that all the handles share, the futures in the hands of the user, the suspended
  sends, and the writer task, until it returns.
\<close>

record ('p, 'd, 'q, 'u, 'g, 'w) sender_session =
  ss_core :: "('p, 'd, 'q, 'u) rpc_core"
  ss_gen :: 'g
  ss_futures :: "receive_response list"
  ss_pending :: "pending_send list"
  ss_task :: "('w, 'q) runner"
  ss_exit :: "write_runner_result task_status"

datatype 'p sender_event =
  TrySend "'p sender_op"
| AwaitSend "'p sender_op"
| ResumeSend nat
| CancelSend nat
| PollResponse nat task
| TryRecvResponse nat
| DropResponse nat
| ResponseFrame bytes request_id "response_error option" range_type
| WriterRound

text \<open>The task shares the channel, and its weak handle upgrades to the core unless it is a default one.\<close>

definition task_attach ::
  "('p, 'd, 'q, 'u) rpc_core \<Rightarrow> 'q \<Rightarrow> ('w, 'q) runner \<Rightarrow> ('w, 'q) runner" where
  "task_attach core q st =
     st\<lparr>rx_directive := q, w_ctx := map_option (\<lambda>_. core_reqs core) (w_ctx st)\<rparr>"

definition task_detach ::
  "('q, writer_directive) chan_ops \<Rightarrow> ('p, 'd, 'q, 'u) rpc_core \<Rightarrow> ('w, 'q) runner
   \<Rightarrow> write_runner_result task_status option \<Rightarrow> ('p, 'd, 'q, 'u) rpc_core" where
  "task_detach ops core st r =
     core\<lparr>core_reqs := (case w_ctx st of Some reqs \<Rightarrow> reqs | None \<Rightarrow> core_reqs core),
          t_tx_deferred := Some (case r of Some (Returned _) \<Rightarrow> ch_close ops (rx_directive st)
                                 | _ \<Rightarrow> rx_directive st)\<rparr>"

definition session_future ::
  "(('p, 'd, 'q, 'u) rpc_core \<Rightarrow> request_context \<Rightarrow> receive_response \<Rightarrow> (request_context \<times> receive_response list) outcome)
   \<Rightarrow> nat \<Rightarrow> ('p, 'd, 'q, 'u, 'g, 'w) sender_session \<Rightarrow> ('p, 'd, 'q, 'u, 'g, 'w) sender_session outcome" where
  "session_future f n s =
     (if n < length (ss_futures s) then
        obind (sender_reqs (ss_core s)) (\<lambda>c.
        obind (f (ss_core s) c (ss_futures s ! n)) (\<lambda>(c', kept).
          Done (s\<lparr>ss_core := (ss_core s)\<lparr>core_reqs := Some c'\<rparr>,
                  ss_futures := remove_nth n (ss_futures s) @ kept\<rparr>)))
      else Done s)"

text \<open>
  An event whose index names nothing does nothing; a returned task does no more rounds. A
  future or a suspended send that was polled and remains goes to the end of its list.
\<close>

fun session_event ::
  "'w frame_writer \<Rightarrow> ('q, writer_directive) chan_ops \<Rightarrow> ('g \<Rightarrow> u64 \<times> 'g)
   \<Rightarrow> ('p, 'd, 'q, 'u, 'g, 'w) sender_session \<Rightarrow> 'p sender_event
   \<Rightarrow> ('p, 'd, 'q, 'u, 'g, 'w) sender_session outcome" where
  "session_event wr ops rnd s (TrySend x) =
     obind (sender_step ops rnd (ss_core s, ss_gen s) x) (\<lambda>(core, g, new, susp).
       Done (s\<lparr>ss_core := core, ss_gen := g, ss_futures := ss_futures s @ new, ss_pending := ss_pending s @ susp\<rparr>))"
| "session_event wr ops rnd s (AwaitSend x) =
     obind (sender_await ops rnd (ss_core s, ss_gen s) x) (\<lambda>(core, g, new, susp).
       Done (s\<lparr>ss_core := core, ss_gen := g, ss_futures := ss_futures s @ new, ss_pending := ss_pending s @ susp\<rparr>))"
| "session_event wr ops rnd s (ResumeSend n) =
     (if n < length (ss_pending s) then
        obind (sender_resume ops (ss_core s) (ss_pending s ! n)) (\<lambda>(core, new, susp).
          Done (s\<lparr>ss_core := core, ss_futures := ss_futures s @ new,
                  ss_pending := remove_nth n (ss_pending s) @ susp\<rparr>))
      else Done s)"
| "session_event wr ops rnd s (CancelSend n) =
     (if n < length (ss_pending s) then
        obind (sender_cancel (ss_core s) (ss_pending s ! n)) (\<lambda>core.
          Done (s\<lparr>ss_core := core, ss_pending := remove_nth n (ss_pending s)\<rparr>))
      else Done s)"
| "session_event wr ops rnd s (PollResponse n t) =
     session_future (\<lambda>core c rr. obind (rr_poll (core_codec core) t c rr) (\<lambda>(c', rr', _). Done (c', [rr']))) n s"
| "session_event wr ops rnd s (TryRecvResponse n) =
     session_future (\<lambda>core c rr. obind (rr_try_recv (core_codec core) c rr) (\<lambda>(c', rr', _). Done (c', [rr']))) n s"
| "session_event wr ops rnd s (DropResponse n) =
     session_future (\<lambda>core c rr. obind (rr_drop c rr) (\<lambda>c'. Done (c', []))) n s"
| "session_event wr ops rnd s (ResponseFrame frame i errc payload) =
     Done (s\<lparr>ss_core := fst (handle_response (ss_core s) frame i errc payload)\<rparr>)"
| "session_event wr ops rnd s WriterRound =
     (case (ss_exit s, t_tx_deferred (ss_core s)) of
        (Waiting, Some q) \<Rightarrow>
          obind (runner_step wr ops (task_attach (ss_core s) q (ss_task s))) (\<lambda>(st, r).
            Done (s\<lparr>ss_core := task_detach ops (ss_core s) st r, ss_task := st,
                    ss_exit := (case r of Some x \<Rightarrow> x | None \<Rightarrow> Waiting)\<rparr>))
      | _ \<Rightarrow> Done s)"

fun session_events ::
  "'w frame_writer \<Rightarrow> ('q, writer_directive) chan_ops \<Rightarrow> ('g \<Rightarrow> u64 \<times> 'g)
   \<Rightarrow> ('p, 'd, 'q, 'u, 'g, 'w) sender_session \<Rightarrow> 'p sender_event list
   \<Rightarrow> ('p, 'd, 'q, 'u, 'g, 'w) sender_session outcome" where
  "session_events wr ops rnd s [] = Done s"
| "session_events wr ops rnd s (e # es) =
     obind (session_event wr ops rnd s e) (\<lambda>s'. session_events wr ops rnd s' es)"

definition session_start ::
  "('p, 'd, 'q, 'u) rpc_core \<Rightarrow> 'g \<Rightarrow> ('w, 'q) runner \<Rightarrow> ('p, 'd, 'q, 'u, 'g, 'w) sender_session" where
  "session_start core g task =
     \<lparr>ss_core = core, ss_gen = g, ss_futures = [], ss_pending = [], ss_task = task, ss_exit = Waiting\<rparr>"

subsection \<open>The table holds what the session waits for\<close>

text \<open>
  The invariant of \<open>Response_Future\<close> for a table and the futures outside it. It does not
  depend on the order of the futures.
\<close>

definition waits :: "request_context \<Rightarrow> receive_response list \<Rightarrow> bool" where
  "waits c fs \<longleftrightarrow> session_inv \<lparr>ctx = c, futures = fs, rx_task = RxIdle, wr_task = WrIdle\<rparr>"

lemma waits_iff: "waits c fs \<longleftrightarrow> mset (live fs) = mset (wait_list c) \<and> table_ok c"
  by (simp add: waits_def session_inv_def)

lemma mset_live_sum: "mset (live fs) = (\<Sum>f\<in>#mset fs. mset (live [f]))"
  by (induction fs) simp_all

lemma waits_cong: "mset fs = mset fs' \<Longrightarrow> waits c fs = waits c fs'"
  by (simp add: waits_iff mset_live_sum [of fs] mset_live_sum [of fs'])

lemma rr_poll_codec_free:
  "obind (rr_poll codec t c rr) (\<lambda>(c', rr', _). f c' rr') = obind (rr_poll () t c rr) (\<lambda>(c', rr', _). f c' rr')"
  by (cases "rr_state rr")
    (auto simp: rr_poll_def receive_poll_def try_unregister_def free_request_id_def rust_assert_def
      split: response_state.split)

lemma rr_try_recv_codec_free:
  "obind (rr_try_recv codec c rr) (\<lambda>(c', rr', _). f c' rr') = obind (rr_try_recv () c rr) (\<lambda>(c', rr', _). f c' rr')"
  by (cases "rr_state rr")
    (auto simp: rr_try_recv_def receive_poll_def try_unregister_def free_request_id_def rust_assert_def
      split: response_state.split)

text \<open>What the operations on one of the futures do to the rest.\<close>

lemma waits_poll:
  assumes "waits c (f # fs)"
  shows "\<exists>c' f'. obind (rr_poll codec t c f) (\<lambda>(c', rr', _). Done (c', [rr'])) = Done (c', [f']) \<and> waits c' (f' # fs)"
proof -
  obtain c' f' x where "rr_poll () t c f = Done (c', f', x)" "waits c' (f' # fs)"
    using session_step_inv [OF assms [unfolded waits_def], of "EvPoll 0 t"]
    by (auto simp: waits_def obind_Done_iff)
  then show ?thesis unfolding rr_poll_codec_free [where codec = codec] by simp
qed

lemma waits_try_recv:
  assumes "waits c (f # fs)"
  shows "\<exists>c' f'. obind (rr_try_recv codec c f) (\<lambda>(c', rr', _). Done (c', [rr'])) = Done (c', [f']) \<and> waits c' (f' # fs)"
proof -
  obtain c' f' x where "rr_try_recv () c f = Done (c', f', x)" "waits c' (f' # fs)"
    using session_step_inv [OF assms [unfolded waits_def], of "EvTryRecv 0"]
    by (auto simp: waits_def obind_Done_iff)
  then show ?thesis unfolding rr_try_recv_codec_free [where codec = codec] by simp
qed

lemma waits_drop:
  assumes "waits c (f # fs)"
  shows "\<exists>c'. rr_drop c f = Done c' \<and> waits c' fs"
  using session_step_inv [OF assms [unfolded waits_def], of "EvDrop 0"]
  by (auto simp: waits_def obind_Done_iff)

lemma waits_set_response:
  assumes "waits c fs"
  shows "waits (fst (set_response c i raw payload errc)) fs"
  using assms table_ok_member table_ok_set_response_store
  by (fastforce simp: waits_iff set_response_def set_response_lookup_def set_response_commit_def
      split: option.split dest!: map_of_SomeD)

lemma waits_write_failed: "waits c fs \<Longrightarrow> waits (set_request_write_failed c i) fs"
  using table_ok_member table_ok_write_failed_store
  by (fastforce simp: waits_iff set_request_write_failed_def split: option.split dest!: map_of_SomeD)

lemma waits_mark_expired: "waits c fs \<Longrightarrow> waits (mark_expired c) fs"
  by (simp add: waits_iff)

lemma waits_registers:
  assumes "waits c fs" and "registers c r c'"
  shows "waits c' ((case r of Some (Inr resp) \<Rightarrow> [resp] | _ \<Rightarrow> []) @ fs)"
  using assms by (auto simp: waits_iff registers_def split: option.splits sum.splits)

subsection \<open>The invariant of a session\<close>

text \<open>
  The core has its channel; with the request feature its table holds exactly the waiting
  futures of the user and of the suspended sends, and without it there are no futures and no
  request frames.
\<close>

definition core_ok ::
  "('q \<Rightarrow> writer_directive list) \<Rightarrow> ('p, 'd, 'q, 'u) rpc_core \<Rightarrow> receive_response list \<Rightarrow> bool" where
  "core_ok queue core fs \<longleftrightarrow>
     (\<exists>q. t_tx_deferred core = Some q \<and>
        (case core_reqs core of
           Some c \<Rightarrow> waits c fs
         | None \<Rightarrow> fs = [] \<and> (\<forall>b i. WriteReqMsg b i \<notin> set (queue q))))"

fun plain_frame :: "writer_directive \<Rightarrow> bool" where
  "plain_frame (WriteMsg b) = True"
| "plain_frame (WriteMsgBurst bs) = True"
| "plain_frame _ = False"

fun pending_ok :: "pending_send \<Rightarrow> bool" where
  "pending_ok (PendingFrame msg) = plain_frame msg"
| "pending_ok _ = True"

abbreviation pending_futures :: "pending_send list \<Rightarrow> receive_response list" where
  "pending_futures ps \<equiv> concat (map pending_future ps)"

lemma core_ok_cong:
  assumes "core_ok queue core fs" and "mset fs = mset fs'"
  shows "core_ok queue core fs'"
  using assms waits_cong [OF assms(2)] by (auto simp: core_ok_def split: option.splits)

lemma core_ok_append:
  assumes "core_ok queue core fs" and "t_tx_deferred core = Some q" and "queue q' = queue q @ ms"
    and "core_reqs core = None \<Longrightarrow> \<forall>b i. WriteReqMsg b i \<notin> set ms"
  shows "core_ok queue (core\<lparr>t_tx_deferred := Some q'\<rparr>) fs"
  using assms by (auto simp: core_ok_def split: option.splits)

lemma core_ok_channel: "core_ok queue core fs \<Longrightarrow> \<exists>q. t_tx_deferred core = Some q"
  by (auto simp: core_ok_def)

text \<open>A step on the core that leaves the request feature as it is, and the core in order.\<close>

definition good_core ::
  "('q \<Rightarrow> writer_directive list) \<Rightarrow> ('p, 'd, 'q, 'u) rpc_core \<Rightarrow> ('p, 'd, 'q, 'u) rpc_core
   \<Rightarrow> receive_response list \<Rightarrow> bool" where
  "good_core queue core core' fs \<longleftrightarrow>
     core_ok queue core' fs \<and> (core_reqs core' = None \<longleftrightarrow> core_reqs core = None)"

text \<open>The contract of the channel, for the directives to the writer task.\<close>

locale directive_channel = mpsc_channel ops queue closed capacity
  for ops :: "('q, writer_directive) chan_ops"
    and queue :: "'q \<Rightarrow> writer_directive list"
    and closed :: "'q \<Rightarrow> bool"
    and capacity :: "'q \<Rightarrow> nat option"
begin

lemma try_send_frame_good:
  assumes "core_ok queue core fs" and "plain_frame msg"
  shows "\<exists>core' r. try_send_frame ops core msg = Done (core', r) \<and> good_core queue core core' fs"
proof -
  obtain q where q: "t_tx_deferred core = Some q" using core_ok_channel [OF assms(1)] by blast
  note app = core_ok_append [OF assms(1) q]
  show ?thesis
  proof (cases rule: try_send_cases [of q msg, case_names closed full sent])
    case closed
    then show ?thesis using q app [of q "[]"] by (simp add: try_send_frame_def sender_tx_def good_core_def)
  next
    case full
    then show ?thesis using q app [of q "[]"] assms(2)
      by (cases msg) (simp_all add: try_send_frame_def sender_tx_def good_core_def)
  next
    case (sent q')
    then show ?thesis using q app [of q' "[msg]"] assms(2)
      by (cases msg) (simp_all add: try_send_frame_def sender_tx_def good_core_def)
  qed
qed

lemma send_cases:
  obtains (full) "ch_send ops q msg = Pending"
  | (ready) q' r where "ch_send ops q msg = Ready_now (q', r)" "queue q' = queue q @ (case r of Inr _ \<Rightarrow> [msg] | Inl _ \<Rightarrow> [])"
proof (cases "ch_send ops q msg")
  case (Ready_now x)
  obtain q' r where "x = (q', r)" by (cases x)
  then show ?thesis using ready Ready_now send_queue [of q msg q' r] by (cases r) auto
qed (use full in blast)

lemma send_frame_good:
  assumes "core_ok queue core fs" and "core_reqs core = None \<Longrightarrow> plain_frame msg"
  obtains "send_frame ops core msg = Done Pending"
  | core' r where "send_frame ops core msg = Done (Ready_now (core', r))" "good_core queue core core' fs"
      "core_reqs core' = core_reqs core"
proof -
  obtain q where q: "t_tx_deferred core = Some q" using core_ok_channel [OF assms(1)] by blast
  show ?thesis
  proof (cases rule: send_cases [of q msg, case_names full ready])
    case full
    then show ?thesis using that(1) q by (simp add: send_frame_def sender_tx_def)
  next
    case (ready q' r)
    have "core_ok queue (core\<lparr>t_tx_deferred := Some q'\<rparr>) fs"
      by (rule core_ok_append [OF assms(1) q ready(2)]) (use assms(2) in \<open>cases msg; auto split: sum.split\<close>)
    then show ?thesis using that(2) q ready(1) by (simp add: send_frame_def sender_tx_def good_core_def)
  qed
qed

lemma try_action_good:
  assumes "core_ok queue core fs" and "t_tx_deferred core = Some q" and "ch_try_send ops q msg = (q', r)"
    and "\<And>b i. msg \<noteq> WriteReqMsg b i"
  shows "good_core queue core (core\<lparr>t_tx_deferred := Some q'\<rparr>) fs"
    and "good_core queue core (core\<lparr>t_tx_deferred := Some (ch_close ops q')\<rparr>) fs"
proof -
  obtain ms where "queue q' = queue q @ ms" "ms = [] \<or> ms = [msg]"
    using try_send_queue [OF assms(3)] by (auto split: sum.splits)
  moreover from this have "WriteReqMsg b i \<notin> set ms" for b i using assms(4) [of b i] by auto
  ultimately show "good_core queue core (core\<lparr>t_tx_deferred := Some q'\<rparr>) fs"
    and "good_core queue core (core\<lparr>t_tx_deferred := Some (ch_close ops q')\<rparr>) fs"
    using core_ok_append [OF assms(1,2)] close(2) by (simp_all add: good_core_def)
qed

lemma action_good:
  assumes "core_ok queue core fs" and "t_tx_deferred core = Some q" and "ch_send ops q msg = Ready_now (q', r)"
    and "\<And>b i. msg \<noteq> WriteReqMsg b i"
  shows "good_core queue core (core\<lparr>t_tx_deferred := Some q'\<rparr>) fs"
    and "good_core queue core (core\<lparr>t_tx_deferred := Some (ch_close ops q')\<rparr>) fs"
proof -
  obtain ms where "queue q' = queue q @ ms" "ms = [] \<or> ms = [msg]"
    using send_queue [OF assms(3)] by (cases r) auto
  moreover from this have "WriteReqMsg b i \<notin> set ms" for b i using assms(4) [of b i] by auto
  ultimately show "good_core queue core (core\<lparr>t_tx_deferred := Some q'\<rparr>) fs"
    and "good_core queue core (core\<lparr>t_tx_deferred := Some (ch_close ops q')\<rparr>) fs"
    using core_ok_append [OF assms(1,2)] close(2) by (simp_all add: good_core_def)
qed

lemma request_encode_good:
  assumes "core_ok queue core fs" and "core_reqs core \<noteq> None"
  obtains core1 buf1 g1 r where "request_encode core rnd g buf meth params = Done (core1, buf1, g1, r)"
    "core_reqs core1 \<noteq> None"
    "core_ok queue core1 ((case r of Some (Inr resp) \<Rightarrow> [resp] | _ \<Rightarrow> []) @ fs)"
    "\<And>resp. r = Some (Inr resp) \<Longrightarrow> \<exists>h. resp = receive_response_new h"
proof -
  obtain c where c: "core_reqs core = Some c" "waits c fs" using assms by (auto simp: core_ok_def)
  then have ok: "table_ok c" by (simp add: waits_iff)
  obtain c1 buf1 g1 r where
    enc: "request_encode core rnd g buf meth params = Done (core\<lparr>core_reqs := Some c1\<rparr>, buf1, g1, r)"
    and reg: "registers c r c1"
    using request_encode_registers [OF c(1) ok] .
  have "core_ok queue (core\<lparr>core_reqs := Some c1\<rparr>) ((case r of Some (Inr resp) \<Rightarrow> [resp] | _ \<Rightarrow> []) @ fs)"
    using assms(1) waits_registers [OF c(2) reg] by (auto simp: core_ok_def split: option.splits)
  moreover have "\<exists>h. resp = receive_response_new h" if "r = Some (Inr resp)" for resp
    using reg that by (auto simp: registers_def)
  ultimately show ?thesis using that enc by simp
qed

lemma drop_unsent_good:
  assumes "core_ok queue core (resp # fs)"
  obtains core' where "drop_unsent core resp = Done core'" "good_core queue core core' fs"
proof -
  obtain c where c: "core_reqs core = Some c" "waits c (resp # fs)"
    using assms by (auto simp: core_ok_def split: option.split_asm)
  then obtain c' where "rr_drop c resp = Done c'" "waits c' fs" using waits_drop by blast
  then show ?thesis using that c assms
    by (auto simp: drop_unsent_def sender_reqs_def core_ok_def good_core_def)
qed

text \<open>What a good operation on the handle leaves: its futures and suspended sends are accounted for.\<close>

definition good_send ::
  "('p, 'd, 'q, 'u) rpc_core \<Rightarrow> receive_response list \<Rightarrow> ('p, 'd, 'q, 'u) rpc_core
   \<Rightarrow> receive_response list \<Rightarrow> pending_send list \<Rightarrow> bool" where
  "good_send core fs core' new susp \<longleftrightarrow>
     good_core queue core core' (new @ pending_futures susp @ fs) \<and> (\<forall>p \<in> set susp. pending_ok p)"

lemma good_send_plain [simp]:
  "good_send core fs core' [] [] \<longleftrightarrow> good_core queue core core' fs"
  by (simp add: good_send_def)

lemma good_send_wait:
  assumes "core_ok queue core fs" and "pending_future p = []" and "pending_ok p"
  shows "good_send core fs core [] [p]"
  using assms by (simp add: good_send_def good_core_def)

lemma good_core_refl: "core_ok queue core fs \<Longrightarrow> good_core queue core core fs"
  by (simp add: good_core_def)

lemma good_core_trans:
  "good_core queue core core1 fs' \<Longrightarrow> good_core queue core1 core2 fs \<Longrightarrow> good_core queue core core2 fs"
  by (simp add: good_core_def)

lemma burst_cases:
  obtains (nothing) "burst_into_directive codec b = Inr None"
  | (mismatch) "burst_into_directive codec b = Inl NotReusable"
  | (frame) n msg where "burst_into_directive codec b = Inr (Some (n, msg))" "plain_frame msg"
proof -
  have "burst_into_directive codec b = Inr None \<or> burst_into_directive codec b = Inl NotReusable \<or>
    (\<exists>n msg. burst_into_directive codec b = Inr (Some (n, msg)) \<and> plain_frame msg)"
    by (cases b) (auto simp: burst_into_directive_def)
  then show ?thesis using that by blast
qed

text \<open>The operations that are tried at once.\<close>

lemma try_send_request_good:
  assumes "core_ok queue core fs" and "core_reqs core \<noteq> None"
  shows "\<exists>core' buf' g' r. try_send_request ops core rnd g buf meth params = Done (core', buf', g', r) \<and>
    good_send core fs core' (case r of Inr resp \<Rightarrow> [resp] | Inl _ \<Rightarrow> []) []"
proof -
  obtain core1 buf1 g1 r where enc: "request_encode core rnd g buf meth params = Done (core1, buf1, g1, r)"
    and reqs: "core_reqs core1 \<noteq> None"
    and ok: "core_ok queue core1 ((case r of Some (Inr resp) \<Rightarrow> [resp] | _ \<Rightarrow> []) @ fs)"
    and new: "\<And>resp. r = Some (Inr resp) \<Longrightarrow> \<exists>h. resp = receive_response_new h"
    using request_encode_good [OF assms] by metis
  consider "r = None" | e where "r = Some (Inl e)" | resp where "r = Some (Inr resp)"
    by (metis option.exhaust sum.exhaust_sel)
  then show ?thesis
  proof cases
    case (3 resp)
    obtain h where h: "resp = receive_response_new h" using new 3 by blast
    let ?msg = "WriteReqMsg buf1 (rcv_id h)"
    have ok1: "core_ok queue core1 (resp # fs)" using ok 3 by simp
    obtain q where q: "t_tx_deferred core1 = Some q" using core_ok_channel [OF ok1] by blast
    have member: "?msg \<in> {WriteMsg buf1, WriteMsgBurst [], ?msg}" by simp
    show ?thesis
    proof (cases rule: try_send_frame_payload [OF mpsc_channel_axioms q member, case_names sent refused])
      case (sent q')
      have "core_ok queue (core1\<lparr>t_tx_deferred := Some q'\<rparr>) (resp # fs)"
        by (rule core_ok_append [OF ok1 q sent(2)]) (use reqs in simp)
      then show ?thesis using enc 3 h sent(1) reqs assms(2)
        by (auto simp: try_send_request_def rr_request_id_def good_send_def good_core_def)
    next
      case (refused e)
      have "core_ok queue (core1\<lparr>t_tx_deferred := Some q\<rparr>) (resp # fs)"
        by (rule core_ok_append [OF ok1 q, of _ "[]"]) simp_all
      then obtain core' where "drop_unsent (core1\<lparr>t_tx_deferred := Some q\<rparr>) resp = Done core'"
        "good_core queue (core1\<lparr>t_tx_deferred := Some q\<rparr>) core' fs"
        using drop_unsent_good by blast
      then show ?thesis using enc 3 h refused(1) reqs assms(2)
        by (auto simp: try_send_request_def rr_request_id_def good_core_def)
    qed
  qed (use enc ok reqs assms(2) in \<open>auto simp: try_send_request_def good_core_def\<close>)
qed

lemma sender_step_good:
  assumes ok: "core_ok queue core fs"
  shows "\<exists>core' g' new susp. sender_step ops rnd (core, g) x = Done (core', g', new, susp) \<and>
    good_send core fs core' new susp"
proof -
  obtain q where q: "t_tx_deferred core = Some q" using core_ok_channel [OF ok] by blast
  note frame = try_send_frame_good [OF ok]
  show ?thesis
  proof (cases x)
    case (OpNotify meth params)
    obtain buf1 e where enc: "encode_notify (core_codec core) meth params [] = (buf1, e)" by fastforce
    obtain core' r where "try_send_frame ops core (WriteMsg buf1) = Done (core', r)" "good_core queue core core' fs"
      using frame [of "WriteMsg buf1"] by auto
    then show ?thesis using OpNotify good_core_refl [OF ok] enc
      by (cases e) (simp_all add: try_send_notify_def)
  next
    case (OpRequest meth params)
    then show ?thesis using good_core_refl [OF ok] try_send_request_good [OF ok, of rnd g "[]" meth params]
      by (auto simp: try_into_request_sender_def)
  next
    case (OpBurst ps)
    show ?thesis
    proof (cases rule: burst_cases [of "core_codec core" "burst_from_packets ps", case_names nothing mismatch frame])
      case (frame n msg)
      then show ?thesis using OpBurst try_send_frame_good [OF ok, of msg] by (auto simp: try_burst_def)
    qed (use OpBurst good_core_refl [OF ok] in \<open>simp_all add: try_burst_def\<close>)
  next
    case OpFlush
    then show ?thesis using q try_action_good(1) [OF ok q]
      by (auto simp: try_flush_writer_def sender_tx_def split: prod.splits)
  next
    case (OpShutdown d)
    obtain q' r where sent: "ch_try_send ops q (shutdown_directive d) = (q', r)" by fastforce
    show ?thesis using OpShutdown q sent try_action_good [OF ok q sent]
      by (cases r) (auto simp: try_shutdown_writer_def sender_tx_def shutdown_directive_def)
  qed
qed

text \<open>The first poll of the asynchronous ones.\<close>

lemma send_request_good:
  assumes "core_ok queue core fs" and "core_reqs core \<noteq> None"
  shows "\<exists>core' buf' g' r. send_request ops core rnd g buf meth params = Done (core', buf', g', r) \<and>
    (case r of
       Suspended msg resp \<Rightarrow> good_send core fs core' [] [PendingRequest msg resp]
     | Finished (Inr resp) \<Rightarrow> good_send core fs core' [resp] []
     | Finished (Inl e) \<Rightarrow> good_send core fs core' [] [])"
proof -
  obtain core1 buf1 g1 r where enc: "request_encode core rnd g buf meth params = Done (core1, buf1, g1, r)"
    and reqs: "core_reqs core1 \<noteq> None"
    and ok: "core_ok queue core1 ((case r of Some (Inr resp) \<Rightarrow> [resp] | _ \<Rightarrow> []) @ fs)"
    and new: "\<And>resp. r = Some (Inr resp) \<Longrightarrow> \<exists>h. resp = receive_response_new h"
    using request_encode_good [OF assms] by metis
  consider "r = None" | e where "r = Some (Inl e)" | resp where "r = Some (Inr resp)"
    by (metis option.exhaust sum.exhaust_sel)
  then show ?thesis
  proof cases
    case (3 resp)
    obtain h where h: "resp = receive_response_new h" using new 3 by blast
    have ok1: "core_ok queue core1 (resp # fs)" using ok 3 by simp
    show ?thesis
    proof (cases rule: send_frame_good [OF ok1, of "WriteReqMsg buf1 (rcv_id h)", case_names feature full sent])
      case full
      then show ?thesis using enc 3 h ok1 reqs assms(2)
        by (auto simp: send_request_def rr_request_id_def good_send_def good_core_def)
    next
      case (sent core2 res)
      show ?thesis
      proof (cases res)
        case (Inl e)
        have "core_ok queue core2 (resp # fs)" using sent(2) by (simp add: good_core_def)
        then obtain core' where "drop_unsent core2 resp = Done core'" "good_core queue core2 core' fs"
          by (rule drop_unsent_good)
        then show ?thesis using enc 3 h sent Inl reqs assms(2)
          by (auto simp: send_request_def rr_request_id_def good_core_def)
      next
        case (Inr u)
        then show ?thesis using enc 3 h sent reqs assms(2)
          by (auto simp: send_request_def rr_request_id_def good_send_def good_core_def)
      qed
    qed (use reqs in simp)
  qed (use enc ok reqs assms(2) in \<open>auto simp: send_request_def good_core_def\<close>)
qed

lemma sender_await_good:
  assumes ok: "core_ok queue core fs"
  shows "\<exists>core' g' new susp. sender_await ops rnd (core, g) x = Done (core', g', new, susp) \<and>
    good_send core fs core' new susp"
proof -
  obtain q where q: "t_tx_deferred core = Some q" using core_ok_channel [OF ok] by blast
  note refl = good_core_refl [OF ok] and wait = good_send_wait [OF ok]
  show ?thesis
  proof (cases x)
    case (OpNotify meth params)
    obtain buf1 e where enc: "encode_notify (core_codec core) meth params [] = (buf1, e)" by fastforce
    show ?thesis
    proof (cases e)
      case (Inr u)
      show ?thesis
        by (cases rule: send_frame_good [OF ok, of "WriteMsg buf1"])
          (use OpNotify enc Inr wait [of "PendingFrame (WriteMsg buf1)"] in \<open>simp_all add: send_notify_def\<close>)
    qed (use OpNotify enc refl in \<open>simp add: send_notify_def\<close>)
  next
    case (OpRequest meth params)
    show ?thesis
    proof (cases "core_reqs core = None")
      case False
      then obtain core' buf' g' r where "send_request ops core rnd g [] meth params = Done (core', buf', g', r)"
        "case r of Suspended msg resp \<Rightarrow> good_send core fs core' [] [PendingRequest msg resp]
         | Finished (Inr resp) \<Rightarrow> good_send core fs core' [resp] []
         | Finished (Inl e) \<Rightarrow> good_send core fs core' [] []"
        using send_request_good [OF ok False, of rnd g "[]" meth params] by blast
      then show ?thesis using OpRequest False
        by (cases r) (auto simp: try_into_request_sender_def split: sum.splits)
    qed (use OpRequest refl in \<open>simp add: try_into_request_sender_def\<close>)
  next
    case (OpBurst ps)
    show ?thesis
    proof (cases rule: burst_cases [of "core_codec core" "burst_from_packets ps", case_names nothing mismatch frame])
      case (frame n msg)
      show ?thesis
        by (cases rule: send_frame_good [OF ok, of msg])
          (use OpBurst frame wait [of "PendingFrame msg"] in \<open>simp_all add: burst_def burst_frame_def\<close>)
    qed (use OpBurst refl in \<open>simp_all add: burst_def\<close>)
  next
    case OpFlush
    then show ?thesis using q action_good(1) [OF ok q, of Flush] wait [of PendingFlush]
      by (cases rule: send_cases [of q Flush]) (auto simp: flush_writer_def sender_tx_def)
  next
    case (OpShutdown d)
    have shut: "shutdown_directive d \<noteq> WriteReqMsg b i" for b i by (simp add: shutdown_directive_def)
    show ?thesis
    proof (cases rule: send_cases [of q "shutdown_directive d", case_names full ready])
      case full
      then show ?thesis using OpShutdown q wait [of "PendingShutdown d"]
        by (simp add: shutdown_writer_def sender_tx_def)
    next
      case (ready q' r)
      then show ?thesis using OpShutdown q action_good [OF ok q ready(1) shut]
        by (cases r) (simp_all add: shutdown_writer_def sender_tx_def)
    qed
  qed
qed

text \<open>A later poll, and the drop of a suspended send.\<close>

lemma sender_resume_good:
  assumes ok: "core_ok queue core (pending_future p @ fs)" and p: "pending_ok p"
  shows "\<exists>core' new susp. sender_resume ops core p = Done (core', new, susp) \<and> good_send core fs core' new susp"
proof -
  obtain q where q: "t_tx_deferred core = Some q" using core_ok_channel [OF ok] by blast
  show ?thesis
  proof (cases p)
    case (PendingFrame msg)
    have ok': "core_ok queue core fs" using ok PendingFrame by simp
    show ?thesis
      by (cases rule: send_frame_good [OF ok', of msg])
        (use PendingFrame p good_send_wait [OF ok' _ p] in simp_all)
  next
    case (PendingRequest msg resp)
    have ok': "core_ok queue core (resp # fs)" using ok PendingRequest by simp
    have reqs: "core_reqs core \<noteq> None" using ok' by (auto simp: core_ok_def split: option.split_asm)
    show ?thesis
    proof (cases rule: send_frame_good [OF ok', of msg, case_names feature full sent])
      case full
      then show ?thesis using PendingRequest ok' by (simp add: good_send_def good_core_def)
    next
      case (sent core2 res)
      show ?thesis
      proof (cases res)
        case (Inl e)
        have "core_ok queue core2 (resp # fs)" using sent(2) by (simp add: good_core_def)
        then obtain core' where "drop_unsent core2 resp = Done core'" "good_core queue core2 core' fs"
          by (rule drop_unsent_good)
        then show ?thesis using PendingRequest sent Inl by (simp add: good_core_def)
      qed (use PendingRequest sent in \<open>simp add: good_send_def\<close>)
    qed (use reqs in simp)
  next
    case PendingFlush
    have ok': "core_ok queue core fs" using ok PendingFlush by simp
    show ?thesis using PendingFlush q action_good(1) [OF ok' q, of Flush] good_send_wait [OF ok' _ p]
      by (cases rule: send_cases [of q Flush]) (auto simp: flush_writer_def sender_tx_def)
  next
    case (PendingShutdown d)
    have ok': "core_ok queue core fs" using ok PendingShutdown by simp
    have shut: "shutdown_directive d \<noteq> WriteReqMsg b i" for b i by (simp add: shutdown_directive_def)
    show ?thesis
    proof (cases rule: send_cases [of q "shutdown_directive d", case_names full ready])
      case full
      then show ?thesis using PendingShutdown q good_send_wait [OF ok' _ p]
        by (simp add: shutdown_writer_def sender_tx_def)
    next
      case (ready q' r)
      then show ?thesis using PendingShutdown q action_good [OF ok' q ready(1) shut]
        by (cases r) (simp_all add: shutdown_writer_def sender_tx_def)
    qed
  qed
qed

lemma sender_cancel_good:
  assumes ok: "core_ok queue core (pending_future p @ fs)"
  shows "\<exists>core'. sender_cancel core p = Done core' \<and> good_core queue core core' fs"
proof (cases p)
  case (PendingRequest msg resp)
  then show ?thesis using drop_unsent_good [of core resp fs] ok by auto
qed (use ok in \<open>simp_all add: good_core_def\<close>)

text \<open>One round of the writer task.\<close>

lemma handle_directive_good:
  assumes "exit_type st \<noteq> ManualCloseImmediate" and "\<And>b i. m = WriteReqMsg b i \<Longrightarrow> w_ctx st \<noteq> Some None"
  shows "\<exists>st' r. handle_directive wr ops st m = Done (st', r) \<and> queue (rx_directive st') = queue (rx_directive st) \<and>
    exit_type st' \<noteq> ManualCloseImmediate \<and>
    (w_ctx st' = w_ctx st \<or>
     (\<exists>c i. w_ctx st = Some (Some c) \<and> w_ctx st' = Some (Some (set_request_write_failed c i))))"
  using assms close(2)
  by (cases m) (auto simp: Let_def split: prod.split sum.split option.split, blast)

lemma task_detach_good:
  assumes ok: "core_ok queue core fs" and q: "t_tx_deferred core = Some q"
    and sub: "set (queue (rx_directive st)) \<subseteq> set (queue q)"
    and up: "w_ctx st = None \<or> w_ctx st = Some (core_reqs core) \<or>
      (\<exists>c c'. core_reqs core = Some c \<and> w_ctx st = Some (Some c') \<and> (waits c fs \<longrightarrow> waits c' fs))"
  shows "good_core queue core (task_detach ops core st r) fs"
  using ok q sub up close(2)
  by (auto simp: good_core_def core_ok_def task_detach_def split: option.splits task_status.splits)

lemma runner_step_good:
  assumes ok: "core_ok queue core fs" and q: "t_tx_deferred core = Some q"
    and ex: "exit_type st \<noteq> ManualCloseImmediate"
  shows "\<exists>st' r. runner_step wr ops (task_attach core q st) = Done (st', r) \<and>
    good_core queue core (task_detach ops core st' r) fs \<and> exit_type st' \<noteq> ManualCloseImmediate"
proof (cases rule: recv_cases [of q, case_names msg ended waiting])
  case waiting
  then show ?thesis using ex task_detach_good [OF ok q, of "task_attach core q st"]
    by (cases "w_ctx st") (auto simp: runner_step_def task_attach_def)
next
  case ended
  let ?st = "epilogue ops (task_attach core q st)"
  have "good_core queue core (task_detach ops core ?st r) fs" for r
  proof (rule task_detach_good [OF ok q])
    show "set (queue (rx_directive ?st)) \<subseteq> set (queue q)"
      using close(2) by (simp add: epilogue_def task_attach_def split: option.split)
    show "w_ctx ?st = None \<or> w_ctx ?st = Some (core_reqs core) \<or>
      (\<exists>c c'. core_reqs core = Some c \<and> w_ctx ?st = Some (Some c') \<and> (waits c fs \<longrightarrow> waits c' fs))"
      using waits_mark_expired by (cases "w_ctx st"; cases "core_reqs core") (auto simp: task_attach_def)
  qed
  moreover have "exit_type ?st \<noteq> ManualCloseImmediate"
    using ex by (simp add: epilogue_def task_attach_def split: option.split)
  moreover have "after_loop wr ((task_attach core q st)\<lparr>rx_directive := q\<rparr>) =
      (task_attach core q st, Inr (exit_type st))" "rx_directive (task_attach core q st) = q"
    using ex by (simp_all add: after_loop_def task_attach_def)
  ultimately show ?thesis using ended(3) by (simp add: runner_step_def)
next
  case (msg m ms q')
  let ?st = "(task_attach core q st)\<lparr>rx_directive := q'\<rparr>"
  have "\<exists>c. core_reqs core = Some c" if "m = WriteReqMsg b i" for b i
    using ok q msg(1) that by (cases "core_reqs core") (auto simp: core_ok_def)
  then have fine: "m = WriteReqMsg b i \<Longrightarrow> w_ctx ?st \<noteq> Some None" for b i
    by (auto simp: task_attach_def)
  have ex1: "exit_type ?st \<noteq> ManualCloseImmediate" using ex by (simp add: task_attach_def)
  obtain st1 r where h: "handle_directive wr ops ?st m = Done (st1, r)"
      "queue (rx_directive st1) = queue (rx_directive ?st)" "exit_type st1 \<noteq> ManualCloseImmediate"
    and up: "w_ctx st1 = w_ctx ?st \<or>
      (\<exists>c i. w_ctx ?st = Some (Some c) \<and> w_ctx st1 = Some (Some (set_request_write_failed c i)))"
    using handle_directive_good [OF ex1, of m wr] fine by blast
  have sub: "set (queue (rx_directive st1)) \<subseteq> set (queue q)" using h(2) msg(1,3) by auto
  have up1: "w_ctx st1 = None \<or> w_ctx st1 = Some (core_reqs core) \<or>
      (\<exists>c c'. core_reqs core = Some c \<and> w_ctx st1 = Some (Some c') \<and> (waits c fs \<longrightarrow> waits c' fs))"
    using up waits_write_failed by (cases "w_ctx st") (auto simp: task_attach_def)
  have exits: "exit_type (epilogue ops st1) \<noteq> ManualCloseImmediate"
    using h(3) by (simp add: epilogue_def split: option.split)
  have "good_core queue core (task_detach ops core (epilogue ops st1) r') fs" for r'
  proof (rule task_detach_good [OF ok q])
    show "set (queue (rx_directive (epilogue ops st1))) \<subseteq> set (queue q)"
      using sub close(2) by (simp add: epilogue_def split: option.split)
    show "w_ctx (epilogue ops st1) = None \<or> w_ctx (epilogue ops st1) = Some (core_reqs core) \<or>
      (\<exists>c c'. core_reqs core = Some c \<and> w_ctx (epilogue ops st1) = Some (Some c') \<and> (waits c fs \<longrightarrow> waits c' fs))"
      using up1 by (elim disjE; cases "core_reqs core") (auto intro: waits_mark_expired)
  qed
  moreover have "good_core queue core (task_detach ops core st1 None) fs"
    by (rule task_detach_good [OF ok q sub up1])
  moreover have rx: "rx_directive (task_attach core q st) = q" by (simp add: task_attach_def)
  ultimately show ?thesis using msg(2) h exits
    by (cases r) (simp_all add: runner_step_def)
qed

subsection \<open>Every event keeps the invariant and none panics\<close>

definition sender_session_ok :: "('p, 'd, 'q, 'u, 'g, 'w) sender_session \<Rightarrow> bool" where
  "sender_session_ok s \<longleftrightarrow>
     core_ok queue (ss_core s) (ss_futures s @ pending_futures (ss_pending s)) \<and>
     (\<forall>p \<in> set (ss_pending s). pending_ok p) \<and> exit_type (ss_task s) \<noteq> ManualCloseImmediate"

lemma mset_remove_nth: "n < length xs \<Longrightarrow> mset xs = add_mset (xs ! n) (mset (remove_nth n xs))"
  by (induction n xs rule: remove_nth.induct) simp_all

lemma mset_pending_remove_nth:
  assumes "n < length ps"
  shows "mset (pending_futures ps) = mset (pending_future (ps ! n)) + mset (pending_futures (remove_nth n ps))"
  using assms by (induction n ps rule: remove_nth.induct) (simp_all add: ac_simps)

lemma set_remove_nth: "set (remove_nth n xs) \<subseteq> set xs"
  by (induction n xs rule: remove_nth.induct) auto

lemma session_future_good:
  assumes inv: "sender_session_ok s"
    and f: "\<And>core c rr fs. waits c (rr # fs) \<Longrightarrow> \<exists>c' kept. f core c rr = Done (c', kept) \<and> waits c' (kept @ fs)"
  shows "\<exists>s'. session_future f n s = Done s' \<and> sender_session_ok s'"
proof (cases "n < length (ss_futures s)")
  case n: True
  let ?rest = "remove_nth n (ss_futures s) @ pending_futures (ss_pending s)"
  have ok: "core_ok queue (ss_core s) (ss_futures s ! n # ?rest)"
    using inv core_ok_cong [of queue "ss_core s" "ss_futures s @ pending_futures (ss_pending s)"
        "ss_futures s ! n # ?rest"] mset_remove_nth [OF n]
    by (simp add: sender_session_ok_def)
  then obtain c where c: "core_reqs (ss_core s) = Some c" "waits c (ss_futures s ! n # ?rest)"
    by (auto simp: core_ok_def split: option.split_asm)
  obtain c' kept where r: "f (ss_core s) c (ss_futures s ! n) = Done (c', kept)" "waits c' (kept @ ?rest)"
    using f [OF c(2)] by blast
  have "core_ok queue ((ss_core s)\<lparr>core_reqs := Some c'\<rparr>) (kept @ ?rest)"
    using ok r(2) by (auto simp: core_ok_def)
  then have "core_ok queue ((ss_core s)\<lparr>core_reqs := Some c'\<rparr>)
      ((remove_nth n (ss_futures s) @ kept) @ pending_futures (ss_pending s))"
    by (rule core_ok_cong) simp
  then show ?thesis using n c(1) r(1) inv
    by (simp add: session_future_def sender_reqs_def sender_session_ok_def)
qed (use inv in \<open>simp add: session_future_def\<close>)

lemma handle_response_good:
  assumes "core_ok queue core fs"
  shows "core_ok queue (fst (handle_response core frame i errc payload)) fs"
proof (cases "core_reqs core")
  case None
  then show ?thesis using assms by (simp add: handle_response_def)
next
  case (Some c)
  obtain c' r where "set_response c i frame payload errc = (c', r)" by fastforce
  moreover from this have "waits c' fs"
    using waits_set_response [of c fs i frame payload errc] assms Some by (simp add: core_ok_def)
  ultimately show ?thesis using assms Some
    by (cases r) (simp_all add: handle_response_def core_ok_def)
qed

lemma sent_ok:
  assumes inv: "sender_session_ok s"
    and pend: "mset (pending_futures ps) \<subseteq># mset (pending_futures (ss_pending s))" "set ps \<subseteq> set (ss_pending s)"
    and good: "good_send (ss_core s) (ss_futures s @ pending_futures ps) core' new susp"
  shows "sender_session_ok (s\<lparr>ss_core := core', ss_gen := g, ss_futures := ss_futures s @ new, ss_pending := ps @ susp\<rparr>)"
proof -
  have "core_ok queue core' (new @ pending_futures susp @ ss_futures s @ pending_futures ps)"
    using good by (simp add: good_send_def good_core_def)
  then have "core_ok queue core' ((ss_futures s @ new) @ pending_futures (ps @ susp))"
    by (rule core_ok_cong) (simp add: ac_simps)
  then show ?thesis using inv pend(2) good by (auto simp: sender_session_ok_def good_send_def)
qed

lemma session_event_good:
  assumes inv: "sender_session_ok s"
  shows "\<exists>s'. session_event wr ops rnd s e = Done s' \<and> sender_session_ok s'"
proof -
  have ok: "core_ok queue (ss_core s) (ss_futures s @ pending_futures (ss_pending s))"
    and pend: "\<And>p. p \<in> set (ss_pending s) \<Longrightarrow> pending_ok p"
    using inv by (simp_all add: sender_session_ok_def)
  show ?thesis
  proof (cases e)
    case (TrySend x)
    then show ?thesis
      using sender_step_good [OF ok, of rnd "ss_gen s" x] sent_ok [OF inv, of "ss_pending s"] by auto
  next
    case (AwaitSend x)
    then show ?thesis
      using sender_await_good [OF ok, of rnd "ss_gen s" x] sent_ok [OF inv, of "ss_pending s"] by auto
  next
    case (ResumeSend n)
    show ?thesis
    proof (cases "n < length (ss_pending s)")
      case n: True
      let ?ps = "remove_nth n (ss_pending s)"
      have "core_ok queue (ss_core s) (pending_future (ss_pending s ! n) @ ss_futures s @ pending_futures ?ps)"
        by (rule core_ok_cong [OF ok]) (simp add: mset_pending_remove_nth [OF n] ac_simps)
      then obtain core' new susp where r: "sender_resume ops (ss_core s) (ss_pending s ! n) = Done (core', new, susp)"
        "good_send (ss_core s) (ss_futures s @ pending_futures ?ps) core' new susp"
        using sender_resume_good pend [OF nth_mem [OF n]] by blast
      have "sender_session_ok (s\<lparr>ss_core := core', ss_gen := ss_gen s, ss_futures := ss_futures s @ new, ss_pending := ?ps @ susp\<rparr>)"
        by (rule sent_ok [OF inv _ set_remove_nth r(2)]) (simp add: mset_pending_remove_nth [OF n])
      then show ?thesis using ResumeSend n r(1) by simp
    qed (use ResumeSend inv in simp)
  next
    case (CancelSend n)
    show ?thesis
    proof (cases "n < length (ss_pending s)")
      case n: True
      let ?ps = "remove_nth n (ss_pending s)"
      have "core_ok queue (ss_core s) (pending_future (ss_pending s ! n) @ ss_futures s @ pending_futures ?ps)"
        by (rule core_ok_cong [OF ok]) (simp add: mset_pending_remove_nth [OF n] ac_simps)
      then obtain core' where r: "sender_cancel (ss_core s) (ss_pending s ! n) = Done core'"
        "good_core queue (ss_core s) core' (ss_futures s @ pending_futures ?ps)"
        using sender_cancel_good by blast
      then show ?thesis using CancelSend n inv set_remove_nth [of n "ss_pending s"]
        by (auto simp: sender_session_ok_def good_core_def)
    qed (use CancelSend inv in simp)
  next
    case (PollResponse n t)
    then show ?thesis using session_future_good [OF inv, of _ n] waits_poll by fastforce
  next
    case (TryRecvResponse n)
    then show ?thesis using session_future_good [OF inv, of _ n] waits_try_recv by fastforce
  next
    case (DropResponse n)
    have "\<exists>c' kept. obind (rr_drop c rr) (\<lambda>c'. Done (c', [])) = Done (c', kept) \<and> waits c' (kept @ fs)"
      if "waits c (rr # fs)" for c rr and fs :: "receive_response list"
      using waits_drop [OF that] by auto
    then show ?thesis using DropResponse session_future_good [OF inv, of _ n] by simp
  next
    case (ResponseFrame frame i errc payload)
    then show ?thesis using inv handle_response_good [OF ok] by (simp add: sender_session_ok_def)
  next
    case WriterRound
    obtain q where q: "t_tx_deferred (ss_core s) = Some q" using core_ok_channel [OF ok] by blast
    have ex: "exit_type (ss_task s) \<noteq> ManualCloseImmediate" using inv by (simp add: sender_session_ok_def)
    obtain st' r where "runner_step wr ops (task_attach (ss_core s) q (ss_task s)) = Done (st', r)"
      "good_core queue (ss_core s) (task_detach ops (ss_core s) st' r) (ss_futures s @ pending_futures (ss_pending s))"
      "exit_type st' \<noteq> ManualCloseImmediate"
      using runner_step_good [OF ok q ex] by blast
    then show ?thesis using WriterRound q inv
      by (auto simp: sender_session_ok_def good_core_def split: task_status.split)
  qed
qed

lemma session_events_good:
  "sender_session_ok s \<Longrightarrow> \<exists>s'. session_events wr ops rnd s es = Done s' \<and> sender_session_ok s'"
proof (induction es arbitrary: s)
  case Nil
  then show ?case by simp
next
  case (Cons e es)
  obtain s1 where "session_event wr ops rnd s e = Done s1" "sender_session_ok s1"
    using session_event_good [OF Cons.prems] by blast
  then show ?case using Cons.IH [of s1] by simp
qed

end

interpretation writer_channel: directive_channel fifo_ops fifo_items fifo_closed fifo_cap
  by unfold_locales

subsection \<open>No panic, no undefined behaviour\<close>

text \<open>The writer task panics only on a request directive in a connection without requests.\<close>

lemma deliver_done:
  "up \<noteq> Some None \<or> (\<forall>b i. WriteReqMsg b i \<notin> set ds) \<Longrightarrow> is_done (deliver wr cl w up ex ds)"
  by (induction wr cl w up ex ds rule: deliver.induct)
    (auto split: prod.splits sum.splits option.splits)

lemma write_runner_done:
  assumes "mpsc_channel ops queue closed capacity" and "exit_type st \<noteq> ManualCloseImmediate"
    and "length (queue (rx_directive st)) < n"
    and "w_ctx st \<noteq> Some None \<or> (\<forall>b i. WriteReqMsg b i \<notin> set (queue (rx_directive st)))"
  shows "\<exists>st' r. write_runner n wr ops st = Some (Done (st', r))"
proof -
  obtain out where run: "runner_loop n wr ops st = Some out"
    and abs: "map_outcome abs_run out = deliver wr (closed (rx_directive st)) (writer st) (w_ctx st)
      (exit_type st) (queue (rx_directive st))"
    using runner_loop_refines [OF assms(1) refl assms(2,3), of wr] by blast
  have "is_done (map_outcome abs_run out)" unfolding abs by (rule deliver_done [OF assms(4)])
  then obtain st' r where "out = Done (st', r)" by (cases out) auto
  then show ?thesis using run by (cases r) (auto simp: write_runner_def)
qed

lemma core_ok_build_core:
  "(\<And>cap. queue (mk cap) = []) \<Longrightarrow> core_ok queue (build_core mk b (Some request_context_new)) []"
  "(\<And>cap. queue (mk cap) = []) \<Longrightarrow> core_ok queue (build_core mk b None) []"
  by (simp_all add: core_ok_def build_core_def make_write_channel_def waits_iff table_ok_def request_context_new_def)

definition connection_start ::
  "(nat option \<Rightarrow> 'q) \<Rightarrow> ('w, 'r, 'u, ('p, 'd) codec) builder \<Rightarrow> 'g
   \<Rightarrow> ('p, 'd, 'q, 'u, 'g, 'w) sender_session set" where
  "connection_start mk b g =
     (\<lambda>(core, _, task). session_start core g task) ` {build_client mk b, build_server mk b True, build_server mk b False} \<union>
     (\<lambda>(core, task). session_start core g task) ` {build_write_only mk b}"

lemma connection_start_ok:
  assumes "directive_channel ops queue closed capacity" and "\<And>cap. queue (mk cap) = []"
    and "s \<in> connection_start mk b g"
  shows "directive_channel.sender_session_ok queue s"
  using assms(3) core_ok_build_core [of queue mk b, OF assms(2)]
  by (auto simp: directive_channel.sender_session_ok_def [OF assms(1)] connection_start_def session_start_def
      build_client_def build_server_def build_write_only_def runner_new_def Let_def)

text \<open>C3: No use of a connection's sender handles panics. Take a client, a server with or without
  requests, or a write-only connection, and any order of: notifications, requests, bursts,
  flushes and shutdowns, each tried at once or awaited; later polls of the sends that a full
  channel suspends, and their cancellation; polls, \<open>try_recv\<close>s and drops of the futures that
  requests return, while a handle is held; response frames that arrive; and rounds of the
  writer task. Whatever the codec, the identifier generator, the channel and the transport
  do, every step returns, the request table holds exactly the entries of the futures that
  still wait, those of suspended requests included, and the writer task runs through the
  frames that are left without panicking.\<close>

theorem connection_never_panics:
  assumes "mpsc_channel ops queue closed capacity" and "\<And>cap. queue (mk cap) = []"
    and "s0 \<in> connection_start mk b g"
  shows "\<exists>s q. session_events wr ops rnd s0 es = Done s \<and> t_tx_deferred (ss_core s) = Some q \<and>
    (\<forall>c. core_reqs (ss_core s) = Some c \<longrightarrow>
       mset (live (ss_futures s @ pending_futures (ss_pending s))) = mset (wait_list c)) \<and>
    (\<forall>n. length (queue q) < n \<longrightarrow>
       (\<exists>st r. write_runner n wr ops (task_attach (ss_core s) q (ss_task s)) = Some (Done (st, r))))"
proof -
  have chan: "directive_channel ops queue closed capacity" using assms(1) by (rule directive_channel.intro)
  obtain s where run: "session_events wr ops rnd s0 es = Done s"
    and inv: "directive_channel.sender_session_ok queue s"
    using directive_channel.session_events_good [OF chan] connection_start_ok [OF chan assms(2,3)] by blast
  then have ok: "core_ok queue (ss_core s) (ss_futures s @ pending_futures (ss_pending s))"
    and ex: "exit_type (ss_task s) \<noteq> ManualCloseImmediate"
    by (simp_all add: directive_channel.sender_session_ok_def [OF chan])
  obtain q where q: "t_tx_deferred (ss_core s) = Some q"
    "core_reqs (ss_core s) = None \<longrightarrow> (\<forall>b i. WriteReqMsg b i \<notin> set (queue q))"
    using ok by (auto simp: core_ok_def split: option.splits)
  have "\<exists>st r. write_runner n wr ops (task_attach (ss_core s) q (ss_task s)) = Some (Done (st, r))"
    if "length (queue q) < n" for n
    using write_runner_done [OF assms(1), of "task_attach (ss_core s) q (ss_task s)" n wr] ex q(2) that
    by (auto simp: task_attach_def)
  moreover have "mset (live (ss_futures s @ pending_futures (ss_pending s))) = mset (wait_list c)"
    if "core_reqs (ss_core s) = Some c" for c
    using ok that by (simp add: core_ok_def waits_iff)
  ultimately show ?thesis using run q(1) by blast
qed

text \<open>
  A client whose channel holds one directive: the second request is suspended, the writer
  makes room, and the request is resumed, answered and polled.
\<close>

definition events_one :: "bytes sender_event list" where
  "events_one =
     [TrySend (OpNotify [1] [2]), AwaitSend (OpRequest [1] [2]), TrySend OpFlush, WriterRound, ResumeSend 0,
      PollResponse 0 4, ResponseFrame [9] (RequestId 1) None (RangeType 0 1), PollResponse 0 4,
      AwaitSend (OpShutdown False)]"

definition session_one_slot :: "(bytes, bytes, writer_directive fifo, unit, u64, bytes list) sender_session" where
  "session_one_slot =
     (case build_client fifo_new (with_outbound_queue_capacity 1
        (with_frame_writer [] (with_codec plain_codec builder_new))) of
      (core, _, task) \<Rightarrow> session_start core 1 task)"

theorem connection_never_panics_witness:
  "\<exists>s q. session_events log_writer fifo_ops count_up session_one_slot events_one = Done s \<and>
    t_tx_deferred (ss_core s) = Some q \<and>
    (\<exists>st r. write_runner (Suc (length (fifo_items q))) log_writer fifo_ops
       (task_attach (ss_core s) q (ss_task s)) = Some (Done (st, r)))"
proof -
  have "session_one_slot \<in> connection_start fifo_new (with_outbound_queue_capacity 1
      (with_frame_writer [] (with_codec plain_codec builder_new))) 1"
    by (simp add: connection_start_def session_one_slot_def)
  from connection_never_panics [OF fifo.mpsc_channel_axioms _ this, of log_writer count_up events_one]
  show ?thesis by (fastforce simp: fifo_new_def)
qed

text \<open>The same session, evaluated: the request was suspended, sent and completed.\<close>

lemma session_one_slot_end:
  "map_outcome (\<lambda>s. (ss_futures s, ss_pending s, writer (ss_task s), map_option fifo_items (t_tx_deferred (ss_core s))))
     (session_events log_writer fifo_ops count_up session_one_slot events_one) =
   Done ([\<lparr>rr_state = None\<rparr>], [PendingShutdown False], [[1, 2]],
     Some [WriteReqMsg [1, 0, 0, 0, 0, 0, 0, 0, 1, 2] (RequestId 1)])"
  by code_simp

end
