(* ===== verification/Handles.thy ===== *)
theory Handles
  imports Sender_Session
begin

text \<open>
  Who keeps a connection alive. All handles share the core of \<open>src/rpc/core.rs\<close> by reference
  counting: the senders of \<open>src/rpc/sender.rs\<close>, the receiver and the inbound messages of
  \<open>src/rpc/receiver.rs\<close>, futures that own their sender, and the tasks while they hold an upgraded
  reference. Weak handles and suspended tasks do not count. Dropping the last owner drops
  the core, which wakes the read task and closes the channel to the writer task. The lemmas
  show that the count is right whatever the users and the tasks do, and that a connection
  nobody holds any more winds down.
\<close>

subsection \<open>The shared core\<close>

text \<open>
  What owns a strong reference. \<open>TaskGuard\<close> is the reference the writer task upgrades to for a
  request frame and at its end.
\<close>

datatype owner =
  NotifyHandle
| RequestHandle
| ReceiverHandle
| InboundHandle inbound_inner
| FutureHandle receive_response
| TaskGuard

datatype weak_handle = WeakNotify | WeakRequest

text \<open>
  Where the read task of \<open>into_weak_runner_task\<close> is: not polled yet, which still owns the
  receiver; about to poll the signal branch; in it, with an upgraded reference; registered and
  about to drop that reference; suspended; handling a frame, with a reference, after the
  signal branch was polled or before; returned; dropped by its owner.
\<close>

datatype read_phase =
  NoReadTask
| ReadUnpolled
| ReadRunnable
| ReadUpgraded
| ReadRegistered
| ReadParked
| ReadHandling bool
| ReadReturned "io_error + read_runner_exit"
| ReadCancelled

record ('p, 'd, 'q, 'u) conn =
  strong :: nat
  arc_core :: "('p, 'd, 'q, 'u) rpc_core option"
  handles :: "owner list"
  weaks :: "weak_handle list"
  read_phase :: read_phase
  woken_tasks :: "task list"
  freed_channel :: "'q option"

definition conn_new ::
  "('p, 'd, 'q, 'u) rpc_core \<Rightarrow> owner \<Rightarrow> bool \<Rightarrow> ('p, 'd, 'q, 'u) conn" where
  "conn_new core h read =
     \<lparr>strong = if read then 2 else 1, arc_core = Some core, handles = [h], weaks = [],
      read_phase = if read then ReadUnpolled else NoReadTask, woken_tasks = [], freed_channel = None\<rparr>"

text \<open>\<open>Arc::clone\<close>, \<open>Weak::upgrade\<close>, and the drop of an \<open>Arc\<close>.\<close>

definition acquire :: "('p, 'd, 'q, 'u) conn \<Rightarrow> ('p, 'd, 'q, 'u) conn" where
  "acquire s = s\<lparr>strong := strong s + 1\<rparr>"

definition arc_upgrade :: "('p, 'd, 'q, 'u) conn \<Rightarrow> ('p, 'd, 'q, 'u) conn option" where
  "arc_upgrade s = (if strong s = 0 then None else Some (acquire s))"

text \<open>The drop of the core wakes first; then its fields go, among them the sender of the channel.\<close>

definition release ::
  "('q, writer_directive) chan_ops \<Rightarrow> ('p, 'd, 'q, 'u) conn \<Rightarrow> ('p, 'd, 'q, 'u) conn" where
  "release ops s =
     (case arc_core s of
        Some core \<Rightarrow>
          (if strong s = 1 then
             s\<lparr>strong := 0, arc_core := None, woken_tasks := rpc_core_drop core @ woken_tasks s,
               freed_channel := map_option (ch_close ops) (t_tx_deferred core)\<rparr>
           else s\<lparr>strong := strong s - 1\<rparr>)
      | None \<Rightarrow> s)"

text \<open>An operation on the shared core.\<close>

definition with_core ::
  "(('p, 'd, 'q, 'u) rpc_core \<Rightarrow> ('p, 'd, 'q, 'u) rpc_core outcome) \<Rightarrow> ('p, 'd, 'q, 'u) conn
   \<Rightarrow> ('p, 'd, 'q, 'u) conn outcome" where
  "with_core f s =
     (case arc_core s of
        None \<Rightarrow> Undef
      | Some core \<Rightarrow> obind (f core) (\<lambda>core'. Done (s\<lparr>arc_core := Some core'\<rparr>)))"

text \<open>An operation on the core by one of its owners, which it leaves changed.\<close>

definition with_owner ::
  "owner \<Rightarrow> (('p, 'd, 'q, 'u) rpc_core \<Rightarrow> (('p, 'd, 'q, 'u) rpc_core \<times> owner) outcome) \<Rightarrow> ('p, 'd, 'q, 'u) conn
   \<Rightarrow> ('p, 'd, 'q, 'u) conn outcome" where
  "with_owner h f s =
     (case arc_core s of
        None \<Rightarrow> Undef
      | Some core \<Rightarrow> obind (f core) (\<lambda>(core', h').
          Done (s\<lparr>arc_core := Some core', handles := h' # remove1 h (handles s)\<rparr>)))"

subsection \<open>Handles\<close>

definition notify_clone :: "('p, 'd, 'q, 'u) conn \<Rightarrow> ('p, 'd, 'q, 'u) conn" where
  "notify_clone s = (acquire s)\<lparr>handles := NotifyHandle # handles s\<rparr>"

definition request_clone :: "('p, 'd, 'q, 'u) conn \<Rightarrow> ('p, 'd, 'q, 'u) conn" where
  "request_clone s = (acquire s)\<lparr>handles := RequestHandle # handles s\<rparr>"

definition notify_downgrade :: "('p, 'd, 'q, 'u) conn \<Rightarrow> ('p, 'd, 'q, 'u) conn" where
  "notify_downgrade s = s\<lparr>weaks := WeakNotify # weaks s\<rparr>"

definition request_downgrade :: "('p, 'd, 'q, 'u) conn \<Rightarrow> ('p, 'd, 'q, 'u) conn" where
  "request_downgrade s = s\<lparr>weaks := WeakRequest # weaks s\<rparr>"

definition weak_clone :: "weak_handle \<Rightarrow> ('p, 'd, 'q, 'u) conn \<Rightarrow> ('p, 'd, 'q, 'u) conn" where
  "weak_clone w s = s\<lparr>weaks := w # weaks s\<rparr>"

definition notify_upgrade :: "('p, 'd, 'q, 'u) conn \<Rightarrow> ('p, 'd, 'q, 'u) conn option" where
  "notify_upgrade s = map_option (\<lambda>s'. s'\<lparr>handles := NotifyHandle # handles s'\<rparr>) (arc_upgrade s)"

definition request_upgrade :: "('p, 'd, 'q, 'u) conn \<Rightarrow> ('p, 'd, 'q, 'u) conn option" where
  "request_upgrade s = map_option (\<lambda>s'. s'\<lparr>handles := RequestHandle # handles s'\<rparr>) (arc_upgrade s)"

definition into_request_sender :: "('p, 'd, 'q, 'u) conn \<Rightarrow> ('p, 'd, 'q, 'u) conn outcome" where
  "into_request_sender s =
     (case arc_core s of
        None \<Rightarrow> Undef
      | Some core \<Rightarrow>
          (case try_into_request_sender core of
             Inl _ \<Rightarrow> Done s
           | Inr _ \<Rightarrow> Done (s\<lparr>handles := RequestHandle # remove1 NotifyHandle (handles s)\<rparr>)))"

text \<open>\<open>Receiver::create_notify_sender\<close> and \<open>Inbound::create_sender_handle\<close> clone the reference.\<close>

definition receiver_notify_sender :: "('p, 'd, 'q, 'u) conn \<Rightarrow> ('p, 'd, 'q, 'u) conn" where
  "receiver_notify_sender s = (acquire s)\<lparr>handles := NotifyHandle # handles s\<rparr>"

definition inbound_sender_handle :: "('p, 'd, 'q, 'u) conn \<Rightarrow> ('p, 'd, 'q, 'u) conn" where
  "inbound_sender_handle s = (acquire s)\<lparr>handles := NotifyHandle # handles s\<rparr>"

definition future_into_owned :: "receive_response \<Rightarrow> ('p, 'd, 'q, 'u) conn \<Rightarrow> ('p, 'd, 'q, 'u) conn" where
  "future_into_owned r s = (acquire s)\<lparr>handles := FutureHandle r # handles s\<rparr>"

text \<open>What the drop of an owner does before its reference goes.\<close>

fun drop_guard ::
  "('q, writer_directive) chan_ops \<Rightarrow> owner \<Rightarrow> ('p, 'd, 'q, 'u) rpc_core \<Rightarrow> ('p, 'd, 'q, 'u) rpc_core outcome" where
  "drop_guard ops ReceiverHandle core = Done (core\<lparr>core_reqs := map_option mark_expired (core_reqs core)\<rparr>)"
| "drop_guard ops (InboundHandle ib) core = inbound_drop ops core ib"
| "drop_guard ops (FutureHandle r) core = drop_unsent core r"
| "drop_guard ops _ core = Done core"

definition drop_owner ::
  "('q, writer_directive) chan_ops \<Rightarrow> owner \<Rightarrow> ('p, 'd, 'q, 'u) conn \<Rightarrow> ('p, 'd, 'q, 'u) conn outcome" where
  "drop_owner ops h s =
     obind (with_core (drop_guard ops h) s) (\<lambda>s'. Done (release ops (s'\<lparr>handles := remove1 h (handles s')\<rparr>)))"

text \<open>A frame is handled on the core; a message it holds owns a new reference.\<close>

definition deliver_frame :: "bytes \<Rightarrow> ('p, 'd, 'q, 'u) conn \<Rightarrow> ('p, 'd, 'q, 'u) conn outcome" where
  "deliver_frame frame s =
     (case arc_core s of
        None \<Rightarrow> Undef
      | Some core \<Rightarrow>
          obind (handle_inbound_once core frame []) (\<lambda>(core', _, r).
            Done (case r of
                Inr (Some ib) \<Rightarrow> (acquire s)\<lparr>arc_core := Some core', handles := InboundHandle ib # handles s\<rparr>
              | _ \<Rightarrow> s\<lparr>arc_core := Some core'\<rparr>)))"

text \<open>
  What the holder of a message does with it: answering, dropping the request silently, and
  splitting a part off, which owns a reference of its own.
\<close>

definition inbound_respond ::
  "('q, writer_directive) chan_ops \<Rightarrow> inbound_inner \<Rightarrow> 'p response_payload \<Rightarrow> ('p, 'd, 'q, 'u) conn
   \<Rightarrow> ('p, 'd, 'q, 'u) conn outcome" where
  "inbound_respond ops ib result =
     with_owner (InboundHandle ib) (\<lambda>core.
       obind (try_response ops core ib [] result) (\<lambda>(core', ib', _). Done (core', InboundHandle ib')))"

definition inbound_drop_request :: "inbound_inner \<Rightarrow> ('p, 'd, 'q, 'u) conn \<Rightarrow> ('p, 'd, 'q, 'u) conn outcome" where
  "inbound_drop_request ib = with_owner (InboundHandle ib) (\<lambda>core. Done (core, InboundHandle (drop_request ib)))"

definition inbound_split ::
  "inbound_inner \<Rightarrow> inbound_inner \<times> inbound_inner \<Rightarrow> ('p, 'd, 'q, 'u) conn \<Rightarrow> ('p, 'd, 'q, 'u) conn outcome" where
  "inbound_split ib parts s =
     obind (with_owner (InboundHandle ib) (\<lambda>core. Done (core, InboundHandle (fst parts))) s) (\<lambda>s'.
       Done ((acquire s')\<lparr>handles := InboundHandle (snd parts) # handles s'\<rparr>))"

text \<open>Polling a future that owns its sender.\<close>

definition owned_future_poll ::
  "task \<Rightarrow> receive_response \<Rightarrow> ('p, 'd, 'q, 'u) conn \<Rightarrow> ('p, 'd, 'q, 'u) conn outcome" where
  "owned_future_poll u r =
     with_owner (FutureHandle r) (\<lambda>core.
       obind (sender_reqs core) (\<lambda>c.
       obind (rr_poll (core_codec core) u c r) (\<lambda>(c', r', _).
         Done (core\<lparr>core_reqs := Some c'\<rparr>, FutureHandle r'))))"

definition owned_future_try_recv ::
  "receive_response \<Rightarrow> ('p, 'd, 'q, 'u) conn \<Rightarrow> ('p, 'd, 'q, 'u) conn outcome" where
  "owned_future_try_recv r =
     with_owner (FutureHandle r) (\<lambda>core.
       obind (sender_reqs core) (\<lambda>c.
       obind (rr_try_recv (core_codec core) c r) (\<lambda>(c', r', _).
         Done (core\<lparr>core_reqs := Some c'\<rparr>, FutureHandle r'))))"

text \<open>Polling and dropping a future that borrows its sender.\<close>

definition borrowed_poll :: "task \<Rightarrow> receive_response \<Rightarrow> ('p, 'd, 'q, 'u) rpc_core \<Rightarrow> ('p, 'd, 'q, 'u) rpc_core outcome" where
  "borrowed_poll u r core =
     obind (sender_reqs core) (\<lambda>c.
     obind (rr_poll (core_codec core) u c r) (\<lambda>(c', _). Done (core\<lparr>core_reqs := Some c'\<rparr>)))"

definition borrowed_try_recv :: "receive_response \<Rightarrow> ('p, 'd, 'q, 'u) rpc_core \<Rightarrow> ('p, 'd, 'q, 'u) rpc_core outcome" where
  "borrowed_try_recv r core =
     obind (sender_reqs core) (\<lambda>c.
     obind (rr_try_recv (core_codec core) c r) (\<lambda>(c', _). Done (core\<lparr>core_reqs := Some c'\<rparr>)))"

text \<open>The asynchronous response: its first poll, and a later one with the frame in hand.\<close>

definition inbound_respond_await ::
  "('q, writer_directive) chan_ops \<Rightarrow> inbound_inner \<Rightarrow> 'p response_payload \<Rightarrow> ('p, 'd, 'q, 'u) conn
   \<Rightarrow> ('p, 'd, 'q, 'u) conn outcome" where
  "inbound_respond_await ops ib result =
     with_owner (InboundHandle ib) (\<lambda>core.
       obind (respond ops core ib [] result) (\<lambda>(core', ib', _). Done (core', InboundHandle ib')))"

definition respond_resume ::
  "('q, writer_directive) chan_ops \<Rightarrow> bytes \<Rightarrow> ('p, 'd, 'q, 'u) rpc_core \<Rightarrow> ('p, 'd, 'q, 'u) rpc_core outcome" where
  "respond_resume ops frame core =
     Done (case t_tx_deferred core of
         None \<Rightarrow> core
       | Some q \<Rightarrow> (case ch_send ops q (WriteMsg frame) of
             Pending \<Rightarrow> core | Ready_now (q', _) \<Rightarrow> core\<lparr>t_tx_deferred := Some q'\<rparr>))"

subsection \<open>The read task\<close>

text \<open>The first poll turns the receiver's reference into a weak one.\<close>

definition read_first_poll ::
  "('q, writer_directive) chan_ops \<Rightarrow> ('p, 'd, 'q, 'u) conn \<Rightarrow> ('p, 'd, 'q, 'u) conn" where
  "read_first_poll ops s = release ops (s\<lparr>read_phase := ReadRunnable\<rparr>)"

text \<open>
  The signal branch in its three steps: upgrade, register, drop the reference. A poll starts
  with the pending wake-up consumed.
\<close>

definition signal_upgrade :: "task \<Rightarrow> ('p, 'd, 'q, 'u) conn \<Rightarrow> ('p, 'd, 'q, 'u) conn" where
  "signal_upgrade t s =
     (let s1 = s\<lparr>woken_tasks := removeAll t (woken_tasks s)\<rparr> in
      case arc_upgrade s1 of
        None \<Rightarrow> s1\<lparr>read_phase := ReadReturned (Inr ReadAllHandleDropped)\<rparr>
      | Some s2 \<Rightarrow> s2\<lparr>read_phase := ReadUpgraded\<rparr>)"

definition signal_register :: "task \<Rightarrow> ('p, 'd, 'q, 'u) conn \<Rightarrow> ('p, 'd, 'q, 'u) conn outcome" where
  "signal_register t s =
     with_core (\<lambda>core. Done (register_wake_on_drop t core)) (s\<lparr>read_phase := ReadRegistered\<rparr>)"

definition signal_pending ::
  "('q, writer_directive) chan_ops \<Rightarrow> ('p, 'd, 'q, 'u) conn \<Rightarrow> ('p, 'd, 'q, 'u) conn" where
  "signal_pending ops s = release ops (s\<lparr>read_phase := ReadParked\<rparr>)"

text \<open>The receive branch on one result of \<open>next\<close>, and the end of the loop body.\<close>

definition read_next ::
  "read_result \<Rightarrow> ('p, 'd, 'q, 'u) conn \<Rightarrow> ('p, 'd, 'q, 'u) conn outcome" where
  "read_next x s =
     (case x of
        Inl e \<Rightarrow> Done (s\<lparr>read_phase := ReadReturned (Inl e)\<rparr>)
      | Inr None \<Rightarrow> Done (s\<lparr>read_phase := ReadReturned (Inr ReadEof)\<rparr>)
      | Inr (Some frame) \<Rightarrow>
          (case arc_upgrade s of
             None \<Rightarrow> Done (s\<lparr>read_phase := ReadReturned (Inr ReadAllHandleDropped)\<rparr>)
           | Some s1 \<Rightarrow> deliver_frame frame (s1\<lparr>read_phase := ReadHandling (read_phase s = ReadParked)\<rparr>)))"

definition read_frame_done ::
  "('q, writer_directive) chan_ops \<Rightarrow> bool \<Rightarrow> ('p, 'd, 'q, 'u) conn \<Rightarrow> ('p, 'd, 'q, 'u) conn" where
  "read_frame_done ops signalled s =
     release ops (s\<lparr>read_phase := if signalled then ReadParked else ReadRunnable\<rparr>)"

subsection \<open>The life of a connection\<close>

datatype ('g, 'p) conn_op =
  CloneNotify
| CloneRequest
| IntoRequest
| DowngradeNotify
| DowngradeRequest
| CloneWeak weak_handle
| DropWeak weak_handle
| UpgradeNotify
| UpgradeRequest
| ReceiverSender
| InboundSender
| IntoOwned receive_response
| DropOwner owner
| Respond inbound_inner "'p response_payload"
| DropRequest inbound_inner
| TakeMessage inbound_inner
| CloneMessage inbound_inner bool
| PollFuture task receive_response
| TryRecvFuture receive_response
| PollBorrowed task receive_response
| TryRecvBorrowed receive_response
| DropBorrowed receive_response
| Send 'g "'p sender_op"
| SendAwait 'g "'p sender_op"
| SendResume pending_send
| SendCancel pending_send
| RespondAwait inbound_inner "'p response_payload"
| RespondResume bytes
| Recv bytes
| TaskUpgrade
| IntoWeakRunner
| ReadPoll
| ReadNext read_result
| ReadCancel

text \<open>
  \<open>None\<close> is an operation the program cannot call: the handle does not exist or the task is not
  at that point. \<open>Send\<close> carries the state of the identifier generator.
\<close>

definition guarded :: "bool \<Rightarrow> 'a \<Rightarrow> 'a option" where
  "guarded b x = (if b then Some x else None)"

definition has_notify :: "('p, 'd, 'q, 'u) conn \<Rightarrow> bool" where
  "has_notify s \<longleftrightarrow> NotifyHandle \<in> set (handles s) \<or> RequestHandle \<in> set (handles s)"

fun is_inbound :: "owner \<Rightarrow> bool" where
  "is_inbound (InboundHandle ib) = True"
| "is_inbound _ = False"

fun is_op_request :: "'p sender_op \<Rightarrow> bool" where
  "is_op_request (OpRequest m p) = True"
| "is_op_request _ = False"

text \<open>A suspended send can be resumed whatever it holds, as long as a handle it may borrow is there.\<close>

definition may_resume :: "pending_send \<Rightarrow> ('p, 'd, 'q, 'u) conn \<Rightarrow> bool" where
  "may_resume p s \<longleftrightarrow>
     (if pending_future p = [] then has_notify s else RequestHandle \<in> set (handles s))"

fun conn_step ::
  "('q, writer_directive) chan_ops \<Rightarrow> ('g \<Rightarrow> u64 \<times> 'g) \<Rightarrow> task \<Rightarrow> ('g, 'p) conn_op
   \<Rightarrow> ('p, 'd, 'q, 'u) conn \<Rightarrow> ('p, 'd, 'q, 'u) conn outcome option" where
  "conn_step ops rnd t CloneNotify s = guarded (has_notify s) (Done (notify_clone s))"
| "conn_step ops rnd t CloneRequest s = guarded (RequestHandle \<in> set (handles s)) (Done (request_clone s))"
| "conn_step ops rnd t IntoRequest s = guarded (NotifyHandle \<in> set (handles s)) (into_request_sender s)"
| "conn_step ops rnd t DowngradeNotify s = guarded (has_notify s) (Done (notify_downgrade s))"
| "conn_step ops rnd t DowngradeRequest s =
     guarded (RequestHandle \<in> set (handles s)) (Done (request_downgrade s))"
| "conn_step ops rnd t (CloneWeak w) s = guarded (w \<in> set (weaks s)) (Done (weak_clone w s))"
| "conn_step ops rnd t (DropWeak w) s =
     guarded (w \<in> set (weaks s)) (Done (s\<lparr>weaks := remove1 w (weaks s)\<rparr>))"
| "conn_step ops rnd t UpgradeNotify s =
     guarded (WeakNotify \<in> set (weaks s)) (Done (case notify_upgrade s of None \<Rightarrow> s | Some s' \<Rightarrow> s'))"
| "conn_step ops rnd t UpgradeRequest s =
     guarded (WeakRequest \<in> set (weaks s)) (Done (case request_upgrade s of None \<Rightarrow> s | Some s' \<Rightarrow> s'))"
| "conn_step ops rnd t ReceiverSender s =
     guarded (ReceiverHandle \<in> set (handles s)) (Done (receiver_notify_sender s))"
| "conn_step ops rnd t InboundSender s =
     guarded (\<exists>h \<in> set (handles s). is_inbound h) (Done (inbound_sender_handle s))"
| "conn_step ops rnd t (IntoOwned r) s =
     guarded (RequestHandle \<in> set (handles s)) (Done (future_into_owned r s))"
| "conn_step ops rnd t (DropOwner h) s = guarded (h \<in> set (handles s)) (drop_owner ops h s)"
| "conn_step ops rnd t (Respond ib result) s =
     guarded (InboundHandle ib \<in> set (handles s)) (inbound_respond ops ib result s)"
| "conn_step ops rnd t (DropRequest ib) s =
     guarded (InboundHandle ib \<in> set (handles s)) (inbound_drop_request ib s)"
| "conn_step ops rnd t (TakeMessage ib) s =
     guarded (InboundHandle ib \<in> set (handles s)) (inbound_split ib (inbound_take ib) s)"
| "conn_step ops rnd t (CloneMessage ib take_request) s =
     guarded (InboundHandle ib \<in> set (handles s)) (inbound_split ib (clone_message ib take_request) s)"
| "conn_step ops rnd t (PollFuture u r) s =
     guarded (FutureHandle r \<in> set (handles s)) (owned_future_poll u r s)"
| "conn_step ops rnd t (Send g x) s =
     guarded (if is_op_request x then RequestHandle \<in> set (handles s) else has_notify s)
       (with_core (\<lambda>core. obind (sender_step ops rnd (core, g) x) (\<lambda>(core', _). Done core')) s)"
| "conn_step ops rnd t (TryRecvFuture r) s =
     guarded (FutureHandle r \<in> set (handles s)) (owned_future_try_recv r s)"
| "conn_step ops rnd t (PollBorrowed u r) s =
     guarded (RequestHandle \<in> set (handles s)) (with_core (borrowed_poll u r) s)"
| "conn_step ops rnd t (TryRecvBorrowed r) s =
     guarded (RequestHandle \<in> set (handles s)) (with_core (borrowed_try_recv r) s)"
| "conn_step ops rnd t (DropBorrowed r) s =
     guarded (RequestHandle \<in> set (handles s)) (with_core (\<lambda>core. drop_unsent core r) s)"
| "conn_step ops rnd t (SendAwait g x) s =
     guarded (if is_op_request x then RequestHandle \<in> set (handles s) else has_notify s)
       (with_core (\<lambda>core. obind (sender_await ops rnd (core, g) x) (\<lambda>(core', _). Done core')) s)"
| "conn_step ops rnd t (SendResume p) s =
     guarded (may_resume p s)
       (with_core (\<lambda>core. obind (sender_resume ops core p) (\<lambda>(core', _). Done core')) s)"
| "conn_step ops rnd t (SendCancel p) s =
     guarded (may_resume p s) (with_core (\<lambda>core. sender_cancel core p) s)"
| "conn_step ops rnd t (RespondAwait ib result) s =
     guarded (InboundHandle ib \<in> set (handles s)) (inbound_respond_await ops ib result s)"
| "conn_step ops rnd t (RespondResume frame) s =
     guarded (\<exists>h \<in> set (handles s). is_inbound h) (with_core (respond_resume ops frame) s)"
| "conn_step ops rnd t (Recv frame) s = guarded (ReceiverHandle \<in> set (handles s)) (deliver_frame frame s)"
| "conn_step ops rnd t TaskUpgrade s =
     Some (Done (case arc_upgrade s of None \<Rightarrow> s | Some s' \<Rightarrow> s'\<lparr>handles := TaskGuard # handles s'\<rparr>))"
| "conn_step ops rnd t IntoWeakRunner s =
     guarded (ReceiverHandle \<in> set (handles s) \<and> read_phase s = NoReadTask)
       (Done (s\<lparr>handles := remove1 ReceiverHandle (handles s), read_phase := ReadUnpolled\<rparr>))"
| "conn_step ops rnd t ReadPoll s =
     (case read_phase s of
        ReadUnpolled \<Rightarrow> Some (Done (read_first_poll ops s))
      | ReadRunnable \<Rightarrow> Some (Done (signal_upgrade t s))
      | ReadParked \<Rightarrow> Some (Done (signal_upgrade t s))
      | ReadUpgraded \<Rightarrow> Some (signal_register t s)
      | ReadRegistered \<Rightarrow> Some (Done (signal_pending ops s))
      | ReadHandling b \<Rightarrow> Some (Done (read_frame_done ops b s))
      | _ \<Rightarrow> None)"
| "conn_step ops rnd t (ReadNext x) s =
     guarded (read_phase s = ReadRunnable \<or> read_phase s = ReadParked) (read_next x s)"
| "conn_step ops rnd t ReadCancel s =
     (case read_phase s of
        ReadUnpolled \<Rightarrow> Some (obind (with_core (drop_guard ops ReceiverHandle) s)
          (\<lambda>s'. Done (release ops (s'\<lparr>read_phase := ReadCancelled\<rparr>))))
      | ReadRunnable \<Rightarrow> Some (Done (s\<lparr>read_phase := ReadCancelled\<rparr>))
      | ReadParked \<Rightarrow> Some (Done (s\<lparr>read_phase := ReadCancelled\<rparr>))
      | _ \<Rightarrow> None)"

text \<open>
  The four ways to start a connection: the owner that is handed out, and whether a read task
  holds the receiver.
\<close>

inductive conn_reach ::
  "('q, writer_directive) chan_ops \<Rightarrow> ('g \<Rightarrow> u64 \<times> 'g) \<Rightarrow> task \<Rightarrow> ('p, 'd, 'q, 'u) conn \<Rightarrow> ('p, 'd, 'q, 'u) conn \<Rightarrow> bool"
  for ops rnd t s0 where
  conn_start: "conn_reach ops rnd t s0 s0"
| conn_next: "conn_reach ops rnd t s0 s \<Longrightarrow> conn_step ops rnd t x s = Some (Done s') \<Longrightarrow>
    conn_reach ops rnd t s0 s'"

fun conn_run ::
  "('q, writer_directive) chan_ops \<Rightarrow> ('g \<Rightarrow> u64 \<times> 'g) \<Rightarrow> task \<Rightarrow> ('g, 'p) conn_op list
   \<Rightarrow> ('p, 'd, 'q, 'u) conn \<Rightarrow> ('p, 'd, 'q, 'u) conn option" where
  "conn_run ops rnd t [] s = Some s"
| "conn_run ops rnd t (x # xs) s =
     (case conn_step ops rnd t x s of Some (Done s') \<Rightarrow> conn_run ops rnd t xs s' | _ \<Rightarrow> None)"

lemma conn_run_reach:
  "conn_reach ops rnd t s0 s \<Longrightarrow> conn_run ops rnd t xs s = Some s' \<Longrightarrow> conn_reach ops rnd t s0 s'"
  by (induction xs arbitrary: s) (auto split: option.splits outcome.splits intro: conn_next)

definition started ::
  "(nat option \<Rightarrow> 'q) \<Rightarrow> ('w, 'r, 'v, ('p, 'd) codec) builder \<Rightarrow> ('p, 'd, 'q, 'v) conn \<Rightarrow> bool" where
  "started mk b s \<longleftrightarrow>
     s = conn_new (fst (build_client mk b)) RequestHandle True \<or>
     (\<exists>enable. s = conn_new (fst (build_server mk b enable)) ReceiverHandle False) \<or>
     s = conn_new (fst (build_write_only mk b)) NotifyHandle False \<or>
     s = conn_new (fst (build_read_only b)) ReceiverHandle False"

subsection \<open>Operations on the core keep its shape\<close>

text \<open>
  None of them registers a waker, turns the request feature on or off, or takes the channel
  away.
\<close>

definition same_shape :: "('p, 'd, 'q, 'u) rpc_core \<Rightarrow> ('p, 'd, 'q, 'u) rpc_core \<Rightarrow> bool" where
  "same_shape core core' \<longleftrightarrow>
     wake_on_drop core' = wake_on_drop core \<and> (core_reqs core' = None \<longleftrightarrow> core_reqs core = None) \<and>
     (t_tx_deferred core' = None \<longleftrightarrow> t_tx_deferred core = None)"

lemma same_shape_refl [simp]: "same_shape core core"
  by (simp add: same_shape_def)

lemma same_shape_trans: "same_shape a b \<Longrightarrow> same_shape b c \<Longrightarrow> same_shape a c"
  by (simp add: same_shape_def)

lemma same_shape_updates [simp]:
  "t_tx_deferred core = Some q \<Longrightarrow> same_shape core (core\<lparr>t_tx_deferred := Some q'\<rparr>)"
  "core_reqs core = Some c \<Longrightarrow> same_shape core (core\<lparr>core_reqs := Some c'\<rparr>)"
  "same_shape core (core\<lparr>core_reqs := map_option f (core_reqs core)\<rparr>)"
  by (simp_all add: same_shape_def)

lemma sender_tx_Done: "sender_tx core = Done q \<longleftrightarrow> t_tx_deferred core = Some q"
  by (simp add: sender_tx_def unwrap_unchecked_def split: option.split)

lemma sender_reqs_Done: "sender_reqs core = Done c \<longleftrightarrow> core_reqs core = Some c"
  by (simp add: sender_reqs_def unwrap_def split: option.split)

lemma obind_DoneE: "obind m f = Done y \<Longrightarrow> (\<And>x. m = Done x \<Longrightarrow> f x = Done y \<Longrightarrow> P) \<Longrightarrow> P"
  by (auto simp: obind_Done_iff)

lemmas done_splits = prod.split_asm sum.split_asm option.split_asm if_split_asm

lemma try_send_frame_shape: "try_send_frame ops core msg = Done (core', r) \<Longrightarrow> same_shape core core'"
  unfolding try_send_frame_def
  by (elim obind_DoneE) (auto simp: sender_tx_Done elim!: obind_DoneE split: done_splits)

lemma drop_unsent_shape: "drop_unsent core resp = Done core' \<Longrightarrow> same_shape core core'"
  unfolding drop_unsent_def by (elim obind_DoneE) (auto simp: sender_reqs_Done)

lemma request_encode_shape:
  "request_encode core rnd g buf m p = Done (core', buf', g', r) \<Longrightarrow> same_shape core core'"
  unfolding request_encode_def by (elim obind_DoneE) (auto simp: sender_reqs_Done split: done_splits)

lemma try_send_request_shape:
  "try_send_request ops core rnd g buf m p = Done (core', buf', g', r) \<Longrightarrow> same_shape core core'"
  unfolding try_send_request_def
  by (elim obind_DoneE) (auto elim!: obind_DoneE split: done_splits intro: same_shape_trans
      dest!: request_encode_shape try_send_frame_shape drop_unsent_shape)

lemma sender_step_shape: "sender_step ops rnd (core, g) x = Done (core', r) \<Longrightarrow> same_shape core core'"
  by (cases x)
    (auto simp: try_send_notify_def try_burst_def try_flush_writer_def try_shutdown_writer_def sender_tx_Done
      elim!: obind_DoneE split: done_splits dest: try_send_frame_shape try_send_request_shape)

lemma send_frame_shape: "send_frame ops core msg = Done (Ready_now (core', r)) \<Longrightarrow> same_shape core core'"
  unfolding send_frame_def
  by (elim obind_DoneE) (auto simp: sender_tx_Done split: poll.split_asm done_splits)

lemma action_shape:
  "flush_writer ops core = Done (Ready_now (core', r)) \<Longrightarrow> same_shape core core'"
  "shutdown_writer ops core d = Done (Ready_now (core', r)) \<Longrightarrow> same_shape core core'"
  unfolding flush_writer_def shutdown_writer_def
  by (elim obind_DoneE; auto simp: sender_tx_Done split: poll.split_asm done_splits)+

lemma send_request_shape:
  "send_request ops core rnd g buf m p = Done (core', buf', g', r) \<Longrightarrow> same_shape core core'"
  unfolding send_request_def
  by (elim obind_DoneE) (auto elim!: obind_DoneE split: poll.split_asm done_splits
      dest!: request_encode_shape send_frame_shape drop_unsent_shape, (blast intro: same_shape_trans)+)

lemma sender_await_shape: "sender_await ops rnd (core, g) x = Done (core', r) \<Longrightarrow> same_shape core core'"
  by (cases x)
    (auto simp: send_notify_def burst_def elim!: obind_DoneE split: poll.split_asm suspended.split_asm done_splits
      dest: send_frame_shape send_request_shape action_shape)

lemma sender_resume_shape: "sender_resume ops core p = Done (core', r) \<Longrightarrow> same_shape core core'"
  by (cases p)
    (auto elim!: obind_DoneE split: poll.split_asm done_splits intro: same_shape_trans
      dest!: send_frame_shape action_shape drop_unsent_shape)

lemma sender_cancel_shape: "sender_cancel core p = Done core' \<Longrightarrow> same_shape core core'"
  by (cases p) (auto dest: drop_unsent_shape)

lemma borrowed_shape:
  "borrowed_poll u r core = Done core' \<Longrightarrow> same_shape core core'"
  "borrowed_try_recv r core = Done core' \<Longrightarrow> same_shape core core'"
  unfolding borrowed_poll_def borrowed_try_recv_def
  by (elim obind_DoneE; auto simp: sender_reqs_Done elim!: obind_DoneE)+

lemma respond_shape:
  "respond ops core ib buf p = Done (core', ib', buf', r) \<Longrightarrow> same_shape core core'"
  unfolding respond_def by (elim obind_DoneE) (auto split: poll.split_asm done_splits)

lemma respond_resume_shape: "respond_resume ops frame core = Done core' \<Longrightarrow> same_shape core core'"
  by (auto simp: respond_resume_def split: option.split poll.split)

lemma try_response_shape:
  "try_response ops core ib buf p = Done (core', ib', buf', r) \<Longrightarrow> same_shape core core'"
  unfolding try_response_def by (elim obind_DoneE) (auto split: done_splits)

lemma handle_inbound_shape:
  "handle_inbound_once core frame scratch = Done (core', scratch', r) \<Longrightarrow> same_shape core core'"
  unfolding handle_inbound_once_def
  by (elim obind_DoneE) (auto simp: handle_response_def elim!: obind_DoneE
      split: done_splits inbound_frame_type.split_asm)

lemma drop_guard_shape: "drop_guard ops h core = Done core' \<Longrightarrow> same_shape core core'"
  by (cases h) (auto simp: inbound_drop_def elim!: obind_DoneE split: if_split_asm
      dest: try_response_shape drop_unsent_shape)

subsection \<open>The invariant\<close>

fun read_guard :: "read_phase \<Rightarrow> nat" where
  "read_guard ReadUnpolled = 1"
| "read_guard ReadUpgraded = 1"
| "read_guard ReadRegistered = 1"
| "read_guard (ReadHandling b) = 1"
| "read_guard _ = 0"

text \<open>The task's waker is in the core, or the core is gone and has called it.\<close>

fun registered :: "read_phase \<Rightarrow> bool" where
  "registered ReadRegistered = True"
| "registered ReadParked = True"
| "registered (ReadHandling b) = b"
| "registered _ = False"

text \<open>What exists only with the request feature.\<close>

fun needs_requests :: "owner \<Rightarrow> bool" where
  "needs_requests RequestHandle = True"
| "needs_requests (FutureHandle r) = True"
| "needs_requests _ = False"

definition core_inv :: "bool \<Rightarrow> task \<Rightarrow> ('p, 'd, 'q, 'u) conn \<Rightarrow> ('p, 'd, 'q, 'u) rpc_core \<Rightarrow> bool" where
  "core_inv tx t s core \<longleftrightarrow>
     (t_tx_deferred core \<noteq> None \<longleftrightarrow> tx) \<and>
     (core_reqs core = None \<longrightarrow> WeakRequest \<notin> set (weaks s) \<and> (\<forall>h \<in> set (handles s). \<not> needs_requests h)) \<and>
     (registered (read_phase s) \<longrightarrow> wake_on_drop core = Some t)"

definition conn_inv ::
  "('q \<Rightarrow> bool) \<Rightarrow> bool \<Rightarrow> task \<Rightarrow> ('p, 'd, 'q, 'u) conn \<Rightarrow> bool" where
  "conn_inv closed tx t s \<longleftrightarrow>
     strong s = length (handles s) + read_guard (read_phase s) \<and>
     (case arc_core s of
        Some core \<Rightarrow> 0 < strong s \<and> core_inv tx t s core
      | None \<Rightarrow> strong s = 0 \<and> (registered (read_phase s) \<longrightarrow> t \<in> set (woken_tasks s)) \<and>
          (freed_channel s \<noteq> None \<longleftrightarrow> tx) \<and> (\<forall>q. freed_channel s = Some q \<longrightarrow> closed q))"

text \<open>
  The invariant with one reference too many, which \<open>release\<close> drops.
\<close>

definition conn_held :: "bool \<Rightarrow> task \<Rightarrow> ('p, 'd, 'q, 'u) conn \<Rightarrow> bool" where
  "conn_held tx t s \<longleftrightarrow>
     strong s = length (handles s) + read_guard (read_phase s) + 1 \<and>
     (\<exists>core. arc_core s = Some core \<and> core_inv tx t s core)"

lemma release_inv:
  assumes "mpsc_channel ops queue closed capacity" and "conn_held tx t s"
  shows "conn_inv closed tx t (release ops s)"
  using assms(2) mpsc_channel.close(1) [OF assms(1)]
  by (auto simp: conn_held_def conn_inv_def release_def core_inv_def rpc_core_drop_def)

lemma arc_core_None: "conn_inv closed tx t s \<Longrightarrow> arc_core s = None \<longleftrightarrow> strong s = 0"
  by (auto simp: conn_inv_def split: option.splits)

lemma arc_upgrade_cases:
  assumes "conn_inv closed tx t s"
  obtains "arc_core s = None" "arc_upgrade s = None"
  | core where "arc_core s = Some core" "arc_upgrade s = Some (acquire s)" "conn_held tx t (acquire s)"
  using assms by (auto simp: conn_inv_def conn_held_def core_inv_def arc_upgrade_def acquire_def split: option.splits)

text \<open>One more owner in the hands of the user.\<close>

lemma conn_held_handle:
  assumes "conn_held tx t s" and "needs_requests h \<Longrightarrow> \<forall>core. arc_core s = Some core \<longrightarrow> core_reqs core \<noteq> None"
  shows "conn_inv closed tx t (s\<lparr>handles := h # handles s\<rparr>)"
  using assms by (auto simp: conn_held_def conn_inv_def core_inv_def)

lemma conn_held_acquire:
  "conn_inv closed tx t s \<Longrightarrow> arc_core s = Some core \<Longrightarrow> conn_held tx t (acquire s)"
  by (auto simp: conn_inv_def conn_held_def core_inv_def acquire_def)

lemma owner_core:
  assumes "conn_inv closed tx t s" and "h \<in> set (handles s)"
  obtains core where "arc_core s = Some core" "needs_requests h \<Longrightarrow> core_reqs core \<noteq> None"
  using assms by (cases "arc_core s") (auto simp: conn_inv_def core_inv_def)

lemma weak_request_core:
  "conn_inv closed tx t s \<Longrightarrow> WeakRequest \<in> set (weaks s) \<Longrightarrow> arc_core s = Some core \<Longrightarrow> core_reqs core \<noteq> None"
  by (auto simp: conn_inv_def core_inv_def)

lemma core_inv_shape:
  "core_inv tx t s core \<Longrightarrow> same_shape core core' \<Longrightarrow> core_inv tx t s' core'"
  if "weaks s' = weaks s" "handles s' = handles s" "read_phase s' = read_phase s"
  using that by (auto simp: core_inv_def same_shape_def)

lemma with_core_inv:
  assumes "conn_inv closed tx t s" and "with_core f s = Done s'"
    and "\<And>core core'. f core = Done core' \<Longrightarrow> same_shape core core'"
  shows "conn_inv closed tx t s' \<and> (\<exists>core'. s' = s\<lparr>arc_core := Some core'\<rparr>)"
proof -
  obtain core core' where core: "arc_core s = Some core" "f core = Done core'" "s' = s\<lparr>arc_core := Some core'\<rparr>"
    using assms(2) by (auto simp: with_core_def obind_Done_iff split: option.split_asm)
  then show ?thesis
    using assms(1) assms(3) [OF core(2)] core_inv_shape [of s' s tx t core core']
    by (auto simp: conn_inv_def)
qed

lemma conn_inv_drop_handle:
  assumes "conn_inv closed tx t s" and "h \<in> set (handles s)"
  shows "conn_held tx t (s\<lparr>handles := remove1 h (handles s)\<rparr>)"
proof -
  obtain core where core: "arc_core s = Some core" using owner_core [OF assms] by blast
  have "length (handles s) = Suc (length (remove1 h (handles s)))"
    using assms(2) by (simp add: length_remove1) (metis Suc_pred length_pos_if_in_set)
  then show ?thesis
    using assms(1) core set_remove1_subset [of h "handles s"]
    by (auto simp: conn_inv_def conn_held_def core_inv_def)
qed

lemma drop_owner_inv:
  assumes "mpsc_channel ops queue closed capacity" and "conn_inv closed tx t s" and "h \<in> set (handles s)"
    and "drop_owner ops h s = Done s'"
  shows "conn_inv closed tx t s'"
proof -
  obtain s1 where s1: "with_core (drop_guard ops h) s = Done s1"
    and s': "s' = release ops (s1\<lparr>handles := remove1 h (handles s1)\<rparr>)"
    using assms(4) by (auto simp: drop_owner_def obind_Done_iff)
  have "conn_inv closed tx t s1 \<and> h \<in> set (handles s1)"
    using with_core_inv [OF assms(2) s1 drop_guard_shape [of ops h]] assms(3) by auto
  then show ?thesis unfolding s' using release_inv [OF assms(1)] conn_inv_drop_handle by blast
qed

lemma with_owner_inv:
  assumes "conn_inv closed tx t s" and "h \<in> set (handles s)" and "with_owner h f s = Done s'"
    and "\<And>core core' h'. f core = Done (core', h') \<Longrightarrow> same_shape core core' \<and> (needs_requests h' \<longrightarrow> needs_requests h)"
  shows "conn_inv closed tx t s'"
proof -
  obtain core core' h' where core: "arc_core s = Some core" and f: "f core = Done (core', h')"
    and s': "s' = s\<lparr>arc_core := Some core', handles := h' # remove1 h (handles s)\<rparr>"
    using assms(3) by (auto simp: with_owner_def obind_Done_iff split: option.split_asm)
  note shape = assms(4) [OF f]
  have "needs_requests h \<Longrightarrow> core_reqs core' \<noteq> None"
    using owner_core [OF assms(1,2)] core shape by (auto simp: same_shape_def)
  moreover have "conn_held tx t (s\<lparr>arc_core := Some core', handles := remove1 h (handles s)\<rparr>)"
    using conn_inv_drop_handle [OF assms(1,2)] core shape by (auto simp: conn_held_def core_inv_def same_shape_def)
  ultimately show ?thesis unfolding s'
    using shape conn_held_handle [of tx t "s\<lparr>arc_core := Some core', handles := remove1 h (handles s)\<rparr>" h'] by auto
qed

lemma inbound_split_inv:
  assumes "conn_inv closed tx t s" and "InboundHandle ib \<in> set (handles s)" and "inbound_split ib parts s = Done s'"
  shows "conn_inv closed tx t s'"
proof -
  obtain s1 where s1: "with_owner (InboundHandle ib) (\<lambda>core. Done (core, InboundHandle (fst parts))) s = Done s1"
    and s': "s' = (acquire s1)\<lparr>handles := InboundHandle (snd parts) # handles s1\<rparr>"
    using assms(3) by (auto simp: inbound_split_def obind_Done_iff)
  have inv: "conn_inv closed tx t s1" by (rule with_owner_inv [OF assms(1,2) s1]) auto
  obtain core where "arc_core s1 = Some core"
    using s1 by (auto simp: with_owner_def split: option.split_asm)
  from conn_held_handle [OF conn_held_acquire [OF inv this], of "InboundHandle (snd parts)"]
  show ?thesis by (simp add: s' acquire_def)
qed

lemma deliver_frame_inv:
  assumes "conn_inv closed tx t s" and "deliver_frame frame s = Done s'"
  shows "conn_inv closed tx t s' \<and> read_phase s' = read_phase s"
proof -
  obtain core core' scratch r where core: "arc_core s = Some core"
    and once: "handle_inbound_once core frame [] = Done (core', scratch, r)"
    and s': "s' = (case r of
        Inr (Some ib) \<Rightarrow> (acquire s)\<lparr>arc_core := Some core', handles := InboundHandle ib # handles s\<rparr>
      | _ \<Rightarrow> s\<lparr>arc_core := Some core'\<rparr>)"
    using assms(2) by (auto simp: deliver_frame_def obind_Done_iff split: option.split_asm)
  have "core_inv tx t s core'"
    using assms(1) core core_inv_shape [OF refl refl refl _ handle_inbound_shape [OF once]] by (auto simp: conn_inv_def)
  then show ?thesis
    using assms(1) core
    by (auto simp: s' conn_inv_def core_inv_def acquire_def split: sum.split option.split)
qed

lemma signal_upgrade_inv:
  assumes "conn_inv closed tx t s" and "read_guard (read_phase s) = 0"
  shows "conn_inv closed tx t (signal_upgrade t s)"
proof (cases "arc_core s")
  case None
  then have "strong s = 0" using assms(1) arc_core_None by blast
  then show ?thesis using assms None by (simp add: signal_upgrade_def arc_upgrade_def conn_inv_def)
next
  case (Some core)
  then have "strong s \<noteq> 0" using arc_core_None [OF assms(1)] by simp
  then show ?thesis using assms Some
    by (auto simp: signal_upgrade_def arc_upgrade_def acquire_def conn_inv_def core_inv_def)
qed

lemma signal_register_inv:
  assumes "conn_inv closed tx t s" and "read_phase s = ReadUpgraded" and "signal_register t s = Done s'"
  shows "conn_inv closed tx t s'"
  using assms
  by (auto simp: signal_register_def with_core_def conn_inv_def core_inv_def register_wake_on_drop_def
      split: option.split_asm)

text \<open>The task gives its reference up and goes on to a phase that owns none.\<close>

lemma leave_phase_inv:
  assumes "mpsc_channel ops queue closed capacity" and "conn_inv closed tx t s"
    and "read_guard (read_phase s) = 1" and "read_guard p = 0" and "registered p \<Longrightarrow> registered (read_phase s)"
  shows "conn_inv closed tx t (release ops (s\<lparr>read_phase := p\<rparr>))"
proof (rule release_inv [OF assms(1)])
  show "conn_held tx t (s\<lparr>read_phase := p\<rparr>)"
    using assms(2-) by (auto simp: conn_inv_def conn_held_def core_inv_def split: option.split_asm)
qed

lemma idle_phase_inv:
  assumes "conn_inv closed tx t s" and "read_guard (read_phase s) = 0" and "read_guard p = 0" and "\<not> registered p"
  shows "conn_inv closed tx t (s\<lparr>read_phase := p\<rparr>)"
  using assms by (auto simp: conn_inv_def core_inv_def split: option.splits)

lemma read_next_inv:
  assumes "conn_inv closed tx t s" and "read_phase s = ReadRunnable \<or> read_phase s = ReadParked"
    and "read_next x s = Done s'"
  shows "conn_inv closed tx t s'"
proof (cases "\<exists>frame s1. x = Inr (Some frame) \<and> arc_upgrade s = Some s1")
  case False
  then show ?thesis
    using assms idle_phase_inv [OF assms(1)]
    by (auto simp: read_next_def split: sum.split_asm option.split_asm)
next
  case True
  then obtain frame where x: "x = Inr (Some frame)" "arc_upgrade s = Some (acquire s)"
    and s': "deliver_frame frame ((acquire s)\<lparr>read_phase := ReadHandling (read_phase s = ReadParked)\<rparr>) = Done s'"
    using assms(3) by (auto simp: read_next_def arc_upgrade_def split: if_split_asm)
  have "strong s \<noteq> 0" using x(2) by (auto simp: arc_upgrade_def split: if_split_asm)
  then have "conn_inv closed tx t ((acquire s)\<lparr>read_phase := ReadHandling (read_phase s = ReadParked)\<rparr>)"
    using assms(1,2) by (auto simp: conn_inv_def core_inv_def acquire_def split: option.split_asm)
  then show ?thesis using deliver_frame_inv [OF _ s'] by simp
qed

lemma conn_step_inv:
  assumes chan: "mpsc_channel ops queue closed capacity" and inv: "conn_inv closed tx t s"
    and step: "conn_step ops rnd t x s = Some (Done s')"
  shows "conn_inv closed tx t s'"
proof -
  have has: "\<exists>core. arc_core s = Some core" if "has_notify s"
    using that owner_core [OF inv] by (auto simp: has_notify_def)
  have more: "conn_inv closed tx t ((acquire s)\<lparr>handles := h # handles s\<rparr>)"
    if "arc_core s = Some core" "needs_requests h \<Longrightarrow> core_reqs core \<noteq> None" for h core
    using conn_held_handle [OF conn_held_acquire [OF inv that(1)], of h] that by (simp add: acquire_def)
  have weaker: "conn_inv closed tx t (s\<lparr>weaks := ws\<rparr>)"
    if "WeakRequest \<in> set ws \<Longrightarrow> WeakRequest \<in> set (weaks s) \<or> RequestHandle \<in> set (handles s)" for ws
    using inv that by (auto simp: conn_inv_def core_inv_def split: option.splits dest: bspec [of _ _ RequestHandle])
  show ?thesis
  proof (cases x)
    case CloneNotify
    then show ?thesis using step has more [where h = NotifyHandle]
      by (auto simp: guarded_def notify_clone_def split: if_split_asm)
  next
    case CloneRequest
    then have req: "RequestHandle \<in> set (handles s)" and s': "s' = request_clone s"
      using step by (auto simp: guarded_def split: if_split_asm)
    obtain core where "arc_core s = Some core" "core_reqs core \<noteq> None" using owner_core [OF inv req] by auto
    then show ?thesis unfolding s' request_clone_def by (intro more)
  next
    case IntoRequest
    then have n: "NotifyHandle \<in> set (handles s)" and s': "into_request_sender s = Done s'"
      using step by (auto simp: guarded_def split: if_split_asm)
    obtain core where core: "arc_core s = Some core" using owner_core [OF inv n] by blast
    have held: "conn_held tx t (s\<lparr>handles := remove1 NotifyHandle (handles s)\<rparr>)"
      by (rule conn_inv_drop_handle [OF inv n])
    show ?thesis
      using s' core inv conn_held_handle [OF held, of RequestHandle]
      by (auto simp: into_request_sender_def try_into_request_sender_def split: if_split_asm)
  next
    case DowngradeNotify
    then show ?thesis using step weaker [of "WeakNotify # weaks s"]
      by (auto simp: guarded_def notify_downgrade_def split: if_split_asm)
  next
    case DowngradeRequest
    then show ?thesis using step weaker [of "WeakRequest # weaks s"]
      by (auto simp: guarded_def request_downgrade_def split: if_split_asm)
  next
    case (CloneWeak w)
    then show ?thesis using step weaker [of "w # weaks s"]
      by (auto simp: guarded_def weak_clone_def split: if_split_asm)
  next
    case (DropWeak w)
    then show ?thesis using step weaker [of "remove1 w (weaks s)"] set_remove1_subset [of w "weaks s"]
      by (auto simp: guarded_def split: if_split_asm)
  next
    case UpgradeNotify
    then have s': "s' = (case notify_upgrade s of None \<Rightarrow> s | Some s' \<Rightarrow> s')"
      using step by (auto simp: guarded_def split: if_split_asm)
    show ?thesis unfolding s'
      by (cases rule: arc_upgrade_cases [OF inv])
        (use inv more [where h = NotifyHandle] in \<open>auto simp: notify_upgrade_def acquire_def\<close>)
  next
    case UpgradeRequest
    then have s': "s' = (case request_upgrade s of None \<Rightarrow> s | Some s' \<Rightarrow> s')" and w: "WeakRequest \<in> set (weaks s)"
      using step by (auto simp: guarded_def split: if_split_asm)
    show ?thesis unfolding s'
      by (cases rule: arc_upgrade_cases [OF inv])
        (use inv more [where h = RequestHandle] weak_request_core [OF inv w] in
          \<open>auto simp: request_upgrade_def acquire_def\<close>)
  next
    case ReceiverSender
    then show ?thesis using step owner_core [OF inv] more [where h = NotifyHandle]
      by (force simp: guarded_def receiver_notify_sender_def split: if_split_asm)
  next
    case InboundSender
    then show ?thesis using step owner_core [OF inv] more [where h = NotifyHandle]
      by (force simp: guarded_def inbound_sender_handle_def split: if_split_asm)
  next
    case (IntoOwned r)
    then have req: "RequestHandle \<in> set (handles s)" and s': "s' = future_into_owned r s"
      using step by (auto simp: guarded_def split: if_split_asm)
    obtain core where "arc_core s = Some core" "core_reqs core \<noteq> None" using owner_core [OF inv req] by auto
    then show ?thesis unfolding s' future_into_owned_def by (intro more)
  next
    case (DropOwner h)
    then show ?thesis using step drop_owner_inv [OF chan inv] by (auto simp: guarded_def split: if_split_asm)
  next
    case (Respond ib result)
    then have h: "InboundHandle ib \<in> set (handles s)" and w: "inbound_respond ops ib result s = Done s'"
      using step by (auto simp: guarded_def split: if_split_asm)
    show ?thesis
      by (rule with_owner_inv [OF inv h w [unfolded inbound_respond_def]])
        (auto elim!: obind_DoneE dest: try_response_shape)
  next
    case (DropRequest ib)
    then have h: "InboundHandle ib \<in> set (handles s)" and w: "inbound_drop_request ib s = Done s'"
      using step by (auto simp: guarded_def split: if_split_asm)
    show ?thesis by (rule with_owner_inv [OF inv h w [unfolded inbound_drop_request_def]]) auto
  next
    case (TakeMessage ib)
    then show ?thesis using step inbound_split_inv [OF inv] by (auto simp: guarded_def split: if_split_asm)
  next
    case (CloneMessage ib b)
    then show ?thesis using step inbound_split_inv [OF inv] by (auto simp: guarded_def split: if_split_asm)
  next
    case (PollFuture u r)
    then have h: "FutureHandle r \<in> set (handles s)" and w: "owned_future_poll u r s = Done s'"
      using step by (auto simp: guarded_def split: if_split_asm)
    show ?thesis
      by (rule with_owner_inv [OF inv h w [unfolded owned_future_poll_def]])
        (auto simp: sender_reqs_Done elim!: obind_DoneE)
  next
    case (Send g y)
    then have "with_core (\<lambda>core. obind (sender_step ops rnd (core, g) y) (\<lambda>(core', _). Done core')) s = Done s'"
      using step by (auto simp: guarded_def split: if_split_asm)
    then show ?thesis using with_core_inv [OF inv] sender_step_shape by (fastforce elim: obind_DoneE)
  next
    case (TryRecvFuture r)
    then have h: "FutureHandle r \<in> set (handles s)" and w: "owned_future_try_recv r s = Done s'"
      using step by (auto simp: guarded_def split: if_split_asm)
    show ?thesis
      by (rule with_owner_inv [OF inv h w [unfolded owned_future_try_recv_def]])
        (auto simp: sender_reqs_Done elim!: obind_DoneE)
  next
    case (PollBorrowed u r)
    then have "with_core (borrowed_poll u r) s = Done s'" using step by (auto simp: guarded_def split: if_split_asm)
    then show ?thesis using with_core_inv [OF inv] borrowed_shape(1) by blast
  next
    case (TryRecvBorrowed r)
    then have "with_core (borrowed_try_recv r) s = Done s'" using step by (auto simp: guarded_def split: if_split_asm)
    then show ?thesis using with_core_inv [OF inv] borrowed_shape(2) by blast
  next
    case (DropBorrowed r)
    then have "with_core (\<lambda>core. drop_unsent core r) s = Done s'"
      using step by (auto simp: guarded_def split: if_split_asm)
    then show ?thesis using with_core_inv [OF inv] drop_unsent_shape by blast
  next
    case (SendAwait g y)
    then have "with_core (\<lambda>core. obind (sender_await ops rnd (core, g) y) (\<lambda>(core', _). Done core')) s = Done s'"
      using step by (auto simp: guarded_def split: if_split_asm)
    then show ?thesis using with_core_inv [OF inv] sender_await_shape by (fastforce elim: obind_DoneE)
  next
    case (SendResume p)
    then have "with_core (\<lambda>core. obind (sender_resume ops core p) (\<lambda>(core', _). Done core')) s = Done s'"
      using step by (auto simp: guarded_def split: if_split_asm)
    then show ?thesis using with_core_inv [OF inv] sender_resume_shape by (fastforce elim: obind_DoneE)
  next
    case (SendCancel p)
    then have "with_core (\<lambda>core. sender_cancel core p) s = Done s'"
      using step by (auto simp: guarded_def split: if_split_asm)
    then show ?thesis using with_core_inv [OF inv] sender_cancel_shape by blast
  next
    case (RespondAwait ib result)
    then have h: "InboundHandle ib \<in> set (handles s)" and w: "inbound_respond_await ops ib result s = Done s'"
      using step by (auto simp: guarded_def split: if_split_asm)
    show ?thesis
      by (rule with_owner_inv [OF inv h w [unfolded inbound_respond_await_def]])
        (auto elim!: obind_DoneE dest: respond_shape)
  next
    case (RespondResume frame)
    then have "with_core (respond_resume ops frame) s = Done s'"
      using step by (auto simp: guarded_def split: if_split_asm)
    then show ?thesis using with_core_inv [OF inv] respond_resume_shape by blast
  next
    case (Recv frame)
    then show ?thesis using step deliver_frame_inv [OF inv] by (auto simp: guarded_def split: if_split_asm)
  next
    case TaskUpgrade
    then have s': "s' = (case arc_upgrade s of None \<Rightarrow> s | Some s' \<Rightarrow> s'\<lparr>handles := TaskGuard # handles s'\<rparr>)"
      using step by auto
    show ?thesis unfolding s'
      by (cases rule: arc_upgrade_cases [OF inv])
        (use inv more [where h = TaskGuard] in \<open>auto simp: acquire_def\<close>)
  next
    case IntoWeakRunner
    then have r: "ReceiverHandle \<in> set (handles s)" "read_phase s = NoReadTask"
      and s': "s' = s\<lparr>handles := remove1 ReceiverHandle (handles s), read_phase := ReadUnpolled\<rparr>"
      using step by (auto simp: guarded_def split: if_split_asm)
    show ?thesis unfolding s'
      using conn_inv_drop_handle [OF inv r(1)] r(2) by (auto simp: conn_held_def conn_inv_def core_inv_def)
  next
    case ReadPoll
    then show ?thesis
      using step signal_upgrade_inv [OF inv] signal_register_inv [OF inv]
        leave_phase_inv [OF chan inv, of ReadRunnable] leave_phase_inv [OF chan inv, of ReadParked]
      by (auto simp: read_first_poll_def signal_pending_def read_frame_done_def split: read_phase.split_asm)
  next
    case (ReadNext y)
    then show ?thesis using step read_next_inv [OF inv] by (auto simp: guarded_def split: if_split_asm)
  next
    case ReadCancel
    then show ?thesis
    proof (cases "read_phase s = ReadUnpolled")
      case True
      then obtain s1 where s1: "with_core (drop_guard ops ReceiverHandle) s = Done s1"
        and s': "s' = release ops (s1\<lparr>read_phase := ReadCancelled\<rparr>)"
        using step ReadCancel by (auto simp: obind_Done_iff)
      have "conn_inv closed tx t s1 \<and> read_phase s1 = ReadUnpolled"
        using with_core_inv [OF inv s1 drop_guard_shape [of ops ReceiverHandle]] True by auto
      then show ?thesis unfolding s' by (intro leave_phase_inv [OF chan]) simp_all
    next
      case False
      then show ?thesis using step ReadCancel idle_phase_inv [OF inv]
        by (auto split: read_phase.split_asm)
    qed
  qed
qed

lemma conn_reach_inv:
  assumes "mpsc_channel ops queue closed capacity" and "conn_reach ops rnd t s0 s" and "conn_inv closed tx t s0"
  shows "conn_inv closed tx t s"
  using assms(2) by induction (use assms(1,3) conn_step_inv in blast)+

lemma started_inv:
  assumes "started mk b s"
  shows "\<exists>tx. conn_inv closed tx t s"
  using assms
  by (auto simp: started_def conn_new_def conn_inv_def core_inv_def build_client_def build_server_def
      build_write_only_def build_read_only_def build_core_def Let_def)

subsection \<open>Properties\<close>

text \<open>C4: The core lives exactly as long as somebody holds it. However a connection was started and
  whatever sequence of clones, drops, downgrades, upgrades, sends, responses, polls, received
  frames and steps of the read task follows, the strong count is the number of owners, the core is there if
  and only if there is an owner, upgrading a weak handle succeeds in just these states,
  and a request sender or a future that owns one always finds the request context it
  unwraps.\<close>

theorem handles_keep_core:
  assumes "mpsc_channel ops queue closed capacity" and "started mk b s0" and "conn_reach ops rnd t s0 s"
  shows "strong s = length (handles s) + read_guard (read_phase s) \<and>
    (arc_core s \<noteq> None \<longleftrightarrow> handles s \<noteq> [] \<or> read_guard (read_phase s) = 1) \<and>
    (notify_upgrade s \<noteq> None \<longleftrightarrow> arc_core s \<noteq> None) \<and> (request_upgrade s \<noteq> None \<longleftrightarrow> arc_core s \<noteq> None) \<and>
    (\<forall>h \<in> set (handles s). needs_requests h \<longrightarrow>
       (\<exists>core c. arc_core s = Some core \<and> sender_reqs core = Done c))"
proof -
  obtain tx where "conn_inv closed tx t s0" using started_inv [OF assms(2)] by blast
  then have inv: "conn_inv closed tx t s" by (rule conn_reach_inv [OF assms(1,3)])
  then have count: "strong s = length (handles s) + read_guard (read_phase s)" by (simp add: conn_inv_def)
  have guard: "read_guard (read_phase s) = 0 \<or> read_guard (read_phase s) = 1" by (cases "read_phase s") simp_all
  have "\<exists>core c. arc_core s = Some core \<and> sender_reqs core = Done c"
    if h: "h \<in> set (handles s)" and needs: "needs_requests h" for h
  proof -
    obtain core where "arc_core s = Some core" "core_reqs core \<noteq> None"
      using owner_core [OF inv h] needs by blast
    then show ?thesis by (auto simp: sender_reqs_Done)
  qed
  then show ?thesis
    using count guard arc_core_None [OF inv]
    by (auto simp: notify_upgrade_def request_upgrade_def arc_upgrade_def)
qed

text \<open>A client whose read task waits on its signal, and whose only sender sends and is dropped.\<close>

definition client_one :: "(bytes, bytes, writer_directive fifo, unit) conn" where
  "client_one = conn_new (fst (build_client fifo_new builder_one)) RequestHandle True"

definition client_ops :: "(u64, bytes) conn_op list" where
  "client_ops = [DowngradeNotify, ReadPoll, ReadPoll, ReadPoll, ReadPoll,
     Send 1 (OpNotify [1] [2]), DropOwner RequestHandle]"

lemma client_one_started: "started fifo_new builder_one client_one"
  by (simp add: started_def client_one_def)

lemma client_ops_end:
  "\<exists>s. conn_run fifo_ops count_up 5 client_ops client_one = Some s \<and> handles s = [] \<and>
     read_phase s = ReadParked \<and> weaks s = [WeakNotify] \<and>
     map_option fifo_items (freed_channel s) = Some [WriteMsg [1, 2]]"
  by (simp add: client_ops_def client_one_def conn_new_def guarded_def has_notify_def notify_downgrade_def
      read_first_poll_def signal_upgrade_def signal_register_def signal_pending_def arc_upgrade_def acquire_def
      release_def with_core_def register_wake_on_drop_def drop_owner_def rpc_core_drop_def
      build_client_def build_core_def make_write_channel_def fifo_new_def fifo_ops_def has_room_def
      builder_one_def builder_new_def with_codec_def with_outbound_queue_capacity_def channel_capacity_def
      plain_codec_def try_send_notify_def try_send_frame_def sender_tx_def)

theorem handles_keep_core_witness:
  "\<exists>s. conn_run fifo_ops count_up 5 client_ops client_one = Some s \<and> WeakNotify \<in> set (weaks s) \<and>
     strong s = 0 \<and> notify_upgrade s = None"
proof -
  obtain s where run: "conn_run fifo_ops count_up 5 client_ops client_one = Some s"
    and s: "handles s = []" "read_phase s = ReadParked" "weaks s = [WeakNotify]"
    using client_ops_end by blast
  have "conn_reach fifo_ops count_up 5 client_one s" by (rule conn_run_reach [OF conn_start run])
  from handles_keep_core [OF fifo.mpsc_channel_axioms client_one_started this] show ?thesis
    using run s by auto
qed

text \<open>C11: A connection nobody holds any more winds down by itself. When the last owner is gone, in
  whatever order handles, messages, futures and tasks gave up their references: the core has
  been dropped and no weak handle can be upgraded. A suspended read task has been woken: if
  its next poll takes the signal branch it returns \<open>AllHandleDropped\<close>, and if it takes the
  receive branch, with whatever the transport has for it, it returns as well, with the
  transport's error, with \<open>Eof\<close> or with \<open>AllHandleDropped\<close>, and handles no frame. The writer
  task, on a transport that does not fail, returns after it has written in order the frames
  still queued, all of them unless a \<open>CloseImmediately\<close> is queued, and then those in front
  of it.\<close>

theorem connection_winds_down:
  assumes "mpsc_channel ops queue closed capacity" and "started mk b s0" and "conn_reach ops rnd t s0 s"
    and "handles s = []" and "read_guard (read_phase s) = 0" and "healthy_writer wr sent"
  shows "arc_core s = None \<and> notify_upgrade s = None \<and> request_upgrade s = None \<and>
    (read_phase s = ReadParked \<longrightarrow> t \<in> set (woken_tasks s) \<and>
       (\<exists>s'. conn_step ops rnd t ReadPoll s = Some (Done s') \<and>
          read_phase s' = ReadReturned (Inr ReadAllHandleDropped)) \<and>
       (\<forall>y. conn_step ops rnd t (ReadNext y) s = Some (Done (s\<lparr>read_phase := ReadReturned
          (case y of Inl e \<Rightarrow> Inl e | Inr None \<Rightarrow> Inr ReadEof | Inr (Some frame) \<Rightarrow> Inr ReadAllHandleDropped)\<rparr>)))) \<and>
    (\<forall>q w n. freed_channel s = Some q \<longrightarrow> length (queue q) < n \<longrightarrow>
       (\<exists>st r. write_runner n wr ops (runner_new w q None) = Some (Done (st, Returned r)) \<and>
          Returned r = drain_status True AllHandleDropped (queue q) \<and>
          sent (writer st) = sent w @
            concat (map frames_of (takeWhile (\<lambda>d. d \<noteq> CloseImmediately) (queue q)))))"
proof -
  obtain tx where "conn_inv closed tx t s0" using started_inv [OF assms(2)] by blast
  then have inv: "conn_inv closed tx t s" by (rule conn_reach_inv [OF assms(1,3)])
  then have zero: "strong s = 0" using assms(4,5) by (simp add: conn_inv_def)
  then have gone: "arc_core s = None" using arc_core_None [OF inv] by simp
  have woken: "read_phase s = ReadParked \<Longrightarrow> t \<in> set (woken_tasks s)"
    and shut: "\<And>q. freed_channel s = Some q \<Longrightarrow> closed q"
    using inv gone by (simp_all add: conn_inv_def)
  have drained: "\<exists>st r. write_runner n wr ops (runner_new w q None) = Some (Done (st, Returned r)) \<and>
          Returned r = drain_status True AllHandleDropped (queue q) \<and>
          sent (writer st) = sent w @
            concat (map frames_of (takeWhile (\<lambda>d. d \<noteq> CloseImmediately) (queue q)))"
    if q: "freed_channel s = Some q" and len: "length (queue q) < n" for q w n
  proof -
    obtain st r where "write_runner n wr ops (runner_new w q None) = Some (Done (st, r))"
      "sent (writer st) = sent w @ concat (map frames_of (takeWhile (\<lambda>d. d \<noteq> CloseImmediately) (queue q)))"
      "r = drain_status True AllHandleDropped (queue q)"
      using write_runner_healthy [OF assms(1,6), of "runner_new w q None" n] shut [OF q] len
      by (auto simp: runner_new_def)
    then show ?thesis by (cases r) (auto simp: drain_status_def split: if_split_asm)
  qed
  have next_poll: "conn_step ops rnd t (ReadNext y) s = Some (Done (s\<lparr>read_phase := ReadReturned
      (case y of Inl e \<Rightarrow> Inl e | Inr None \<Rightarrow> Inr ReadEof | Inr (Some frame) \<Rightarrow> Inr ReadAllHandleDropped)\<rparr>))"
    if "read_phase s = ReadParked" for y
    using that zero by (simp add: guarded_def read_next_def arc_upgrade_def split: sum.split option.split)
  show ?thesis
    using gone zero woken drained next_poll
    by (auto simp: notify_upgrade_def request_upgrade_def arc_upgrade_def signal_upgrade_def)
qed

theorem connection_winds_down_witness:
  "\<exists>s q s' st. conn_run fifo_ops count_up 5 client_ops client_one = Some s \<and> read_phase s = ReadParked \<and>
     freed_channel s = Some q \<and> conn_step fifo_ops count_up 5 ReadPoll s = Some (Done s') \<and>
     read_phase s' = ReadReturned (Inr ReadAllHandleDropped) \<and>
     conn_step fifo_ops count_up 5 (ReadNext (Inr None)) s = Some (Done (s\<lparr>read_phase := ReadReturned (Inr ReadEof)\<rparr>)) \<and>
     write_runner 2 list_writer fifo_ops (runner_new [] q None) =
       Some (Done (st, Returned (Inr AllHandleDropped))) \<and> writer st = [[1, 2]]"
proof -
  obtain s q where run: "conn_run fifo_ops count_up 5 client_ops client_one = Some s"
    and s: "handles s = []" "read_phase s = ReadParked" "freed_channel s = Some q" "fifo_items q = [WriteMsg [1, 2]]"
    using client_ops_end by auto
  have reach: "conn_reach fifo_ops count_up 5 client_one s" by (rule conn_run_reach [OF conn_start run])
  have guard: "read_guard (read_phase s) = 0" by (simp add: s(2))
  note facts = connection_winds_down [OF fifo.mpsc_channel_axioms client_one_started reach s(1) guard list_writer_healthy]
  obtain s' where polls: "conn_step fifo_ops count_up 5 ReadPoll s = Some (Done s')"
    "read_phase s' = ReadReturned (Inr ReadAllHandleDropped)"
    "conn_step fifo_ops count_up 5 (ReadNext (Inr None)) s = Some (Done (s\<lparr>read_phase := ReadReturned (Inr ReadEof)\<rparr>))"
    using facts s(2) by auto
  have "length (fifo_items q) < 2" by (simp add: s(4))
  then obtain st r where "write_runner 2 list_writer fifo_ops (runner_new [] q None) = Some (Done (st, Returned r))"
    "Returned r = drain_status True AllHandleDropped (fifo_items q)"
    "writer st = [] @ concat (map frames_of (takeWhile (\<lambda>d. d \<noteq> CloseImmediately) (fifo_items q)))"
    using facts s(3) by blast
  then show ?thesis using run s polls by (auto simp: drain_status_def simp del: conn_step.simps)
qed

end
