(* ===== verification/Handles_Safety.thy ===== *)
theory Handles_Safety
  imports Handles
begin

text \<open>
  The unchecked accesses over the life of a connection. The crate takes three things for
  granted that the compiler does not check: that the core a handle points to was not freed,
  that a sender's core has a channel (\<open>unwrap_unchecked\<close> in \<open>src/rpc/sender.rs\<close>), and that the
  method name of an inbound message is UTF-8 (\<open>from_utf8_unchecked\<close> in \<open>src/rpc/receiver.rs\<close>).
  The lemmas show that each operation is defined where these hold, and that they hold in
  every state that a connection with a channel reaches. Rust's rules on aliasing and data
  races are not part of the model: \<open>atomic_take_req_range\<close> writes to the identifier of a message
  through a pointer cast from a shared reference, which the model has as an update.
\<close>

subsection \<open>Operations are defined\<close>

lemma obind_Undef_iff: "obind m f = Undef \<longleftrightarrow> m = Undef \<or> (\<exists>x. m = Done x \<and> f x = Undef)"
  by (cases m) auto

lemma never_undef [simp]:
  "unwrap x \<noteq> Undef" "rust_assert c \<noteq> Undef" "index_range bs lo hi \<noteq> Undef" "index_by bs r \<noteq> Undef"
  by (auto simp: unwrap_def rust_assert_def index_by_def index_range_def split: option.split prod.split)

lemma sender_tx_Undef: "sender_tx core = Undef \<longleftrightarrow> t_tx_deferred core = None"
  by (simp add: sender_tx_def unwrap_unchecked_def split: option.split)

lemma sender_reqs_Undef [simp]: "sender_reqs core \<noteq> Undef"
  by (simp add: sender_reqs_def)

lemma free_defined [simp]: "free_request_id c i \<noteq> Undef"
  by (simp add: free_request_id_def obind_Undef_iff)

lemma drop_unsent_defined [simp]: "drop_unsent core r \<noteq> Undef"
  by (auto simp: drop_unsent_def rr_drop_def try_unregister_def obind_Undef_iff split: option.splits)

lemma convert_defined [simp]: "convert_deferred_write_err e \<noteq> Undef"
  by (induction e rule: convert_deferred_write_err.induct) simp_all

lemma try_send_frame_defined: "t_tx_deferred core \<noteq> None \<Longrightarrow> try_send_frame ops core msg \<noteq> Undef"
  by (auto simp: try_send_frame_def obind_Undef_iff sender_tx_Undef split: prod.splits sum.splits)

lemma request_encode_defined [simp]: "request_encode core rnd g buf m p \<noteq> Undef"
  by (auto simp: request_encode_def obind_Undef_iff split: prod.splits)

lemma try_send_request_defined:
  assumes "t_tx_deferred core \<noteq> None"
  shows "try_send_request ops core rnd g buf m p \<noteq> Undef"
proof -
  have "try_send_frame ops core1 msg \<noteq> Undef"
    if "request_encode core rnd g buf m p = Done (core1, buf1, g1, r)" for core1 buf1 g1 r msg
    using request_encode_shape [OF that] assms
    by (intro try_send_frame_defined) (simp add: same_shape_def)
  then show ?thesis
    by (auto simp: try_send_request_def obind_Undef_iff rr_request_id_def split: sum.splits option.splits prod.splits)
qed

lemma sender_step_defined:
  assumes "t_tx_deferred core \<noteq> None"
  shows "sender_step ops rnd (core, g) x \<noteq> Undef"
  using assms
  by (cases x)
    (auto simp: try_send_notify_def try_burst_def try_flush_writer_def try_shutdown_writer_def sender_tx_Undef
      obind_Undef_iff try_send_frame_defined try_send_request_defined split: prod.splits sum.splits option.splits)

lemma send_frame_defined: "t_tx_deferred core \<noteq> None \<Longrightarrow> send_frame ops core msg \<noteq> Undef"
  by (auto simp: send_frame_def obind_Undef_iff sender_tx_Undef split: prod.splits poll.splits)

lemma action_defined:
  assumes "t_tx_deferred core \<noteq> None"
  shows "flush_writer ops core \<noteq> Undef" and "shutdown_writer ops core d \<noteq> Undef"
  using assms
  by (auto simp: flush_writer_def shutdown_writer_def obind_Undef_iff sender_tx_Undef
      split: prod.splits poll.splits sum.splits)

lemma send_request_defined:
  assumes "t_tx_deferred core \<noteq> None"
  shows "send_request ops core rnd g buf m p \<noteq> Undef"
proof -
  have "send_frame ops core1 msg \<noteq> Undef"
    if "request_encode core rnd g buf m p = Done (core1, buf1, g1, r)" for core1 buf1 g1 r msg
    using request_encode_shape [OF that] assms
    by (intro send_frame_defined) (simp add: same_shape_def)
  then show ?thesis
    by (auto simp: send_request_def obind_Undef_iff rr_request_id_def
        split: sum.splits option.splits prod.splits poll.splits)
qed

lemma sender_await_defined:
  assumes "t_tx_deferred core \<noteq> None"
  shows "sender_await ops rnd (core, g) x \<noteq> Undef"
  using assms
  by (cases x)
    (auto simp: send_notify_def burst_def obind_Undef_iff send_frame_defined send_request_defined action_defined
      split: prod.splits sum.splits option.splits poll.splits)

lemma sender_resume_defined:
  assumes "t_tx_deferred core \<noteq> None"
  shows "sender_resume ops core p \<noteq> Undef"
  using assms
  by (cases p)
    (auto simp: obind_Undef_iff send_frame_defined action_defined split: prod.splits sum.splits poll.splits)

lemma sender_cancel_defined [simp]: "sender_cancel core p \<noteq> Undef"
  by (cases p) simp_all

lemma respond_defined [simp]: "respond ops core ib buf p \<noteq> Undef"
  by (auto simp: respond_def inbound_encode_response_def retrieve_req_id_def obind_Undef_iff
      split: prod.splits sum.splits option.splits poll.splits)

lemma respond_resume_defined [simp]: "respond_resume ops frame core \<noteq> Undef"
  by (simp add: respond_resume_def)

lemma try_response_defined [simp]: "try_response ops core ib buf p \<noteq> Undef"
  by (auto simp: try_response_def inbound_encode_response_def retrieve_req_id_def obind_Undef_iff
      split: prod.splits sum.splits option.splits)

lemma inbound_drop_defined [simp]: "inbound_drop ops core ib \<noteq> Undef"
  by (simp add: inbound_drop_def obind_Undef_iff split: prod.split)

lemma drop_guard_defined [simp]: "drop_guard ops h core \<noteq> Undef"
  by (cases h) simp_all

lemma handle_inbound_defined:
  assumes "\<And>sc f. decode_inbound (core_codec core) sc f \<noteq> Undef"
  shows "handle_inbound_once core frame scratch \<noteq> Undef"
  using assms
  by (auto simp: handle_inbound_once_def check_method_def method_bytes_def handle_response_def obind_Undef_iff
      split: prod.splits sum.splits option.splits inbound_frame_type.splits)

lemma with_core_defined:
  "arc_core s = Some core \<Longrightarrow> f core \<noteq> Undef \<Longrightarrow> with_core f s \<noteq> Undef"
  by (simp add: with_core_def obind_Undef_iff)

lemma deliver_frame_defined:
  "arc_core s = Some core \<Longrightarrow> (\<And>sc f. decode_inbound (core_codec core) sc f \<noteq> Undef) \<Longrightarrow> deliver_frame frame s \<noteq> Undef"
  by (simp add: deliver_frame_def obind_Undef_iff handle_inbound_defined split: prod.split)

lemma with_owner_defined:
  "arc_core s = Some core \<Longrightarrow> f core \<noteq> Undef \<Longrightarrow> with_owner h f s \<noteq> Undef"
  by (auto simp: with_owner_def obind_Undef_iff)

lemma receive_poll_defined [simp]: "receive_poll tc h \<noteq> Undef"
  by (simp add: receive_poll_def split: response_state.split)

lemma rr_poll_defined [simp]: "rr_poll c u tc r \<noteq> Undef"
  by (auto simp: rr_poll_def try_unregister_def obind_Undef_iff split: option.splits prod.splits poll.splits)

lemma rr_try_recv_defined [simp]: "rr_try_recv c tc r \<noteq> Undef"
  by (auto simp: rr_try_recv_def try_unregister_def obind_Undef_iff split: option.splits prod.splits poll.splits)

lemma borrowed_defined [simp]: "borrowed_poll u r core \<noteq> Undef" "borrowed_try_recv r core \<noteq> Undef"
  by (auto simp: borrowed_poll_def borrowed_try_recv_def obind_Undef_iff)

subsection \<open>Messages stay readable\<close>

text \<open>The state of a message in the hands of a user: its method name can be read.\<close>

fun readable :: "owner \<Rightarrow> bool" where
  "readable (InboundHandle ib) \<longleftrightarrow> inbound_method ib \<noteq> Undef"
| "readable _ \<longleftrightarrow> True"

lemma readable_same:
  assumes "ib_buffer ib' = ib_buffer ib" and "ib_method ib' = ib_method ib"
  shows "inbound_method ib' = inbound_method ib"
  using assms by (simp add: inbound_method_def method_bytes_def)

lemma try_response_message:
  assumes "try_response ops core ib buf p = Done (core', ib', buf', r)"
  shows "ib_buffer ib' = ib_buffer ib \<and> ib_method ib' = ib_method ib"
  using assms
  by (auto simp: try_response_def inbound_encode_response_def atomic_take_req_range_def elim!: obind_DoneE
      split: done_splits)

lemma respond_message:
  assumes "respond ops core ib buf p = Done (core', ib', buf', r)"
  shows "ib_buffer ib' = ib_buffer ib \<and> ib_method ib' = ib_method ib"
  using assms
  by (auto simp: respond_def inbound_encode_response_def atomic_take_req_range_def elim!: obind_DoneE
      split: done_splits poll.split_asm)

lemma message_parts_readable:
  assumes "inbound_method ib \<noteq> Undef"
  shows "inbound_method (fst (inbound_take ib)) \<noteq> Undef" and "inbound_method (snd (inbound_take ib)) \<noteq> Undef"
    and "inbound_method (fst (clone_message ib b)) \<noteq> Undef" and "inbound_method (snd (clone_message ib b)) \<noteq> Undef"
    and "inbound_method (drop_request ib) \<noteq> Undef"
proof -
  have "inbound_method (fst (inbound_take ib)) = Done []"
    by (simp add: inbound_take_def atomic_take_req_range_def inbound_method_def method_bytes_def range_default_def
        index_by_eq index_range_def sub_bytes_def)
  then show "inbound_method (fst (inbound_take ib)) \<noteq> Undef" by simp
  have same: "inbound_method ib1 \<noteq> Undef" if "ib_buffer ib1 = ib_buffer ib" "ib_method ib1 = ib_method ib" for ib1
    using assms readable_same [OF that] by simp
  show "inbound_method (snd (inbound_take ib)) \<noteq> Undef" "inbound_method (fst (clone_message ib b)) \<noteq> Undef"
    "inbound_method (snd (clone_message ib b)) \<noteq> Undef" "inbound_method (drop_request ib) \<noteq> Undef"
    by (rule same; simp add: inbound_take_def clone_message_def drop_request_def atomic_take_req_range_def)+
qed

lemma handles_grow:
  assumes "with_owner h f s = Done s'" and "\<And>core core' h'. f core = Done (core', h') \<Longrightarrow> P h'"
    and "\<forall>h \<in> set (handles s). P h"
  shows "\<forall>h \<in> set (handles s'). P h"
  using assms
  by (auto simp: with_owner_def obind_Done_iff split: option.split_asm dest: subsetD [OF set_remove1_subset])

lemma release_handles [simp]: "handles (release ops s) = handles s"
  by (simp add: release_def split: option.split)

lemma with_core_handles: "with_core f s = Done s' \<Longrightarrow> handles s' = handles s"
  by (auto simp: with_core_def obind_Done_iff split: option.split_asm)

lemma deliver_frame_readable:
  assumes "deliver_frame frame s = Done s'" and "\<forall>h \<in> set (handles s). readable h"
  shows "\<forall>h \<in> set (handles s'). readable h"
  using assms
  by (auto simp: deliver_frame_def acquire_def method_ok_def elim!: obind_DoneE split: option.splits sum.splits
      dest!: handle_inbound_once_message)

lemma inbound_split_readable:
  assumes "inbound_split ib parts s = Done s'" and "\<forall>h \<in> set (handles s). readable h"
    and "inbound_method (fst parts) \<noteq> Undef" and "inbound_method (snd parts) \<noteq> Undef"
  shows "\<forall>h \<in> set (handles s'). readable h"
proof -
  obtain s1 where s1: "with_owner (InboundHandle ib) (\<lambda>core. Done (core, InboundHandle (fst parts))) s = Done s1"
    and s': "s' = (acquire s1)\<lparr>handles := InboundHandle (snd parts) # handles s1\<rparr>"
    using assms(1) by (auto simp: inbound_split_def obind_Done_iff)
  have "\<forall>h \<in> set (handles s1). readable h"
    by (rule handles_grow [OF s1 _ assms(2)]) (use assms(3) in auto)
  then show ?thesis using assms(4) by (simp add: s')
qed

lemma upgrade_handles: "arc_upgrade s = Some s' \<Longrightarrow> handles s' = handles s"
  by (auto simp: arc_upgrade_def acquire_def split: if_split_asm)

lemma conn_step_readable:
  assumes step: "conn_step ops rnd t x s = Some (Done s')" and all: "\<forall>h \<in> set (handles s). readable h"
  shows "\<forall>h \<in> set (handles s'). readable h"
proof -
  have more: "\<forall>h' \<in> set (h # handles s). readable h'" if "readable h" for h using that all by simp
  have less: "\<forall>h' \<in> set (remove1 h (handles s)). readable h'" for h
    using all set_remove1_subset [of h "handles s"] by blast
  note unf = guarded_def notify_clone_def request_clone_def into_request_sender_def notify_downgrade_def
    request_downgrade_def weak_clone_def notify_upgrade_def request_upgrade_def receiver_notify_sender_def
    inbound_sender_handle_def future_into_owned_def acquire_def
  show ?thesis
  proof (cases x)
    case (Respond ib result)
    then have "inbound_respond ops ib result s = Done s'" and "readable (InboundHandle ib)"
      using step all by (auto simp: guarded_def split: if_split_asm)
    then show ?thesis unfolding inbound_respond_def
      by (elim handles_grow [where P = readable])
        (use all in \<open>auto elim!: obind_DoneE dest!: try_response_message readable_same\<close>)
  next
    case (RespondAwait ib result)
    then have "inbound_respond_await ops ib result s = Done s'" and "readable (InboundHandle ib)"
      using step all by (auto simp: guarded_def split: if_split_asm)
    then show ?thesis unfolding inbound_respond_await_def
      by (elim handles_grow [where P = readable])
        (use all in \<open>auto elim!: obind_DoneE dest!: respond_message readable_same\<close>)
  next
    case (TryRecvFuture r)
    then have "owned_future_try_recv r s = Done s'" using step by (auto simp: guarded_def split: if_split_asm)
    then show ?thesis unfolding owned_future_try_recv_def
      by (elim handles_grow [where P = readable]) (use all in \<open>auto elim!: obind_DoneE\<close>)
  next
    case (DropRequest ib)
    then have "inbound_drop_request ib s = Done s'" and "readable (InboundHandle ib)"
      using step all by (auto simp: guarded_def split: if_split_asm)
    then show ?thesis unfolding inbound_drop_request_def
      by (elim handles_grow [where P = readable]) (use all message_parts_readable in auto)
  next
    case (TakeMessage ib)
    then have "inbound_split ib (inbound_take ib) s = Done s'" and "readable (InboundHandle ib)"
      using step all by (auto simp: guarded_def split: if_split_asm)
    then show ?thesis
      using inbound_split_readable [OF _ all] message_parts_readable(1,2) [of ib] by auto
  next
    case (CloneMessage ib b)
    then have "inbound_split ib (clone_message ib b) s = Done s'" and "readable (InboundHandle ib)"
      using step all by (auto simp: guarded_def split: if_split_asm)
    then show ?thesis
      using inbound_split_readable [OF _ all] message_parts_readable(3,4) [of ib b] by auto
  next
    case (PollFuture u r)
    then have "owned_future_poll u r s = Done s'" using step by (auto simp: guarded_def split: if_split_asm)
    then show ?thesis unfolding owned_future_poll_def
      by (elim handles_grow [where P = readable]) (use all in \<open>auto elim!: obind_DoneE\<close>)
  next
    case (Recv frame)
    then show ?thesis using step deliver_frame_readable [OF _ all] by (auto simp: guarded_def split: if_split_asm)
  next
    case (Send g y)
    then show ?thesis using step all by (auto simp: guarded_def dest!: with_core_handles split: if_split_asm)
  next
    case (SendAwait g y)
    then show ?thesis using step all by (auto simp: guarded_def dest!: with_core_handles split: if_split_asm)
  next
    case (SendResume p)
    then show ?thesis using step all by (auto simp: guarded_def dest!: with_core_handles split: if_split_asm)
  next
    case (SendCancel p)
    then show ?thesis using step all by (auto simp: guarded_def dest!: with_core_handles split: if_split_asm)
  next
    case (RespondResume frame)
    then show ?thesis using step all by (auto simp: guarded_def dest!: with_core_handles split: if_split_asm)
  next
    case (PollBorrowed u r)
    then show ?thesis using step all by (auto simp: guarded_def dest!: with_core_handles split: if_split_asm)
  next
    case (TryRecvBorrowed r)
    then show ?thesis using step all by (auto simp: guarded_def dest!: with_core_handles split: if_split_asm)
  next
    case (DropBorrowed r)
    then show ?thesis using step all by (auto simp: guarded_def dest!: with_core_handles split: if_split_asm)
  next
    case (DropOwner h)
    then show ?thesis using step less
      by (auto simp: guarded_def drop_owner_def elim!: obind_DoneE dest!: with_core_handles split: if_split_asm)
  next
    case (ReadNext y)
    then have "read_next y s = Done s'" using step by (auto simp: guarded_def split: if_split_asm)
    then show ?thesis using all upgrade_handles [of s]
      by (auto simp: read_next_def split: sum.split_asm option.split_asm dest!: deliver_frame_readable)
  next
    case ReadPoll
    then show ?thesis using step all
      by (auto simp: read_first_poll_def signal_upgrade_def signal_register_def signal_pending_def read_frame_done_def
          Let_def dest!: with_core_handles upgrade_handles split: read_phase.split_asm option.split_asm)
  next
    case ReadCancel
    then show ?thesis using step all
      by (auto elim!: obind_DoneE dest!: with_core_handles split: read_phase.split_asm)
  qed (use step all less more in \<open>auto simp: unf dest!: upgrade_handles split: if_split_asm option.split_asm sum.split_asm\<close>)
qed

subsection \<open>Reachable states\<close>

lemma guard_core:
  assumes "conn_inv closed tx t s" and "handles s \<noteq> [] \<or> read_guard (read_phase s) = 1"
  obtains core where "arc_core s = Some core" "t_tx_deferred core \<noteq> None \<longleftrightarrow> tx"
  using assms by (cases "arc_core s") (auto simp: conn_inv_def core_inv_def)

lemma conn_step_defined:
  assumes inv: "conn_inv closed True t s"
    and dec: "\<And>core sc f. arc_core s = Some core \<Longrightarrow> decode_inbound (core_codec core) sc f \<noteq> Undef"
  shows "conn_step ops rnd t x s \<noteq> Some Undef"
proof (cases "handles s \<noteq> [] \<or> read_guard (read_phase s) = 1")
  case True
  obtain core where core: "arc_core s = Some core" and tx: "t_tx_deferred core \<noteq> None"
    using guard_core [OF inv True] by blast
  show ?thesis
  proof (cases x)
    case IntoRequest
    then show ?thesis using core by (auto simp: guarded_def into_request_sender_def split: sum.splits)
  next
    case (DropOwner h)
    then show ?thesis using core with_core_defined [OF core, of "drop_guard ops h"]
      by (auto simp: guarded_def drop_owner_def obind_Undef_iff)
  next
    case (Respond ib result)
    then show ?thesis using with_owner_defined [OF core]
      by (auto simp: guarded_def inbound_respond_def obind_Undef_iff)
  next
    case (DropRequest ib)
    then show ?thesis using with_owner_defined [OF core]
      by (auto simp: guarded_def inbound_drop_request_def)
  next
    case (TakeMessage ib)
    then show ?thesis using with_owner_defined [OF core]
      by (auto simp: guarded_def inbound_split_def obind_Undef_iff)
  next
    case (CloneMessage ib b)
    then show ?thesis using with_owner_defined [OF core]
      by (auto simp: guarded_def inbound_split_def obind_Undef_iff)
  next
    case (PollFuture u r)
    then show ?thesis using with_owner_defined [OF core]
      by (auto simp: guarded_def owned_future_poll_def obind_Undef_iff)
  next
    case (Send g y)
    have "obind (sender_step ops rnd (core, g) y) (\<lambda>(core', _). Done core') \<noteq> Undef"
      using sender_step_defined [OF tx, of ops rnd g y] by (auto simp: obind_Undef_iff)
    then show ?thesis using Send with_core_defined [OF core] by (auto simp: guarded_def)
  next
    case (SendAwait g y)
    have "obind (sender_await ops rnd (core, g) y) (\<lambda>(core', _). Done core') \<noteq> Undef"
      using sender_await_defined [OF tx, of ops rnd g y] by (auto simp: obind_Undef_iff)
    then show ?thesis using SendAwait with_core_defined [OF core] by (auto simp: guarded_def)
  next
    case (SendResume p)
    have "obind (sender_resume ops core p) (\<lambda>(core', _). Done core') \<noteq> Undef"
      using sender_resume_defined [OF tx, of ops p] by (auto simp: obind_Undef_iff)
    then show ?thesis using SendResume with_core_defined [OF core] by (auto simp: guarded_def)
  next
    case (SendCancel p)
    then show ?thesis using with_core_defined [OF core] by (auto simp: guarded_def)
  next
    case (RespondAwait ib result)
    then show ?thesis using with_owner_defined [OF core]
      by (auto simp: guarded_def inbound_respond_await_def obind_Undef_iff)
  next
    case (RespondResume frame)
    then show ?thesis using with_core_defined [OF core] by (auto simp: guarded_def)
  next
    case (TryRecvFuture r)
    then show ?thesis using with_owner_defined [OF core]
      by (auto simp: guarded_def owned_future_try_recv_def obind_Undef_iff)
  next
    case (PollBorrowed u r)
    then show ?thesis using with_core_defined [OF core] by (auto simp: guarded_def)
  next
    case (TryRecvBorrowed r)
    then show ?thesis using with_core_defined [OF core] by (auto simp: guarded_def)
  next
    case (DropBorrowed r)
    then show ?thesis using with_core_defined [OF core] by (auto simp: guarded_def)
  next
    case (Recv frame)
    then show ?thesis using deliver_frame_defined [OF core dec [OF core]] by (auto simp: guarded_def)
  next
    case ReadPoll
    then show ?thesis using core
      by (auto simp: signal_register_def with_core_def split: read_phase.split)
  next
    case (ReadNext y)
    have "deliver_frame frame ((acquire s)\<lparr>read_phase := p\<rparr>) \<noteq> Undef" for frame p
      by (rule deliver_frame_defined [where core = core]) (use core dec in \<open>simp_all add: acquire_def\<close>)
    then show ?thesis using ReadNext
      by (auto simp: guarded_def read_next_def arc_upgrade_def split: sum.split option.split)
  next
    case ReadCancel
    then show ?thesis using with_core_defined [OF core, of "drop_guard ops ReceiverHandle"]
      by (auto simp: obind_Undef_iff simp del: drop_guard.simps split: read_phase.split)
  qed (auto simp: guarded_def split: option.split)
next
  case False
  then have none: "handles s = []" "\<not> has_notify s" and idle: "read_guard (read_phase s) = 0"
    by (cases "read_phase s"; simp add: has_notify_def)+
  then have up: "arc_upgrade s = None" using inv by (simp add: conn_inv_def arc_upgrade_def)
  show ?thesis
  proof (cases x)
    case ReadPoll
    then show ?thesis using idle by (cases "read_phase s") simp_all
  next
    case (ReadNext y)
    have "read_next y s \<noteq> Undef" by (simp add: read_next_def up split: sum.split option.split)
    then show ?thesis using ReadNext by (simp add: guarded_def)
  next
    case ReadCancel
    then show ?thesis using idle by (cases "read_phase s") simp_all
  qed (simp_all add: guarded_def none may_resume_def)
qed

lemma conn_reach_readable:
  assumes "conn_reach ops rnd t s0 s" and "\<forall>h \<in> set (handles s0). readable h"
  shows "\<forall>h \<in> set (handles s). readable h"
  using assms(1) by induction (use assms(2) conn_step_readable in blast)+

text \<open>C5: The three unchecked accesses of the crate hold in a connection that can send. However it
  was started and whatever sequence of operations led to a state, no operation that can be
  called there uses the core after it was freed or unwraps a channel that is not there, and
  every message in the hands of a user, with all the parts split off from it, has a method
  name that the unchecked conversion of \<open>method\<close> may read. The operations are: cloning,
  upgrading, downgrading and dropping handles; all sends, tried at once or awaited, resumed or
  cancelled; answering messages, at once or awaited, taking and copying them apart; polls and
  \<open>try_recv\<close>s of owned and borrowed futures; received frames; and the steps of the read task.
  The claim assumes a codec whose decoder is defined; it does not cover Rust's rules on
  aliasing and data races.\<close>

theorem unchecked_accesses_hold:
  assumes "mpsc_channel ops queue closed capacity" and "started mk b s0" and "conn_reach ops rnd t s0 s"
    and "arc_core s0 = Some core0" and "t_tx_deferred core0 \<noteq> None"
    and "\<And>core sc f. arc_core s = Some core \<Longrightarrow> decode_inbound (core_codec core) sc f \<noteq> Undef"
  shows "(\<forall>x. conn_step ops rnd t x s \<noteq> Some Undef) \<and>
    (\<forall>ib. InboundHandle ib \<in> set (handles s) \<longrightarrow> inbound_method ib \<noteq> Undef)"
proof -
  obtain tx where start: "conn_inv closed tx t s0" using started_inv [OF assms(2)] by blast
  then have "tx" using assms(4,5) by (simp add: conn_inv_def core_inv_def)
  then have inv: "conn_inv closed True t s" using conn_reach_inv [OF assms(1,3)] start by simp
  have "\<forall>h \<in> set (handles s0). readable h"
    using assms(2) by (auto simp: started_def conn_new_def)
  then have readable: "\<forall>h \<in> set (handles s). readable h" by (rule conn_reach_readable [OF assms(3)])
  show ?thesis
  proof (intro conjI allI impI)
    show "conn_step ops rnd t x s \<noteq> Some Undef" for x by (rule conn_step_defined [OF inv assms(6)])
    show "inbound_method ib \<noteq> Undef" if "InboundHandle ib \<in> set (handles s)" for ib
      using bspec [OF readable that] by simp
  qed
qed

text \<open>A server that receives a notification, takes the message and lets go of the receiver.\<close>

definition server_one :: "(bytes, bytes, writer_directive fifo, unit) conn" where
  "server_one = conn_new (fst (build_server fifo_new (with_codec tag_codec builder_one) False)) ReceiverHandle False"

definition message_A :: inbound_inner where
  "message_A = inbound_new_notify [1, 0x41, 7] (RangeType 1 2) (RangeType 2 3)"

definition server_ops :: "(u64, bytes) conn_op list" where
  "server_ops = [Recv [1, 0x41, 7], TakeMessage message_A, InboundSender, DropOwner ReceiverHandle]"

lemma server_ops_end:
  "\<exists>s. conn_run fifo_ops count_up 5 server_ops server_one = Some s \<and>
     handles s = [NotifyHandle, InboundHandle (snd (inbound_take message_A)), InboundHandle (fst (inbound_take message_A))] \<and>
     map_option core_codec (arc_core s) = Some tag_codec"
proof -
  have once: "handle_inbound_once core [1, 0x41, 7] [] = Done (core, [], Inr (Some message_A))"
    if "core_codec core = tag_codec" for core :: "(bytes, bytes, writer_directive fifo, unit) rpc_core"
    using that
    by (simp add: handle_inbound_once_def tag_codec_def check_method_def method_bytes_def message_A_def
        inbound_new_notify_def range_from_def index_by_eq index_range_def sub_bytes_def utf8_valid_ascii)
  show ?thesis
    by (simp add: server_ops_def server_one_def conn_new_def guarded_def deliver_frame_def once acquire_def
        inbound_split_def with_owner_def inbound_sender_handle_def drop_owner_def with_core_def release_def
        build_server_def build_core_def with_codec_def builder_one_def with_outbound_queue_capacity_def builder_new_def)
qed

theorem unchecked_accesses_hold_witness:
  "\<exists>s. conn_run fifo_ops count_up 5 server_ops server_one = Some s \<and> length (handles s) = 3 \<and>
     conn_step fifo_ops count_up 5 (Send 1 (OpNotify [1] [2])) s \<noteq> Some Undef \<and>
     inbound_method (snd (inbound_take message_A)) \<noteq> Undef"
proof -
  obtain s where run: "conn_run fifo_ops count_up 5 server_ops server_one = Some s"
    and s: "handles s = [NotifyHandle, InboundHandle (snd (inbound_take message_A)),
      InboundHandle (fst (inbound_take message_A))]" "map_option core_codec (arc_core s) = Some tag_codec"
    using server_ops_end by blast
  have start: "started fifo_new (with_codec tag_codec builder_one) server_one"
    by (auto simp: started_def server_one_def)
  have reach: "conn_reach fifo_ops count_up 5 server_one s" by (rule conn_run_reach [OF conn_start run])
  obtain core0 where core0: "arc_core server_one = Some core0" "t_tx_deferred core0 \<noteq> None"
    by (simp add: server_one_def conn_new_def build_server_def build_core_def)
  have "decode_inbound tag_codec sc f \<noteq> Undef" for sc f by (simp add: tag_codec_def)
  then have "arc_core s = Some core \<Longrightarrow> decode_inbound (core_codec core) sc f \<noteq> Undef" for core sc f
    using s(2) by simp
  from unchecked_accesses_hold [OF fifo.mpsc_channel_axioms start reach core0 this]
  show ?thesis using run s(1) by (auto simp del: conn_step.simps)
qed

end
