(* ===== verification/Adapters.thy ===== *)
theory Adapters
  imports Writer Receiver
begin

text \<open>
  The blanket implementations of \<open>src/io.rs\<close>: every \<open>futures::Sink\<close> of frames is a transport
  to write to and every \<open>futures::Stream\<close> of frames one to read from. The sink and the
  stream are parameters: \<open>sink_send\<close> is the completed effect of \<open>SinkExt::send\<close> (waiting for
  room, sending and flushing), \<open>sink_close\<close> that of closing it, and \<open>stream_poll\<close> the item the
  stream yields once it is ready.
\<close>

record ('s, 'e) sink =
  sink_send :: "'s \<Rightarrow> bytes \<Rightarrow> 's \<times> ('e + unit)"
  sink_close :: "'s \<Rightarrow> 's \<times> ('e + unit)"

text \<open>The error is wrapped into an I/O error of kind \<open>Other\<close>, of which the model keeps the text.\<close>

definition error_mapping :: "('e \<Rightarrow> string) \<Rightarrow> 'e \<Rightarrow> io_error" where
  "error_mapping display e = IoError (display e)"

definition sink_write_frame ::
  "('e \<Rightarrow> string) \<Rightarrow> ('s, 'e) sink \<Rightarrow> 's \<Rightarrow> bytes \<Rightarrow> 's \<times> (io_error + unit)" where
  "sink_write_frame display S s buf =
     (case sink_send S s buf of (s', r) \<Rightarrow> (s', map_err (error_mapping display) r))"

text \<open>The implementation leaves the other three methods at their defaults.\<close>

definition sink_writer :: "('e \<Rightarrow> string) \<Rightarrow> ('s, 'e) sink \<Rightarrow> 's frame_writer" where
  "sink_writer display S = default_writer (sink_write_frame display S)"

fun transpose_next :: "(io_error + bytes) option \<Rightarrow> read_result" where
  "transpose_next None = Inr None"
| "transpose_next (Some (Inl e)) = Inl e"
| "transpose_next (Some (Inr b)) = Inr (Some b)"

definition stream_next :: "('s \<Rightarrow> 's \<times> (io_error + bytes) option) \<Rightarrow> 's \<Rightarrow> 's \<times> read_result" where
  "stream_next stream_poll s = (case stream_poll s of (s', item) \<Rightarrow> (s', transpose_next item))"

subsection \<open>What the writer task does to a sink\<close>

definition sent :: "('s, 'e) sink \<Rightarrow> bytes list \<Rightarrow> 's \<Rightarrow> 's" where
  "sent S fs s = fold (\<lambda>b s. fst (sink_send S s b)) fs s"

lemma sent_simps [simp]:
  "sent S [] s = s" "sent S (b # bs) s = sent S bs (fst (sink_send S s b))"
  "sent S (xs @ ys) s = sent S ys (sent S xs s)"
  by (simp_all add: sent_def)

lemma sink_writer_fields:
  "fw_write_frame (sink_writer display S) s b =
     (fst (sink_send S s b), map_err (error_mapping display) (snd (sink_send S s b)))"
  "fw_flush (sink_writer display S) s = (s, Inr ())" "fw_close (sink_writer display S) s = (s, Inr ())"
  by (simp_all add: sink_writer_def default_writer_def sink_write_frame_def default_flush_def default_close_def
      split: prod.split)

lemma sink_burst_prefix:
  "\<exists>k \<le> length bs. fst (fw_write_frame_burst (sink_writer display S) s bs) = sent S (take k bs) s \<and>
     (snd (fw_write_frame_burst (sink_writer display S) s bs) = Inr () \<longrightarrow> k = length bs)"
proof (induction bs arbitrary: s)
  case Nil
  then show ?case by (simp add: sink_writer_def default_writer_def)
next
  case (Cons b bs)
  show ?case
  proof (cases "snd (sink_send S s b)")
    case (Inl e)
    then obtain s1 where "sink_send S s b = (s1, Inl e)" by (cases "sink_send S s b") simp
    then show ?thesis
      by (intro exI [of _ 1]) (simp add: sink_writer_def default_writer_def sink_write_frame_def)
  next
    case (Inr u)
    then obtain s1 where s1: "sink_send S s b = (s1, Inr ())" by (cases "sink_send S s b") simp
    obtain k where "k \<le> length bs"
      "fst (fw_write_frame_burst (sink_writer display S) (fst (sink_send S s b)) bs) = sent S (take k bs) (fst (sink_send S s b))"
      "snd (fw_write_frame_burst (sink_writer display S) (fst (sink_send S s b)) bs) = Inr () \<longrightarrow> k = length bs"
      using Cons by blast
    then show ?thesis using s1
      by (intro exI [of _ "Suc k"]) (simp add: sink_writer_def default_writer_def sink_write_frame_def)
  qed
qed

text \<open>What is left of the queue when the task stops; the frames in front of it were sent.\<close>

lemma deliver_sink_prefix:
  "deliver (sink_writer display S) cl s up ex ds = Done (s', up', r) \<Longrightarrow>
   \<exists>k \<le> length (concat (map frames_of ds)). s' = sent S (take k (concat (map frames_of ds))) s"
proof (induction ds arbitrary: cl s up ex)
  case Nil
  then show ?case by simp
next
  case (Cons d ds)
  have one: ?case if "frames_of d = [b]"
    and "s' = fst (sink_send S s b) \<or> deliver (sink_writer display S) cl (fst (sink_send S s b)) up ex ds = Done (s', up', r)" for b
    using that(2)
  proof
    assume "s' = fst (sink_send S s b)"
    then show ?thesis using that(1) by (intro exI [of _ 1]) simp
  next
    assume "deliver (sink_writer display S) cl (fst (sink_send S s b)) up ex ds = Done (s', up', r)"
    then obtain k where "k \<le> length (concat (map frames_of ds))"
      "s' = sent S (take k (concat (map frames_of ds))) (fst (sink_send S s b))"
      using Cons.IH by blast
    then show ?thesis using that(1) by (intro exI [of _ "Suc k"]) simp
  qed
  show ?case
  proof (cases d)
    case (WriteMsg b)
    show ?thesis
      by (rule one [of b]) (use WriteMsg Cons.prems in \<open>auto simp: sink_writer_fields split: sum.split_asm\<close>)
  next
    case (WriteReqMsg b i)
    show ?thesis
    proof (rule one [of b])
      show "s' = fst (sink_send S s b) \<or> deliver (sink_writer display S) cl (fst (sink_send S s b)) up ex ds = Done (s', up', r)"
      proof (cases up)
        case None
        then show ?thesis using WriteReqMsg Cons.prems by (simp add: sink_writer_fields)
      next
        case (Some reqs)
        then show ?thesis using WriteReqMsg Cons.prems
          by (cases reqs; cases "snd (sink_send S s b)") (simp_all add: sink_writer_fields)
      qed
    qed (simp add: WriteReqMsg)
  next
    case (WriteMsgBurst bs)
    obtain k where k: "k \<le> length bs"
      "fst (fw_write_frame_burst (sink_writer display S) s bs) = sent S (take k bs) s"
      "snd (fw_write_frame_burst (sink_writer display S) s bs) = Inr () \<longrightarrow> k = length bs"
      using sink_burst_prefix [of bs display S s] by auto
    show ?thesis
    proof (cases "snd (fw_write_frame_burst (sink_writer display S) s bs)")
      case (Inl e)
      then have "s' = sent S (take k bs) s"
        using Cons.prems WriteMsgBurst k(2) by (simp add: Let_def split: prod.split_asm)
      then show ?thesis using k(1) WriteMsgBurst by (intro exI [of _ k]) simp
    next
      case (Inr u)
      then have "deliver (sink_writer display S) cl (sent S bs s) up ex ds = Done (s', up', r)"
        using Cons.prems WriteMsgBurst k(2,3) by (simp add: Let_def split: prod.split_asm)
      then obtain j where "j \<le> length (concat (map frames_of ds))"
        "s' = sent S (take j (concat (map frames_of ds))) (sent S bs s)"
        using Cons.IH by blast
      then show ?thesis using WriteMsgBurst by (intro exI [of _ "length bs + j"]) simp
    qed
  next
    case CloseImmediately
    then show ?thesis using Cons.prems by (intro exI [of _ 0]) (simp add: sink_writer_fields)
  next
    case CloseAfterFlush
    then show ?thesis using Cons by simp
  next
    case Flush
    then show ?thesis using Cons by (simp add: sink_writer_fields)
  qed
qed

subsection \<open>Properties\<close>

text \<open>C35: A connection over a sink sends a prefix of the queued frames and does nothing else: whatever
  the directives, the transport's errors and the end of the task, the final state of the
  sink is that of sending the first so many frames of the queue, in order, each once; no
  directive, not even a shutdown, ever closes the sink.\<close>

theorem sink_is_sent_a_prefix:
  assumes "mpsc_channel ops queue closed capacity" and "exit_type st \<noteq> ManualCloseImmediate"
    and "length (queue (rx_directive st)) < n"
    and "write_runner n (sink_writer display S) ops st = Some (Done (st', r))"
  shows "\<exists>k \<le> length (concat (map frames_of (queue (rx_directive st)))).
    writer st' = sent S (take k (concat (map frames_of (queue (rx_directive st))))) (writer st)"
proof -
  have "map_outcome abs_run (Done (st', r)) = map_outcome expire_after
      (deliver (sink_writer display S) (closed (rx_directive st)) (writer st) (w_ctx st) (exit_type st)
        (queue (rx_directive st)))"
    using write_runner_refines_deliver_out [where wr = "sink_writer display S", OF assms(1,2,3)] assms(4) by simp
  then obtain up' where "deliver (sink_writer display S) (closed (rx_directive st)) (writer st) (w_ctx st)
      (exit_type st) (queue (rx_directive st)) = Done (writer st', up', r)"
    by (cases "deliver (sink_writer display S) (closed (rx_directive st)) (writer st) (w_ctx st)
        (exit_type st) (queue (rx_directive st))") (auto simp: abs_run_def expire_after_def)
  then show ?thesis by (rule deliver_sink_prefix)
qed

text \<open>A sink that takes two frames and fails on the third.\<close>

definition short_sink :: "(bytes list, unit) sink" where
  "short_sink = \<lparr>sink_send = (\<lambda>s b. if length s < 2 then (s @ [b], Inr ()) else (s, Inl ())),
     sink_close = (\<lambda>s. ([], Inr ()))\<rparr>"

theorem sink_is_sent_a_prefix_witness:
  "\<exists>st'. write_runner 4 (sink_writer (\<lambda>_. ''full'') short_sink) fifo_ops
       (runner_of [WriteMsg [1], WriteMsgBurst [[2], [3], [4]], WriteMsg [5]] False) =
     Some (Done (st', Returned (Inl (WriteFailed (IoError ''full''))))) \<and>
   (\<exists>k \<le> 5. writer st' = sent short_sink (take k [[1], [2], [3], [4], [5]]) [])"
proof -
  obtain st' where run: "write_runner 4 (sink_writer (\<lambda>_. ''full'') short_sink) fifo_ops
       (runner_of [WriteMsg [1], WriteMsgBurst [[2], [3], [4]], WriteMsg [5]] False) =
     Some (Done (st', Returned (Inl (WriteFailed (IoError ''full'')))))"
    by (simp add: write_runner_def eval_nat_numeral sink_writer_def default_writer_def sink_write_frame_def
        short_sink_def error_mapping_def fifo_ops_def runner_of_def runner_new_def)
  show ?thesis
    using run sink_is_sent_a_prefix [OF fifo.mpsc_channel_axioms _ _ run] by (simp add: eval_nat_numeral)
qed

end
