(* ===== verification/Dynamic_Codec.thy ===== *)
theory Dynamic_Codec
  imports Codec_Contract Rawrpc
begin

text \<open>
  The module \<open>dynamic\<close> of \<open>src/codec.rs\<close>: the object-safe trait \<open>DynCodec\<close>, which every codec
  implements, and the codec \<open>Arc<dyn DynCodec>\<close> that goes through it. A value crosses as a
  serializable trait object and a deserializer as a boxed one; both come from the crate
  \<open>erased_serde\<close>, a parameter here.
\<close>

subsection \<open>Deserializers\<close>

text \<open>The methods of serde's \<open>Deserializer\<close> with their arguments other than the visitor.\<close>

datatype de_method =
  DeAny | DeBool | DeI8 | DeI16 | DeI32 | DeI64 | DeI128 | DeU8 | DeU16 | DeU32 | DeU64 | DeU128
| DeF32 | DeF64 | DeChar | DeStr | DeString | DeBytes | DeByteBuf | DeOption | DeUnit
| DeUnitStruct string | DeNewtypeStruct string | DeSeq | DeTuple usize | DeTupleStruct string usize
| DeMap | DeIdentifier | DeIgnoredAny | DeEnum string "string list" | DeStruct string "string list"

text \<open>
  \<open>'v\<close> are the visitors and \<open>'a\<close> their values; of an error the model keeps the text. A
  deserializer is used for one value only, in the source as here, so that what a call leaves of
  it is not kept.
\<close>

record ('v, 'a) deserializer =
  de_call :: "de_method \<Rightarrow> 'v \<Rightarrow> string + 'a"
  de_human_readable :: bool

record ('v, 'a) as_deserializer =
  ad_deserializer :: "('v, 'a) deserializer"
  ad_human_readable :: bool

subsection \<open>Erased values\<close>

text \<open>
  \<open>erase_ser\<close> makes a trait object of a value and \<open>ser_of\<close> is the object as a serializable
  value again; \<open>erase_de\<close> and \<open>de_of\<close> are the same for deserializers, and \<open>de_custom\<close> is the
  text of the error that \<open>Error::custom\<close> makes of a message.
\<close>

record ('p, 'o, 'v, 'a, 'b) erased_ops =
  erase_ser :: "'p \<Rightarrow> 'o"
  ser_of :: "'o \<Rightarrow> 'p"
  erase_de :: "('v, 'a) deserializer \<Rightarrow> 'b"
  de_of :: "'b \<Rightarrow> ('v, 'a) deserializer"
  de_custom :: "string \<Rightarrow> string"

text \<open>What the crate documents: erasing a value changes nothing but its static type.\<close>

locale erased_serde =
  fixes E :: "('p, 'o, 'v, 'a, 'b) erased_ops"
  assumes ser_erased: "ser_of E (erase_ser E p) = p"
    and de_erased: "de_of E (erase_de E d) = d"
    and custom_text: "de_custom E msg = msg"

subsection \<open>The object-safe trait\<close>

record ('o, 'b) dyn_codec =
  dynamic_payload_deserializer :: "bytes \<Rightarrow> serde_error + 'b"
  dyn_codec_reusability_id :: usize
  dyn_encode_notify :: "bytes \<Rightarrow> 'o \<Rightarrow> bytes \<Rightarrow> bytes \<times> (encode_error + unit)"
  dyn_encode_request :: "request_id \<Rightarrow> bytes \<Rightarrow> 'o \<Rightarrow> bytes \<Rightarrow> bytes \<times> (encode_error + request_id)"
  dyn_encode_response :: "bytes \<Rightarrow> 'o encode_response_payload \<Rightarrow> bytes \<Rightarrow> bytes \<times> (encode_error + unit)"
  dyn_decode_inbound ::
    "bytes \<Rightarrow> bytes \<Rightarrow> (bytes \<times> bytes \<times> (decode_error + inbound_frame_type)) outcome"
  dyn_restore_request_id :: "bytes \<Rightarrow> decode_error + request_id"

text \<open>The forwarding deserializer: \<open>fwd!\<close> for each method.\<close>

definition wrapper ::
  "('p, 'o, 'v, 'a, 'b) erased_ops \<Rightarrow> ('v, 'a) as_deserializer \<Rightarrow> ('v, 'a) deserializer" where
  "wrapper E as_de =
     \<lparr>de_call = (\<lambda>m visitor. map_err (de_custom E) (de_call (ad_deserializer as_de) m visitor)),
      de_human_readable = ad_human_readable as_de\<rparr>"

text \<open>\<open>EncodeResponsePayload\<close> of an object, whose \<open>Serialize\<close> is that of the object.\<close>

fun payload_of_objects :: "('o \<Rightarrow> 'p) \<Rightarrow> 'o encode_response_payload \<Rightarrow> 'p encode_response_payload" where
  "payload_of_objects ser (PayloadOk s) = PayloadOk (ser s)"
| "payload_of_objects ser (ErrCodeOnly e) = ErrCodeOnly e"
| "payload_of_objects ser (ErrObjectOnly s) = ErrObjectOnly (ser s)"
| "payload_of_objects ser (PayloadErr e s) = PayloadErr e (ser s)"

text \<open>\<open>impl<T: Codec> DynCodec for T\<close>.\<close>

definition dyn_of_codec ::
  "('p, 'o, 'v, 'a, 'b) erased_ops \<Rightarrow> ('p, ('v, 'a) as_deserializer) codec \<Rightarrow> ('o, 'b) dyn_codec" where
  "dyn_of_codec E c =
     \<lparr>dynamic_payload_deserializer = (\<lambda>payload.
        case payload_deserializer c payload of
          Inl e \<Rightarrow> Inl e
        | Inr as_de \<Rightarrow> Inr (erase_de E (wrapper E as_de))),
      dyn_codec_reusability_id = codec_reusability_id c,
      dyn_encode_notify = (\<lambda>method params. encode_notify c method (ser_of E params)),
      dyn_encode_request = (\<lambda>i method params. encode_request c i method (ser_of E params)),
      dyn_encode_response = (\<lambda>raw result. encode_response c raw (payload_of_objects (ser_of E) result)),
      dyn_decode_inbound = decode_inbound c,
      dyn_restore_request_id = restore_request_id c\<rparr>"

subsection \<open>The dynamic codec\<close>

fun erase_payload :: "('p \<Rightarrow> 'o) \<Rightarrow> 'p encode_response_payload \<Rightarrow> 'o encode_response_payload" where
  "erase_payload ref_body (PayloadOk s) = PayloadOk (ref_body s)"
| "erase_payload ref_body (ErrCodeOnly e) = ErrCodeOnly e"
| "erase_payload ref_body (ErrObjectOnly s) = ErrObjectOnly (ref_body s)"
| "erase_payload ref_body (PayloadErr e s) = PayloadErr e (ref_body s)"

definition boxed :: "('p, 'o, 'v, 'a, 'b) erased_ops \<Rightarrow> 'b \<Rightarrow> ('v, 'a) as_deserializer" where
  "boxed E b = \<lparr>ad_deserializer = de_of E b, ad_human_readable = de_human_readable (de_of E b)\<rparr>"

text \<open>\<open>impl Codec for Arc<dyn DynCodec>\<close>.\<close>

definition codec_of_dyn ::
  "('p, 'o, 'v, 'a, 'b) erased_ops \<Rightarrow> ('o, 'b) dyn_codec \<Rightarrow> ('p, ('v, 'a) as_deserializer) codec" where
  "codec_of_dyn E dc =
     \<lparr>codec_reusability_id = dyn_codec_reusability_id dc,
      encode_notify = (\<lambda>method params. dyn_encode_notify dc method (erase_ser E params)),
      encode_request = (\<lambda>i method params. dyn_encode_request dc i method (erase_ser E params)),
      encode_response = (\<lambda>raw result. dyn_encode_response dc raw (erase_payload (erase_ser E) result)),
      payload_deserializer = (\<lambda>payload. map_sum id (boxed E) (dynamic_payload_deserializer dc payload)),
      decode_inbound = dyn_decode_inbound dc,
      restore_request_id = dyn_restore_request_id dc\<rparr>"

definition dynamic_codec ::
  "('p, 'o, 'v, 'a, 'b) erased_ops \<Rightarrow> ('p, ('v, 'a) as_deserializer) codec
   \<Rightarrow> ('p, ('v, 'a) as_deserializer) codec" where
  "dynamic_codec E c = codec_of_dyn E (dyn_of_codec E c)"

subsection \<open>Facts\<close>

text \<open>Whether a codec answers the question for readability as its deserializers do.\<close>

definition consistent_readability :: "('p, ('v, 'a) as_deserializer) codec \<Rightarrow> bool" where
  "consistent_readability c \<longleftrightarrow> (\<forall>payload as_de. payload_deserializer c payload = Inr as_de \<longrightarrow>
     ad_human_readable as_de = de_human_readable (ad_deserializer as_de))"

context erased_serde
begin

lemma erase_payload_inverse: "payload_of_objects (ser_of E) (erase_payload (erase_ser E) r) = r"
  by (cases r) (simp_all add: ser_erased)

lemma wrapper_fields:
  "de_call (wrapper E as_de) = de_call (ad_deserializer as_de)"
  "de_human_readable (wrapper E as_de) = ad_human_readable as_de"
  by (auto simp: wrapper_def map_err_def custom_text fun_eq_iff split: sum.split)

lemma boxed_wrapper:
  "boxed E (erase_de E (wrapper E as_de)) =
     as_de\<lparr>ad_deserializer := (ad_deserializer as_de)\<lparr>de_human_readable := ad_human_readable as_de\<rparr>\<rparr>"
proof -
  have "wrapper E as_de = (ad_deserializer as_de)\<lparr>de_human_readable := ad_human_readable as_de\<rparr>"
    by (rule deserializer.equality) (simp_all add: wrapper_fields)
  then show ?thesis by (simp add: boxed_def de_erased)
qed

text \<open>All that can change is what a deserializer says of its own readability.\<close>

lemma dynamic_payload:
  "payload_deserializer (dynamic_codec E c) payload =
     map_sum id (\<lambda>as_de. as_de\<lparr>ad_deserializer := (ad_deserializer as_de)\<lparr>de_human_readable := ad_human_readable as_de\<rparr>\<rparr>)
       (payload_deserializer c payload)"
  by (simp add: dynamic_codec_def codec_of_dyn_def dyn_of_codec_def boxed_wrapper split: sum.split)

lemma dynamic_fields:
  "codec_reusability_id (dynamic_codec E c) = codec_reusability_id c"
  "encode_notify (dynamic_codec E c) = encode_notify c"
  "encode_request (dynamic_codec E c) = encode_request c"
  "encode_response (dynamic_codec E c) = encode_response c"
  "decode_inbound (dynamic_codec E c) = decode_inbound c"
  "restore_request_id (dynamic_codec E c) = restore_request_id c"
  by (simp_all add: dynamic_codec_def codec_of_dyn_def dyn_of_codec_def ser_erased erase_payload_inverse)

lemma dynamic_contract:
  "codec_contract c good_method payload_of carried good_id good_response \<Longrightarrow>
   codec_contract (dynamic_codec E c) good_method payload_of carried good_id good_response"
  by (simp add: codec_contract_def dynamic_fields)

end

text \<open>
  In the model a trait object is a function that yields the value, which satisfies the laws.
\<close>

definition thunk_erased ::
  "('p, unit \<Rightarrow> 'p, 'v, 'a, unit \<Rightarrow> ('v, 'a) deserializer) erased_ops" where
  "thunk_erased = \<lparr>erase_ser = (\<lambda>p _. p), ser_of = (\<lambda>o1. o1 ()), erase_de = (\<lambda>d _. d), de_of = (\<lambda>b. b ()),
     de_custom = (\<lambda>msg. msg)\<rparr>"

interpretation thunk: erased_serde thunk_erased
  by unfold_locales (simp_all add: thunk_erased_def)

subsection \<open>Properties\<close>

text \<open>C34: Going through the dynamic codec changes nothing. When a codec answers the question for
  human-readable data as its deserializers do, the codec \<open>Arc<dyn DynCodec>\<close> made of it is
  the codec itself: every method gives the same result, with the same buffers, the same
  errors and the same panics, for every payload variant of a response, and every
  deserializer it gives answers each of the methods of serde alike. So all that is proved of
  a connection over the codec holds of one over the dynamic codec.\<close>

theorem dynamic_codec_is_transparent:
  assumes "erased_serde E" and "consistent_readability c"
  shows "dynamic_codec E c = c"
proof (rule codec.equality)
  have "payload_deserializer (dynamic_codec E c) payload = payload_deserializer c payload" for payload
  proof (cases "payload_deserializer c payload")
    case (Inr as_de)
    then have "ad_human_readable as_de = de_human_readable (ad_deserializer as_de)"
      using assms(2) by (simp add: consistent_readability_def)
    then show ?thesis using Inr by (simp add: erased_serde.dynamic_payload [OF assms(1)])
  qed (simp add: erased_serde.dynamic_payload [OF assms(1)])
  then show "payload_deserializer (dynamic_codec E c) = payload_deserializer c" by (rule ext)
qed (simp_all add: erased_serde.dynamic_fields [OF assms(1)])

text \<open>The raw codec with a deserializer that only knows byte strings, for the witness.\<close>

definition bytes_de :: "bytes \<Rightarrow> (bytes \<Rightarrow> string + bytes, bytes) as_deserializer" where
  "bytes_de payload =
     \<lparr>ad_deserializer =
        \<lparr>de_call = (\<lambda>m visit. if m = DeBytes then visit payload else Inl ''not bytes''), de_human_readable = False\<rparr>,
      ad_human_readable = False\<rparr>"

definition bytes_codec :: "(bytes, (bytes \<Rightarrow> string + bytes, bytes) as_deserializer) codec" where
  "bytes_codec =
     \<lparr>codec_reusability_id = 1, encode_notify = raw_encode_notify wire_ops,
      encode_request = raw_encode_request wire_ops, encode_response = raw_encode_response wire_ops,
      payload_deserializer = (\<lambda>payload. Inr (bytes_de payload)), decode_inbound = raw_decode_inbound wire_ops True,
      restore_request_id = raw_restore_request_id\<rparr>"

theorem dynamic_codec_is_transparent_witness:
  "dynamic_codec thunk_erased bytes_codec = bytes_codec \<and>
   encode_response (dynamic_codec thunk_erased bytes_codec) = raw_encode_response wire_ops"
  using dynamic_codec_is_transparent [OF thunk.erased_serde_axioms, of bytes_codec]
  by (simp add: consistent_readability_def bytes_codec_def bytes_de_def)

end
