(* ===== verification/Type_Util.thy ===== *)
theory Type_Util
  imports Prelude
begin

text \<open>
  \<open>macros/src/type_util.rs\<close>: the transformations the service macro applies to the types and
  visibilities its user wrote. The syntax trees are those of the crate \<open>syn\<close>, with the
  parts the code looks at; everything else in them is kept as its tokens. Spans are left
  out. \<open>emit_error!\<close> records a compile error and goes on: the errors of a function are the
  list of its messages, in order.
\<close>

subsection \<open>Types\<close>

type_synonym tokens = string

datatype generic_param = GPLifetime string | GPOther tokens

datatype type_bound =
  BTrait "generic_param list option" tokens | BLifetime string | BVerbatim tokens | BOther tokens

datatype syn_type =
  TArray syn_type tokens | TBareFn tokens | TGroup syn_type | TImplTrait tokens | TInfer
| TMacro tokens | TNever | TParen syn_type | TPath "syn_type option" syn_path | TPtr tokens
| TReference "string option" bool syn_type
    \<comment> \<open>the lifetime, whether it is mutable, the type\<close>
| TSlice syn_type | TTraitObject "type_bound list" | TTuple "syn_type list" | TVerbatim tokens
and syn_path = SynPath (leading_colon: bool) (segments: "path_segment list")
and path_segment = Segment (seg_ident: string) (seg_args: path_arguments)
and path_arguments =
  NoArgs | AngleArgs "generic_argument list" | ParenArgs "syn_type list" "syn_type option"
and generic_argument = GLifetime string | GType syn_type | GOther tokens

definition path_as_mono_seg :: "syn_path \<Rightarrow> path_segment option" where
  "path_as_mono_seg p =
     (if leading_colon p then None
      else case segments p of [seg] \<Rightarrow> Some seg | _ \<Rightarrow> None)"

fun type_path_as_mono_seg :: "syn_type \<Rightarrow> path_segment option" where
  "type_path_as_mono_seg (TPath q p) = (if q \<noteq> None then None else path_as_mono_seg p)"
| "type_path_as_mono_seg _ = None"

subsection \<open>Lifetimes\<close>

fun is_lifetime_param :: "generic_param \<Rightarrow> bool" where
  "is_lifetime_param (GPLifetime _) = True"
| "is_lifetime_param (GPOther _) = False"

fun bound_has_lifetime :: "type_bound \<Rightarrow> bool" where
  "bound_has_lifetime (BTrait lf _) = (case lf of Some ps \<Rightarrow> list_ex is_lifetime_param ps | None \<Rightarrow> False)"
| "bound_has_lifetime (BLifetime _) = True"
| "bound_has_lifetime _ = False"

fun is_lifetime_arg :: "generic_argument \<Rightarrow> bool" where
  "is_lifetime_arg (GLifetime _) = True"
| "is_lifetime_arg _ = False"

fun segment_has_lifetime :: "path_segment \<Rightarrow> bool" where
  "segment_has_lifetime (Segment _ (AngleArgs args)) = list_ex is_lifetime_arg args"
| "segment_has_lifetime _ = False"

fun has_any_lifetime :: "syn_type \<Rightarrow> bool" where
  "has_any_lifetime (TArray t _) = has_any_lifetime t"
| "has_any_lifetime (TGroup t) = has_any_lifetime t"
| "has_any_lifetime (TParen t) = has_any_lifetime t"
| "has_any_lifetime (TPath (Some q) _) = has_any_lifetime q"
| "has_any_lifetime (TPath None p) = list_ex segment_has_lifetime (segments p)"
| "has_any_lifetime (TReference _ _ _) = True"
| "has_any_lifetime (TSlice t) = has_any_lifetime t"
| "has_any_lifetime (TTraitObject bs) = list_ex bound_has_lifetime bs"
| "has_any_lifetime (TTuple ts) = list_ex has_any_lifetime ts"
| "has_any_lifetime _ = False"

text \<open>
  \<open>replace_lifetime_occurence\<close> changes the type in place; here the new type and the errors
  are two functions over the same traversal.
\<close>

definition replace_inner :: "string \<Rightarrow> bool \<Rightarrow> string \<Rightarrow> string" where
  "replace_inner life skip_static a = (if skip_static \<and> a = ''static'' then a else life)"

fun replace_param :: "string \<Rightarrow> bool \<Rightarrow> generic_param \<Rightarrow> generic_param" where
  "replace_param life skip (GPLifetime l) = GPLifetime (replace_inner life skip l)"
| "replace_param life skip (GPOther x) = GPOther x"

fun replace_bound :: "string \<Rightarrow> bool \<Rightarrow> type_bound \<Rightarrow> type_bound" where
  "replace_bound life skip (BTrait lf x) = BTrait (map_option (map (replace_param life skip)) lf) x"
| "replace_bound life skip (BLifetime l) = BLifetime (replace_inner life skip l)"
| "replace_bound life skip b = b"

fun replace_arg :: "string \<Rightarrow> bool \<Rightarrow> generic_argument \<Rightarrow> generic_argument" where
  "replace_arg life skip (GLifetime l) = GLifetime (replace_inner life skip l)"
| "replace_arg life skip a = a"

fun replace_lifetime_occurence :: "string \<Rightarrow> bool \<Rightarrow> syn_type \<Rightarrow> syn_type"
  and replace_segment :: "string \<Rightarrow> bool \<Rightarrow> path_segment \<Rightarrow> path_segment" where
  "replace_lifetime_occurence life skip (TArray t n) = TArray (replace_lifetime_occurence life skip t) n"
| "replace_lifetime_occurence life skip (TGroup t) = TGroup (replace_lifetime_occurence life skip t)"
| "replace_lifetime_occurence life skip (TParen t) = TParen (replace_lifetime_occurence life skip t)"
| "replace_lifetime_occurence life skip (TSlice t) = TSlice (replace_lifetime_occurence life skip t)"
| "replace_lifetime_occurence life skip (TTuple ts) = TTuple (map (replace_lifetime_occurence life skip) ts)"
| "replace_lifetime_occurence life skip (TTraitObject bs) = TTraitObject (map (replace_bound life skip) bs)"
| "replace_lifetime_occurence life skip (TReference l m t) =
     TReference (Some (case l of Some lf \<Rightarrow> replace_inner life skip lf | None \<Rightarrow> life)) m
       (replace_lifetime_occurence life skip t)"
| "replace_lifetime_occurence life skip (TPath q (SynPath lc segs)) =
     TPath (map_option (replace_lifetime_occurence life skip) q)
       (SynPath lc (map (replace_segment life skip) segs))"
| "replace_lifetime_occurence life skip t = t"
| "replace_segment life skip (Segment i NoArgs) = Segment i NoArgs"
| "replace_segment life skip (Segment i (AngleArgs args)) = Segment i (AngleArgs (map (replace_arg life skip) args))"
| "replace_segment life skip (Segment i (ParenArgs ins out)) =
     Segment i (ParenArgs (map (replace_lifetime_occurence life skip) ins)
       (map_option (replace_lifetime_occurence life skip) out))"

fun bound_errors :: "type_bound \<Rightarrow> string list" where
  "bound_errors (BVerbatim _) = [''Failed to parse type'']"
| "bound_errors _ = []"

fun replace_errors :: "syn_type \<Rightarrow> string list" and segment_errors :: "path_segment \<Rightarrow> string list" where
  "replace_errors (TArray t _) = replace_errors t"
| "replace_errors (TBareFn _) = [''You can't use function type here'']"
| "replace_errors (TGroup t) = replace_errors t"
| "replace_errors (TImplTrait _) = [''You can't use impl trait here'']"
| "replace_errors TInfer = [''You can't use infer type here'']"
| "replace_errors (TMacro _) = [''You can't use macro type here'']"
| "replace_errors TNever = [''You can't use never type here'']"
| "replace_errors (TParen t) = replace_errors t"
| "replace_errors (TPtr _) = [''You can't use pointer type here'']"
| "replace_errors (TSlice t) = replace_errors t"
| "replace_errors (TVerbatim _) = [''Failed to parse type'']"
| "replace_errors (TTuple ts) = concat (map replace_errors ts)"
| "replace_errors (TTraitObject bs) = concat (map bound_errors bs)"
| "replace_errors (TReference _ _ t) = replace_errors t"
| "replace_errors (TPath q (SynPath _ segs)) =
     (case q of Some t \<Rightarrow> replace_errors t | None \<Rightarrow> []) @ concat (map segment_errors segs)"
| "segment_errors (Segment _ NoArgs) = []"
| "segment_errors (Segment _ (AngleArgs _)) = []"
| "segment_errors (Segment _ (ParenArgs ins out)) =
     concat (map replace_errors ins) @ (case out of Some t \<Rightarrow> replace_errors t | None \<Rightarrow> [])"

subsection \<open>Types for sending and for receiving\<close>

text \<open>
  A single segment \<open>__<S, D>\<close> names both types; a wrong use of it is reported and the type
  is taken as it is. The sent type becomes a reference with the lifetime \<open>'___ser\<close>.
\<close>

definition retr_type :: "generic_argument \<Rightarrow> syn_type option \<times> string list" where
  "retr_type a = (case a of GType t \<Rightarrow> (Some t, []) | _ \<Rightarrow> (None, [''Non-type generic is not allowed'']))"

definition split_ser_de_type :: "syn_type \<Rightarrow> (syn_type \<times> syn_type) option \<times> string list" where
  "split_ser_de_type t =
     (case t of
        TPath _ p \<Rightarrow>
          (case segments p of
             [Segment i (AngleArgs args)] \<Rightarrow>
               if i \<noteq> ''__'' then (None, [])
               else (case args of
                   [a, b] \<Rightarrow>
                     (case retr_type a of
                        (None, e) \<Rightarrow> (None, e)
                      | (Some s, _) \<Rightarrow> (case retr_type b of
                            (None, e) \<Rightarrow> (None, e)
                          | (Some d, _) \<Rightarrow> (Some (s, d), [])))
                 | _ \<Rightarrow> (None, [''For '__' generic type ... Expected 2 arguments'']))
           | _ \<Rightarrow> (None, []))
      | _ \<Rightarrow> (None, []))"

definition life_ser :: string where "life_ser = ''___ser''"
definition life_de :: string where "life_de = ''___de''"

definition with_reference :: "syn_type \<Rightarrow> syn_type" where
  "with_reference t =
     (case t of
        TReference _ m e \<Rightarrow> TReference (Some life_ser) m e
      | _ \<Rightarrow> TReference (Some life_ser) False t)"

definition retr_ser_de_params :: "syn_type \<Rightarrow> (syn_type \<times> syn_type) option \<times> string list" where
  "retr_ser_de_params t =
     (case split_ser_de_type t of (split, errs) \<Rightarrow>
        (let s = with_reference (case split of Some (s, _) \<Rightarrow> s | None \<Rightarrow> t);
             d = (case split of Some (_, d) \<Rightarrow> d | None \<Rightarrow> t)
         in (Some (replace_lifetime_occurence life_ser True s, replace_lifetime_occurence life_de False d),
             errs @ replace_errors s @ replace_errors d)))"

subsection \<open>Visibility\<close>

datatype syn_vis =
  VPublic
| VRestricted bool syn_path \<comment> \<open>whether there is an \<open>in\<close>, and the path\<close>
| VInherited

definition super_segment :: path_segment where
  "super_segment = Segment ''super'' NoArgs"

definition elevate_vis_level :: "syn_vis \<Rightarrow> nat \<Rightarrow> syn_vis outcome" where
  "elevate_vis_level in_vis amount =
     (if amount = 0 then Done in_vis
      else case in_vis of
        VPublic \<Rightarrow> Done in_vis
      | VRestricted in_token p \<Rightarrow>
          obind (unwrap (case segments p of [] \<Rightarrow> None | seg # _ \<Rightarrow> Some (seg_ident seg))) (\<lambda>first_ident.
            if first_ident = ''crate'' then Done in_vis
            else if in_token \<and> leading_colon p then Done in_vis
            else Done (VRestricted True (SynPath (leading_colon p)
              (replicate amount super_segment @ drop (if first_ident = ''self'' then 1 else 0) (segments p)))))
      | VInherited \<Rightarrow> Done (VRestricted True (SynPath False (replicate amount super_segment))))"

subsection \<open>String literals\<close>

text \<open>
  The argument expressions of attributes, of which only string literals are accepted; the
  value of a literal is its UTF-8 bytes.
\<close>

datatype syn_expr = ELitStr bytes | EOther tokens

definition expr_into_lit_str :: "syn_expr \<Rightarrow> bytes option \<times> string list" where
  "expr_into_lit_str e =
     (case e of ELitStr s \<Rightarrow> (Some s, []) | EOther _ \<Rightarrow> (None, [''Expected string literal'']))"

subsection \<open>What lifetimes a type has\<close>

text \<open>
  The lifetimes at the positions the code visits, \<open>None\<close> for an elided one. \<open>generic_types\<close>
  are the types in angle brackets, which the code does not visit.
\<close>

fun param_lifetimes :: "generic_param \<Rightarrow> string option list" where
  "param_lifetimes (GPLifetime l) = [Some l]"
| "param_lifetimes (GPOther _) = []"

fun bound_lifetimes :: "type_bound \<Rightarrow> string option list" where
  "bound_lifetimes (BTrait lf _) = (case lf of Some ps \<Rightarrow> concat (map param_lifetimes ps) | None \<Rightarrow> [])"
| "bound_lifetimes (BLifetime l) = [Some l]"
| "bound_lifetimes _ = []"

fun arg_lifetimes :: "generic_argument \<Rightarrow> string option list" where
  "arg_lifetimes (GLifetime l) = [Some l]"
| "arg_lifetimes _ = []"

fun lifetimes :: "syn_type \<Rightarrow> string option list" and segment_lifetimes :: "path_segment \<Rightarrow> string option list" where
  "lifetimes (TArray t _) = lifetimes t"
| "lifetimes (TGroup t) = lifetimes t"
| "lifetimes (TParen t) = lifetimes t"
| "lifetimes (TSlice t) = lifetimes t"
| "lifetimes (TTuple ts) = concat (map lifetimes ts)"
| "lifetimes (TTraitObject bs) = concat (map bound_lifetimes bs)"
| "lifetimes (TReference l _ t) = l # lifetimes t"
| "lifetimes (TPath q (SynPath _ segs)) =
     (case q of Some t \<Rightarrow> lifetimes t | None \<Rightarrow> []) @ concat (map segment_lifetimes segs)"
| "lifetimes _ = []"
| "segment_lifetimes (Segment _ NoArgs) = []"
| "segment_lifetimes (Segment _ (AngleArgs args)) = concat (map arg_lifetimes args)"
| "segment_lifetimes (Segment _ (ParenArgs ins out)) =
     concat (map lifetimes ins) @ (case out of Some t \<Rightarrow> lifetimes t | None \<Rightarrow> [])"

definition life_after :: "string \<Rightarrow> bool \<Rightarrow> string option \<Rightarrow> string option" where
  "life_after life skip l = Some (case l of Some lf \<Rightarrow> replace_inner life skip lf | None \<Rightarrow> life)"

lemma life_after_Some [simp]: "life_after life skip (Some l) = Some (replace_inner life skip l)"
  by (simp add: life_after_def)

lemma lifetimes_param: "param_lifetimes (replace_param life skip p) = map (life_after life skip) (param_lifetimes p)"
  by (cases p) simp_all

lemma lifetimes_bound: "bound_lifetimes (replace_bound life skip b) = map (life_after life skip) (bound_lifetimes b)"
  by (cases b) (simp_all add: lifetimes_param map_concat comp_def split: option.split)

lemma lifetimes_arg: "arg_lifetimes (replace_arg life skip a) = map (life_after life skip) (arg_lifetimes a)"
  by (cases a) simp_all

lemma lifetimes_replace:
  "lifetimes (replace_lifetime_occurence life skip t) = map (life_after life skip) (lifetimes t)"
  "segment_lifetimes (replace_segment life skip s) = map (life_after life skip) (segment_lifetimes s)"
  by (induction life skip t and life skip s rule: replace_lifetime_occurence_replace_segment.induct)
    (auto simp: map_concat comp_def lifetimes_bound lifetimes_arg life_after_def
      intro!: arg_cong [where f = concat] split: option.split)

lemma param_has: "is_lifetime_param p \<Longrightarrow> param_lifetimes p \<noteq> []"
  by (cases p) simp_all

lemma bound_has: "bound_has_lifetime b \<Longrightarrow> bound_lifetimes b \<noteq> []"
  using param_has by (cases b) (auto simp: list_ex_iff split: option.splits)

lemma segment_has: "segment_has_lifetime s \<Longrightarrow> segment_lifetimes s \<noteq> []"
proof (induction s rule: segment_has_lifetime.induct)
  case (1 i args)
  then obtain a where "a \<in> set args" "is_lifetime_arg a" by (auto simp: list_ex_iff)
  moreover from this(2) have "arg_lifetimes a \<noteq> []" by (cases a) simp_all
  ultimately show ?case by auto
qed simp_all

lemma has_any_lifetime_lifetimes: "has_any_lifetime t \<Longrightarrow> lifetimes t \<noteq> []"
proof (induction t rule: has_any_lifetime.induct)
  case (5 p)
  then show ?case using segment_has by (cases p) (auto simp: list_ex_iff)
next
  case (4 q p)
  then show ?case by (cases p) simp
next
  case (8 bs)
  then show ?case using bound_has by (auto simp: list_ex_iff)
next
  case (9 ts)
  then show ?case by (auto simp: list_ex_iff)
qed simp_all

lemma retr_ser_de_params_cases:
  obtains s d where "fst (retr_ser_de_params t) =
    Some (replace_lifetime_occurence life_ser True (with_reference s), replace_lifetime_occurence life_de False d)"
  by (cases "split_ser_de_type t") (auto simp: retr_ser_de_params_def Let_def)

subsection \<open>Where a visibility reaches\<close>

text \<open>
  A module is the list of its enclosing names, innermost first. A relative path starts at
  the module it is written in, a path with a leading colon does not depend on it. A path in a
  visibility starts with \<open>crate\<close>, \<open>self\<close> or \<open>super\<close> since the 2018 edition, which the crate uses;
  another one, which the compiler refuses, is read as relative.
\<close>

fun resolve :: "string list \<Rightarrow> path_segment list \<Rightarrow> string list option" where
  "resolve m [] = Some m"
| "resolve m (Segment i _ # segs) =
     (if i = ''super'' then (case m of [] \<Rightarrow> None | _ # m1 \<Rightarrow> resolve m1 segs)
      else if i = ''self'' then resolve m segs
      else if i = ''crate'' then resolve [] segs
      else resolve (i # m) segs)"

datatype vis_scope = Everywhere | Within "string list option"

fun scope_of :: "string list \<Rightarrow> syn_vis \<Rightarrow> vis_scope" where
  "scope_of m VPublic = Everywhere"
| "scope_of m VInherited = Within (Some m)"
| "scope_of m (VRestricted _ (SynPath lc segs)) = Within (resolve (if lc then [] else m) segs)"

text \<open>
  What the parser of \<open>syn\<close> makes of a visibility: the path is not empty, and without \<open>in\<close> it
  has no leading colon.
\<close>

fun vis_parsed :: "syn_vis \<Rightarrow> bool" where
  "vis_parsed (VRestricted in_token p) \<longleftrightarrow> segments p \<noteq> [] \<and> (leading_colon p \<longrightarrow> in_token)"
| "vis_parsed _ \<longleftrightarrow> True"

lemma resolve_supers:
  "length extra = n \<Longrightarrow> resolve (extra @ m) (replicate n super_segment @ segs) = resolve m segs"
  by (induction extra arbitrary: n) (auto simp: super_segment_def)

lemma resolve_self: "resolve m (Segment ''self'' a # segs) = resolve m segs"
  by simp

lemma elevate_restricted:
  assumes "vis_parsed (VRestricted in_token (SynPath lc segs))" and "length extra = n" and "0 < n"
  shows "\<exists>w. elevate_vis_level (VRestricted in_token (SynPath lc segs)) n = Done w \<and> vis_parsed w \<and>
    scope_of (extra @ m) w = scope_of m (VRestricted in_token (SynPath lc segs))"
proof -
  obtain i a segs' where segs: "segs = Segment i a # segs'"
    using assms(1) by (cases segs; cases "hd segs") auto
  consider "i = ''crate''" | "i \<noteq> ''crate''" "lc" | "i \<noteq> ''crate''" "\<not> lc" by blast
  then show ?thesis
  proof cases
    case 1
    then show ?thesis using assms segs by (simp add: elevate_vis_level_def)
  next
    case 2
    then show ?thesis using assms segs by (simp add: elevate_vis_level_def)
  next
    case 3
    then have "elevate_vis_level (VRestricted in_token (SynPath lc segs)) n =
        Done (VRestricted True (SynPath False
          (replicate n super_segment @ drop (if i = ''self'' then 1 else 0) segs)))"
      using assms segs by (simp add: elevate_vis_level_def)
    moreover have "resolve m (drop (if i = ''self'' then 1 else 0) segs) = resolve m segs"
      using segs by simp
    ultimately show ?thesis
      using resolve_supers [OF assms(2)] assms(3) 3 by (auto simp: super_segment_def)
  qed
qed

subsection \<open>Properties\<close>

text \<open>C39: The types the macro generates for a parameter or a result are well formed in their
  lifetimes: there is always a pair of them, the sent one is a reference with the lifetime
  \<open>'___ser\<close>, at every position the macro visits it has no lifetime but \<open>'___ser\<close> and
  \<open>'static\<close>, and the received one no lifetime but \<open>'___de\<close>, elided ones included. When the
  test for \<open>#[serde(borrow)]\<close> says that the received type has a lifetime, \<open>'___de\<close> does occur
  in it.\<close>

theorem generated_lifetimes:
  "\<exists>s d errs. retr_ser_de_params t = (Some (s, d), errs) \<and>
    (\<exists>m e. s = TReference (Some life_ser) m e) \<and>
    set (lifetimes s) \<subseteq> {Some life_ser, Some ''static''} \<and> set (lifetimes d) \<subseteq> {Some life_de} \<and>
    (has_any_lifetime d \<longrightarrow> Some life_de \<in> set (lifetimes d))"
proof -
  obtain s d where sd: "fst (retr_ser_de_params t) =
      Some (replace_lifetime_occurence life_ser True (with_reference s), replace_lifetime_occurence life_de False d)"
    by (rule retr_ser_de_params_cases)
  let ?s = "replace_lifetime_occurence life_ser True (with_reference s)"
  let ?d = "replace_lifetime_occurence life_de False d"
  have "\<exists>m e. ?s = TReference (Some life_ser) m e"
    by (cases s) (auto simp: with_reference_def replace_inner_def life_ser_def)
  moreover have "set (lifetimes ?s) \<subseteq> {Some life_ser, Some ''static''}"
    unfolding lifetimes_replace by (auto simp: life_after_def replace_inner_def split: option.splits if_splits)
  moreover have d: "set (lifetimes ?d) \<subseteq> {Some life_de}"
    unfolding lifetimes_replace by (auto simp: life_after_def replace_inner_def split: option.splits)
  moreover have "Some life_de \<in> set (lifetimes ?d)" if "has_any_lifetime ?d"
    using d has_any_lifetime_lifetimes [OF that] by (cases "lifetimes ?d") auto
  ultimately show ?thesis using sd by (metis prod.collapse)
qed

text \<open>The type \<open>&str\<close> for the witness.\<close>

definition str_ref :: "string option \<Rightarrow> syn_type" where
  "str_ref l = TReference l False (TPath None (SynPath False [Segment ''str'' NoArgs]))"

theorem generated_lifetimes_witness:
  "retr_ser_de_params (str_ref None) = (Some (str_ref (Some ''___ser''), str_ref (Some ''___de'')), []) \<and>
    Some ''___de'' \<in> set (lifetimes (str_ref (Some ''___de'')))"
proof -
  have "retr_ser_de_params (str_ref None) = (Some (str_ref (Some ''___ser''), str_ref (Some ''___de'')), [])"
    by (simp add: retr_ser_de_params_def split_ser_de_type_def with_reference_def life_ser_def life_de_def
        replace_inner_def str_ref_def)
  moreover have "has_any_lifetime (str_ref (Some ''___de''))" by (simp add: str_ref_def)
  ultimately show ?thesis
    using generated_lifetimes [of "str_ref None"] by (simp add: life_de_def)
qed

text \<open>The types in angle brackets are not visited: the lifetime of \<open>Option<&str>\<close> stays elided.\<close>

lemma generic_argument_keeps_lifetime:
  "fst (retr_ser_de_params (TPath None (SynPath False [Segment ''Option'' (AngleArgs [GType (TReference None m t)])]))) =
    Some (TReference (Some life_ser) False (TPath None (SynPath False [Segment ''Option'' (AngleArgs [GType (TReference None m t)])])),
      TPath None (SynPath False [Segment ''Option'' (AngleArgs [GType (TReference None m t)])]))"
  by (simp add: retr_ser_de_params_def split_ser_de_type_def with_reference_def replace_inner_def life_ser_def)

text \<open>C40: Moving a declaration into nested modules keeps its visibility: for every visibility the
  parser accepts, in any module, the visibility the macro writes \<open>amount\<close> levels deeper does
  exist and names the same scope as the original one did at the original place.\<close>

theorem elevated_visibility_same_scope:
  assumes "vis_parsed v" and "length extra = amount"
  shows "\<exists>w. elevate_vis_level v amount = Done w \<and> vis_parsed w \<and> scope_of (extra @ m) w = scope_of m v"
proof (cases "amount = 0")
  case True
  then show ?thesis using assms by (simp add: elevate_vis_level_def)
next
  case False
  show ?thesis
  proof (cases v)
    case VPublic
    then show ?thesis using False by (simp add: elevate_vis_level_def)
  next
    case (VRestricted in_token p)
    then show ?thesis using elevate_restricted [of in_token _ _ extra amount] assms False by (cases p) blast
  next
    case VInherited
    then show ?thesis
      using resolve_supers [OF assms(2), of m "[]"] False by (simp add: elevate_vis_level_def)
  qed
qed

theorem elevated_visibility_same_scope_witness:
  "\<exists>w. elevate_vis_level (VRestricted False (SynPath False [Segment ''super'' NoArgs])) 1 = Done w \<and>
    scope_of [''inner'', ''service'', ''api''] w = Within (Some [''api''])"
  using elevated_visibility_same_scope [of "VRestricted False (SynPath False [Segment ''super'' NoArgs])"
      "[''inner'']" 1 "[''service'', ''api'']"] by auto

end
