(* ===== verification/Service_Macro.thy ===== *)
theory Service_Macro
  imports Type_Util
begin

text \<open>
  The attribute macro \<open>service\<close>: the arguments of the macro and the items of the module
  (\<open>macros/src/lib.rs\<close>), and the definition generated for one method
  (\<open>macros/src/gen_func.rs\<close>). What is generated is an abstract syntax of the quoted items.
  The case conversion of the crate \<open>convert_case\<close> is the parameter \<open>to_case\<close>.
\<close>

subsection \<open>Attributes\<close>

datatype syn_meta = MetaPath syn_path | MetaNameValue syn_path syn_expr | MetaList syn_path tokens

definition get_ident :: "syn_path \<Rightarrow> string option" where
  "get_ident p =
     (if leading_colon p then None
      else case segments p of [Segment i NoArgs] \<Rightarrow> Some i | _ \<Rightarrow> None)"

definition is_ident :: "syn_path \<Rightarrow> string \<Rightarrow> bool" where
  "is_ident p s \<longleftrightarrow> get_ident p = Some s"

subsection \<open>The model of the service\<close>

datatype letter_case = Snake | Camel | Pascal | ScreamingSnake | Kebab | Upper | Lower

record method_def =
  is_req :: bool
  method_ident :: string
  name :: bytes
  routes :: "bytes list"

record data_model =
  name_prefix :: "bytes option"
  route_prefix :: "bytes option"
  rename_all :: "letter_case option"
  no_recv :: bool
  no_param_recv_newtype :: bool
  vis :: "syn_vis option"
  handled_methods :: "method_def list"

definition model_default :: data_model where
  "model_default = \<lparr>name_prefix = None, route_prefix = None, rename_all = None, no_recv = False,
     no_param_recv_newtype = False, vis = None, handled_methods = []\<rparr>"

definition model_vis :: "data_model \<Rightarrow> syn_vis" where
  "model_vis m = (case vis m of Some v \<Rightarrow> v | None \<Rightarrow> VInherited)"

definition parse_case :: "bytes \<Rightarrow> letter_case option" where
  "parse_case s =
     (if s = str ''snake_case'' then Some Snake else if s = str ''camelCase'' then Some Camel
      else if s = str ''PascalCase'' then Some Pascal
      else if s = str ''SCREAMING_SNAKE_CASE'' then Some ScreamingSnake
      else if s = str ''kebab-case'' then Some Kebab else if s = str ''UPPERCASE'' then Some Upper
      else if s = str ''lowercase'' then Some Lower else None)"

definition unexpected_argument :: "string option \<Rightarrow> string list" where
  "unexpected_argument i =
     (case i of None \<Rightarrow> [] | Some i \<Rightarrow> [''Unexpected or incorrect usage of attribute argument '' @ i])"

definition parse_meta :: "syn_meta \<Rightarrow> data_model \<times> string list \<Rightarrow> data_model \<times> string list" where
  "parse_meta meta st =
     (case st of (m, errs) \<Rightarrow>
        (case meta of
           MetaPath p \<Rightarrow>
             if is_ident p ''no_param_recv_newtype'' then (m\<lparr>no_param_recv_newtype := True\<rparr>, errs)
             else if is_ident p ''no_recv'' then (m\<lparr>no_recv := True\<rparr>, errs)
             else (m, errs @ unexpected_argument (get_ident p))
         | MetaNameValue p e \<Rightarrow>
             (case expr_into_lit_str e of (lit, es) \<Rightarrow>
                if is_ident p ''name_prefix'' then (m\<lparr>name_prefix := lit\<rparr>, errs @ es)
                else if is_ident p ''route_prefix'' then (m\<lparr>route_prefix := lit\<rparr>, errs @ es)
                else if is_ident p ''rename_all'' then
                  (case lit of
                     None \<Rightarrow> (m, errs @ es)
                   | Some s \<Rightarrow>
                       (case parse_case s of
                          Some c \<Rightarrow> (m\<lparr>rename_all := Some c\<rparr>, errs)
                        | None \<Rightarrow> (m, errs @ [''Unknown case convention''])))
                else (m, errs @ unexpected_argument (get_ident p)))
         | MetaList p _ \<Rightarrow> (m, errs @ unexpected_argument (get_ident p))))"

text \<open>The arguments as \<open>syn\<close> parses them, or its error.\<close>

definition parse_attr :: "string + syn_meta list \<Rightarrow> data_model \<Rightarrow> data_model \<times> string list" where
  "parse_attr attrs m =
     (case attrs of Inl err \<Rightarrow> (m, [err]) | Inr metas \<Rightarrow> fold parse_meta metas (m, []))"

subsection \<open>One method\<close>

datatype syn_pat = PatIdent string | PatOther tokens

datatype fn_arg = ArgTyped syn_pat syn_type | ArgReceiver tokens

record item_fn =
  fn_attrs :: "syn_meta list"
  fn_vis :: syn_vis
  fn_ident :: string
  fn_inputs :: "fn_arg list"
  fn_output :: "syn_type option"

text \<open>The state of the loop over the attributes of a method.\<close>

record attr_state =
  at_def :: method_def
  at_no_recv :: bool
  at_fwd :: "syn_meta list"
  at_errs :: "string list"

definition attr_error :: "string list \<Rightarrow> attr_state \<Rightarrow> attr_state" where
  "attr_error es st = st\<lparr>at_errs := at_errs st @ es\<rparr>"

definition attr_forward :: "syn_meta \<Rightarrow> attr_state \<Rightarrow> attr_state" where
  "attr_forward meta st = st\<lparr>at_fwd := at_fwd st @ [meta]\<rparr>"

definition method_attr :: "syn_meta \<Rightarrow> attr_state \<Rightarrow> attr_state" where
  "method_attr meta st =
     (case meta of
        MetaPath p \<Rightarrow> if is_ident p ''no_recv'' then st\<lparr>at_no_recv := True\<rparr> else attr_forward meta st
      | MetaNameValue p e \<Rightarrow>
          if is_ident p ''doc'' then attr_forward meta st
          else if is_ident p ''name'' then
            (if name (at_def st) \<noteq> [] then attr_error [''Duplicated name attribute''] st
             else (case expr_into_lit_str e of
                 (None, es) \<Rightarrow> attr_error (es @ [''name must be string literal'']) st
               | (Some lit, _) \<Rightarrow> st\<lparr>at_def := (at_def st)\<lparr>name := lit\<rparr>\<rparr>))
          else if is_ident p ''route'' then
            (case expr_into_lit_str e of
               (None, es) \<Rightarrow> attr_error (es @ [''route must be string literal'']) st
             | (Some lit, _) \<Rightarrow> st\<lparr>at_def := (at_def st)\<lparr>routes := routes (at_def st) @ [lit]\<rparr>\<rparr>)
          else attr_forward meta st
      | MetaList _ _ \<Rightarrow> attr_forward meta st)"

text \<open>
  The received parameters: an alias for a tuple, nothing, the single type itself, or a new
  struct whose fields may borrow.
\<close>

datatype recv_type =
  RecvAlias "syn_type list" | RecvUnit | RecvSingle syn_type
| RecvStruct bool "(bool \<times> string \<times> syn_type) list"
    \<comment> \<open>whether it has the lifetime; borrow, name and type of each field\<close>

record gen_fn =
  gf_ident :: string
  gf_vis_outer :: syn_vis
  gf_vis_inner :: syn_vis
  gf_method_name :: bytes
  gf_params :: "(string \<times> syn_type) list"
  gf_recv :: recv_type
  gf_request :: "(syn_type \<times> syn_type \<times> (syn_type \<times> syn_type) option) option"
    \<comment> \<open>types sent and received for the result, and for the error unless it is \<open>()\<close>\<close>
  gf_attrs :: "syn_meta list"

fun typed_args :: "fn_arg list \<Rightarrow> (syn_pat \<times> syn_type) list option" where
  "typed_args [] = Some []"
| "typed_args (ArgTyped p t # as) = map_option (\<lambda>r. (p, t) # r) (typed_args as)"
| "typed_args (ArgReceiver _ # as) = None"

text \<open>A numbered name \<open>___i\<close> for a parameter that is a pattern.\<close>

fun decimal :: "nat \<Rightarrow> string" where
  "decimal n = (if n < 10 then [char_of (48 + n)] else decimal (n div 10) @ [char_of (48 + n mod 10)])"

declare decimal.simps [simp del]

definition param_name :: "nat \<Rightarrow> syn_pat \<Rightarrow> string" where
  "param_name i p = (case p of PatIdent s \<Rightarrow> s | PatOther _ \<Rightarrow> ''___'' @ decimal i)"

text \<open>\<open>Result<T, E>\<close>, by the name of the last segment.\<close>

definition find_result_t :: "syn_type \<Rightarrow> (syn_type \<times> syn_type) option" where
  "find_result_t t =
     (case t of
        TPath _ p \<Rightarrow>
          if leading_colon p \<or> segments p = [] then None
          else (case last (segments p) of
              Segment i (AngleArgs [GType okt, GType errt]) \<Rightarrow> if i = ''Result'' then Some (okt, errt) else None
            | _ \<Rightarrow> None)
      | _ \<Rightarrow> None)"

fun ser_de_all :: "syn_type list \<Rightarrow> (syn_type \<times> syn_type) list option \<times> string list" where
  "ser_de_all [] = (Some [], [])"
| "ser_de_all (t # ts) =
     (case retr_ser_de_params t of
        (None, es) \<Rightarrow> (None, es @ [''Serde parameter retrieval failed''])
      | (Some sd, es) \<Rightarrow> (case ser_de_all ts of (r, es') \<Rightarrow> (map_option (\<lambda>xs. sd # xs) r, es @ es')))"

definition recv_params :: "bool \<Rightarrow> string list \<Rightarrow> syn_type list \<Rightarrow> recv_type" where
  "recv_params simple idents de =
     (if simple then RecvAlias de
      else if de = [] then RecvUnit
      else if length de = 1 then RecvSingle (hd de)
      else RecvStruct (list_ex has_any_lifetime de) (map (\<lambda>(i, t). (has_any_lifetime t, i, t)) (zip idents de)))"

text \<open>The generated request types, with the errors; \<open>None\<close> after a failure.\<close>

definition request_types ::
  "syn_type \<Rightarrow> (syn_type \<times> syn_type \<times> (syn_type \<times> syn_type) option) option \<times> string list" where
  "request_types t =
     (case find_result_t t of
        Some (okt, errt) \<Rightarrow>
          (case (retr_ser_de_params okt, retr_ser_de_params errt) of
             ((Some (s, d), es), (Some sd', es')) \<Rightarrow> (Some (s, d, Some sd'), es @ es')
           | ((_, es), (_, es')) \<Rightarrow> (None, es @ es' @
               [''Failed to retrieve serialization/deserialization types for result type'']))
      | None \<Rightarrow>
          (case retr_ser_de_params t of
             (Some (s, d), es) \<Rightarrow> (Some (s, d, None), es)
           | (None, es) \<Rightarrow> (None, es @ [''Failed to retrieve serialization/deserialization types for return type''])))"

text \<open>
  The result of expanding an item, with the errors that were recorded: the macro is aborted,
  or goes on with what it made.
\<close>

datatype 'a expansion = Aborted "string list" | Expanded 'a "string list"

definition fn_def_body ::
  "data_model \<Rightarrow> method_def \<Rightarrow> item_fn \<Rightarrow> syn_vis \<Rightarrow> syn_vis \<Rightarrow> bool \<Rightarrow> syn_meta list
   \<Rightarrow> (method_def \<times> gen_fn option) expansion" where
  "fn_def_body m def item vis_outer vis_inner no_recv_fn attrs_fwd =
     (case typed_args (fn_inputs item) of
        None \<Rightarrow> Aborted [''Can't set receiver token here'']
      | Some args \<Rightarrow>
          (case ser_de_all (map snd args) of
             (None, es) \<Rightarrow> Expanded (def, None) es
           | (Some sds, es) \<Rightarrow>
               (let idents = map (\<lambda>(i, p, _). param_name i p) (enumerate 0 args);
                    gen = \<lambda>req. \<lparr>gf_ident = method_ident def, gf_vis_outer = vis_outer, gf_vis_inner = vis_inner,
                      gf_method_name = name def, gf_params = zip idents (map fst sds),
                      gf_recv = recv_params (no_recv_fn \<or> no_recv m \<or> no_param_recv_newtype m) idents (map snd sds),
                      gf_request = req, gf_attrs = attrs_fwd\<rparr>
                in case fn_output item of
                     None \<Rightarrow> Expanded (def, Some (gen None)) es
                   | Some t \<Rightarrow>
                       (let def' = def\<lparr>is_req := True\<rparr> in
                        case request_types t of
                          (None, es') \<Rightarrow> Expanded (def', None) (es @ es')
                        | (Some req, es') \<Rightarrow> Expanded (def', Some (gen (Some req))) (es @ es')))))"

text \<open>The loop over the attributes and what follows it, from the definition the loop starts with.\<close>

definition expand_item ::
  "data_model \<Rightarrow> item_fn \<Rightarrow> method_def \<Rightarrow> syn_vis \<Rightarrow> syn_vis \<Rightarrow> (data_model \<times> gen_fn option) expansion" where
  "expand_item m item def1 vis_outer vis_inner =
     (let st = fold method_attr (fn_attrs item)
          \<lparr>at_def = def1, at_no_recv = False, at_fwd = [], at_errs = []\<rparr>;
          def2 = (if name (at_def st) = [] then (at_def st)\<lparr>name := str (method_ident (at_def st))\<rparr> else at_def st)
      in case fn_def_body m def2 item vis_outer vis_inner (at_no_recv st) (at_fwd st) of
           Aborted es \<Rightarrow> Aborted (at_errs st @ es)
         | Expanded (def3, out) es \<Rightarrow>
             Expanded (if at_no_recv st then m else m\<lparr>handled_methods := handled_methods m @ [def3]\<rparr>, out)
               (at_errs st @ es))"

definition initial_def ::
  "(letter_case \<Rightarrow> bytes \<Rightarrow> bytes) \<Rightarrow> data_model \<Rightarrow> item_fn \<Rightarrow> method_def" where
  "initial_def to_case m item =
     (let def0 = \<lparr>is_req = False, method_ident = fn_ident item, name = [], routes = []\<rparr>
      in case rename_all m of None \<Rightarrow> def0 | Some c \<Rightarrow> def0\<lparr>name := to_case c (name def0)\<rparr>)"

definition generate_item_fn ::
  "(letter_case \<Rightarrow> bytes \<Rightarrow> bytes) \<Rightarrow> data_model \<Rightarrow> item_fn \<Rightarrow> nat
   \<Rightarrow> (data_model \<times> gen_fn option) expansion outcome" where
  "generate_item_fn to_case m item vis_offset =
     obind (elevate_vis_level (fn_vis item) vis_offset) (\<lambda>vis_outer.
     obind (elevate_vis_level vis_outer 1) (\<lambda>vis_inner.
       Done (expand_item m item (initial_def to_case m item) vis_outer vis_inner)))"

definition find_method :: "data_model \<Rightarrow> string \<Rightarrow> method_def option" where
  "find_method m i = find (\<lambda>d. method_ident d = i) (handled_methods m)"

definition find_method_by_path :: "data_model \<Rightarrow> syn_path \<Rightarrow> method_def option" where
  "find_method_by_path m p =
     (case path_as_mono_seg p of None \<Rightarrow> None | Some seg \<Rightarrow> find_method m (seg_ident seg))"

subsection \<open>The module\<close>

text \<open>The right-hand side of a \<open>Route\<close> constant, of which \<open>Route_Macro\<close> makes a router.\<close>

datatype member = MNamed string | MUnnamed nat

datatype field_expr = FEArray "syn_expr list" | FEOther tokens

record expr_struct =
  es_path :: syn_path
  es_attrs :: "syn_meta list"
  es_fields :: "(member \<times> field_expr) list"

datatype assign_rhs = RhsStruct expr_struct | RhsPath syn_path | RhsOther tokens

datatype route_elem =
  ElPath bool syn_path "syn_meta list" \<comment> \<open>whether it has a \<open>qself\<close>\<close>
| ElAssign "(syn_path \<times> syn_meta list) option" assign_rhs
| ElStruct expr_struct
| ElOther tokens

datatype route_expr = RxPath bool syn_path | RxArray "route_elem list" | RxOther tokens

record const_item =
  ci_attrs :: "syn_meta list"
  ci_vis :: syn_vis
  ci_ident :: string
  ci_ty :: syn_type
  ci_expr :: route_expr

text \<open>
  The items of the module. A verbatim item comes with what \<open>syn\<close> makes of it inside
  \<open>extern "C" { .. }\<close>: nothing, or a list of foreign items.
\<close>

datatype foreign_item = FFn item_fn | FOther tokens

datatype module_item =
  IFn item_fn | IConst const_item | IVerbatim "foreign_item list option" tokens | IOther tokens

record main_state =
  ms_model :: data_model
  ms_pass_thru :: "module_item list"
  ms_route_items :: "const_item list"
  ms_methods :: "gen_fn list"
  ms_errs :: "string list"

definition vis_level :: nat where "vis_level = 1"

definition main_fn ::
  "(letter_case \<Rightarrow> bytes \<Rightarrow> bytes) \<Rightarrow> item_fn \<Rightarrow> main_state \<Rightarrow> main_state expansion outcome" where
  "main_fn to_case item st =
     obind (generate_item_fn to_case (ms_model st) item vis_level) (\<lambda>x.
       Done (case x of
           Aborted es \<Rightarrow> Aborted (ms_errs st @ es)
         | Expanded (m, out) es \<Rightarrow>
             Expanded (st\<lparr>ms_model := m, ms_methods := ms_methods st @ (case out of None \<Rightarrow> [] | Some g \<Rightarrow> [g]),
               ms_errs := ms_errs st @ es\<rparr>) []))"

definition pass_thru :: "module_item \<Rightarrow> main_state \<Rightarrow> main_state" where
  "pass_thru i st = st\<lparr>ms_pass_thru := ms_pass_thru st @ [i]\<rparr>"

definition main_item ::
  "(letter_case \<Rightarrow> bytes \<Rightarrow> bytes) \<Rightarrow> module_item \<Rightarrow> main_state \<Rightarrow> main_state expansion outcome" where
  "main_item to_case i st =
     (case i of
        IFn item \<Rightarrow> main_fn to_case item st
      | IConst c \<Rightarrow>
          Done (Expanded (case type_path_as_mono_seg (ci_ty c) of
              Some seg \<Rightarrow> if seg_ident seg = ''Route'' then st\<lparr>ms_route_items := ms_route_items st @ [c]\<rparr>
                else pass_thru i st
            | None \<Rightarrow> pass_thru i st) [])
      | IVerbatim (Some items) _ \<Rightarrow>
          (case items of
             [] \<Rightarrow> Panic
           | FFn item # _ \<Rightarrow> main_fn to_case item st
           | FOther _ # _ \<Rightarrow> Done (Expanded (pass_thru i st) []))
      | _ \<Rightarrow> Done (Expanded (pass_thru i st) []))"

fun main_items ::
  "(letter_case \<Rightarrow> bytes \<Rightarrow> bytes) \<Rightarrow> module_item list \<Rightarrow> main_state \<Rightarrow> main_state expansion outcome" where
  "main_items to_case [] st = Done (Expanded st [])"
| "main_items to_case (i # is) st =
     obind (main_item to_case i st) (\<lambda>x. case x of
         Aborted es \<Rightarrow> Done (Aborted es)
       | Expanded st1 _ \<Rightarrow> main_items to_case is st1)"

subsection \<open>What the attributes of a method mean\<close>

text \<open>The literals of the attributes with this name, in order.\<close>

fun literals_of :: "string \<Rightarrow> syn_meta list \<Rightarrow> bytes list" where
  "literals_of i [] = []"
| "literals_of i (MetaNameValue p (ELitStr s) # ms) =
     (if is_ident p i then s # literals_of i ms else literals_of i ms)"
| "literals_of i (m # ms) = literals_of i ms"

definition has_path :: "string \<Rightarrow> syn_meta list \<Rightarrow> bool" where
  "has_path i ms \<longleftrightarrow> (\<exists>p. MetaPath p \<in> set ms \<and> is_ident p i)"

lemma is_ident_unique: "is_ident p i \<Longrightarrow> is_ident p j \<longleftrightarrow> i = j"
  by (auto simp: is_ident_def)

lemma expr_lit [simp]:
  "expr_into_lit_str (ELitStr s) = (Some s, [])"
  "expr_into_lit_str (EOther x) = (None, [''Expected string literal''])"
  by (simp_all add: expr_into_lit_str_def)

text \<open>The first literal that is not empty, unless there is a name already.\<close>

fun first_name :: "bytes \<Rightarrow> bytes list \<Rightarrow> bytes" where
  "first_name n [] = n"
| "first_name n (l # ls) = first_name (if n = [] then l else n) ls"

definition attr_effect :: "syn_meta \<Rightarrow> attr_state \<Rightarrow> attr_state \<Rightarrow> bool" where
  "attr_effect meta st st' \<longleftrightarrow>
     method_ident (at_def st') = method_ident (at_def st) \<and> is_req (at_def st') = is_req (at_def st) \<and>
     (at_no_recv st' \<longleftrightarrow> at_no_recv st \<or> has_path ''no_recv'' [meta]) \<and>
     routes (at_def st') = routes (at_def st) @ literals_of ''route'' [meta] \<and>
     name (at_def st') = first_name (name (at_def st)) (literals_of ''name'' [meta])"

lemma method_attr_step: "attr_effect meta st (method_attr meta st)"
proof (cases meta)
  case (MetaPath p)
  then show ?thesis
    by (simp add: attr_effect_def method_attr_def attr_forward_def has_path_def)
next
  case (MetaList p x)
  then show ?thesis
    by (simp add: attr_effect_def method_attr_def attr_forward_def has_path_def)
next
  case (MetaNameValue p e)
  consider "is_ident p ''doc''" | "is_ident p ''name''" | "is_ident p ''route''"
    | "\<not> is_ident p ''doc''" "\<not> is_ident p ''name''" "\<not> is_ident p ''route''" by blast
  then show ?thesis
  proof cases
    case 1
    then show ?thesis using MetaNameValue is_ident_unique [OF 1]
      by (cases e) (simp_all add: attr_effect_def method_attr_def attr_forward_def has_path_def)
  next
    case 2
    then show ?thesis using MetaNameValue is_ident_unique [OF 2]
      by (cases e) (simp_all add: attr_effect_def method_attr_def attr_error_def has_path_def)
  next
    case 3
    then show ?thesis using MetaNameValue is_ident_unique [OF 3]
      by (cases e) (simp_all add: attr_effect_def method_attr_def attr_error_def has_path_def)
  next
    case 4
    then show ?thesis using MetaNameValue
      by (cases e) (simp_all add: attr_effect_def method_attr_def attr_forward_def has_path_def)
  qed
qed

lemma literals_of_Cons: "literals_of i (m # ms) = literals_of i [m] @ literals_of i ms"
  by (cases "(i, m # ms)" rule: literals_of.cases) auto

lemma has_path_Cons: "has_path i (m # ms) \<longleftrightarrow> has_path i [m] \<or> has_path i ms"
  by (auto simp: has_path_def)

lemma first_name_append: "first_name (first_name n xs) ys = first_name n (xs @ ys)"
  by (induction xs arbitrary: n) simp_all

lemma method_attrs_fold:
  "method_ident (at_def (fold method_attr ms st)) = method_ident (at_def st) \<and>
   is_req (at_def (fold method_attr ms st)) = is_req (at_def st) \<and>
   (at_no_recv (fold method_attr ms st) \<longleftrightarrow> at_no_recv st \<or> has_path ''no_recv'' ms) \<and>
   routes (at_def (fold method_attr ms st)) = routes (at_def st) @ literals_of ''route'' ms \<and>
   name (at_def (fold method_attr ms st)) = first_name (name (at_def st)) (literals_of ''name'' ms)"
proof (induction ms arbitrary: st)
  case Nil
  then show ?case by (simp add: has_path_def)
next
  case (Cons m ms)
  show ?case
    using Cons [of "method_attr m st"] method_attr_step [of m st]
      literals_of_Cons [of _ m ms] has_path_Cons [of _ m ms]
    by (simp add: attr_effect_def first_name_append)
qed

subsection \<open>Properties\<close>

lemma retr_ser_de_params_Some: "\<exists>sd es. retr_ser_de_params t = (Some sd, es)"
  by (cases "split_ser_de_type t") (simp add: retr_ser_de_params_def Let_def)

lemma fst_ser_de_all: "fst (ser_de_all ts) \<noteq> None"
proof (induction ts)
  case (Cons t ts)
  then show ?case using retr_ser_de_params_Some [of t]
    by (cases "ser_de_all ts") auto
qed simp

lemma ser_de_all_Some: "ser_de_all ts \<noteq> (None, es)"
  using fst_ser_de_all [of ts] by auto

lemma fn_def_body_def_fields:
  assumes "fn_def_body m def item vo vi nr fwd = Expanded (def', out) es"
  shows "def' = def\<lparr>is_req := is_req def \<or> fn_output item \<noteq> None\<rparr>"
    and "out = Some g \<Longrightarrow> gf_method_name g = name def \<and> gf_ident g = method_ident def \<and>
      gf_vis_outer g = vo \<and> gf_vis_inner g = vi"
  using assms
  by (auto simp: fn_def_body_def Let_def ser_de_all_Some split: option.splits prod.splits)

lemma initial_def_empty:
  "(\<And>c. to_case c [] = []) \<Longrightarrow> initial_def to_case m item =
     \<lparr>is_req = False, method_ident = fn_ident item, name = [], routes = []\<rparr>"
  by (cases "rename_all m") (simp_all add: initial_def_def)

text \<open>C38: The definition of a method follows its attributes, whatever the arguments of the service
  are, \<open>rename_all\<close> and the service argument \<open>no_recv\<close> among them, provided that the case
  conversion leaves the empty string empty: its name is the first literal of a
  \<open>name\<close> attribute that is not empty, or the identifier of the function when there is none;
  its routes are the literals of its \<open>route\<close> attributes, in order; it is a request exactly
  when the function has a return type; it is registered for routing unless the function itself
  is marked \<open>no_recv\<close>; and the generated sender uses this very name. The identifier of a function
  with a \<open>name\<close> attribute is thus no route of it.\<close>

theorem method_definition_follows_attributes:
  assumes "generate_item_fn to_case m item n = Done (Expanded (m', out) errs)" and "\<And>c. to_case c [] = []"
  shows "(let ls = literals_of ''name'' (fn_attrs item);
              nm = (if first_name [] ls = [] then str (fn_ident item) else first_name [] ls);
              d = \<lparr>is_req = (fn_output item \<noteq> None), method_ident = fn_ident item, name = nm,
                   routes = literals_of ''route'' (fn_attrs item)\<rparr>
          in m' = (if has_path ''no_recv'' (fn_attrs item) then m
                   else m\<lparr>handled_methods := handled_methods m @ [d]\<rparr>) \<and>
             (\<forall>g. out = Some g \<longrightarrow> gf_method_name g = nm \<and> gf_ident g = fn_ident item))"
proof -
  let ?d0 = "\<lparr>is_req = False, method_ident = fn_ident item, name = [], routes = []\<rparr>"
  let ?st = "fold method_attr (fn_attrs item) \<lparr>at_def = ?d0, at_no_recv = False, at_fwd = [], at_errs = []\<rparr>"
  let ?d2 = "if name (at_def ?st) = [] then (at_def ?st)\<lparr>name := str (method_ident (at_def ?st))\<rparr> else at_def ?st"
  note folded = method_attrs_fold [of "fn_attrs item" "\<lparr>at_def = ?d0, at_no_recv = False, at_fwd = [], at_errs = []\<rparr>"]
  obtain vo where vo: "elevate_vis_level (fn_vis item) n = Done vo"
    using assms(1) by (auto simp: generate_item_fn_def obind_Done_iff)
  then obtain vi where vi: "elevate_vis_level vo 1 = Done vi"
    using assms(1) by (auto simp: generate_item_fn_def obind_Done_iff)
  have d0: "initial_def to_case m item = ?d0" using assms(2) by (rule initial_def_empty)
  obtain d3 es where body: "fn_def_body m ?d2 item vo vi (at_no_recv ?st) (at_fwd ?st) = Expanded (d3, out) es"
    and m': "m' = (if at_no_recv ?st then m else m\<lparr>handled_methods := handled_methods m @ [d3]\<rparr>)"
    using assms(1) vo vi
    by (auto simp: generate_item_fn_def expand_item_def d0 Let_def split: expansion.splits prod.splits)
  note d3 = fn_def_body_def_fields [OF body]
  show ?thesis
    using m' d3 folded by (auto simp: Let_def)
qed

text \<open>A notification \<open>#[name = "n"] fn f();\<close> for the witnesses.\<close>

definition name_path :: syn_path where
  "name_path = SynPath False [Segment ''name'' NoArgs]"

definition item_f :: item_fn where
  "item_f = \<lparr>fn_attrs = [MetaNameValue name_path (ELitStr [0x6E])], fn_vis = VInherited, fn_ident = ''f'',
     fn_inputs = [], fn_output = None\<rparr>"

text \<open>The service arguments \<open>rename_all = "UPPERCASE"\<close> and \<open>no_recv\<close>.\<close>

definition upper_case :: "letter_case \<Rightarrow> bytes \<Rightarrow> bytes" where
  "upper_case c s = (if c = Upper then map (\<lambda>b. b AND 0xDF) s else s)"

definition model_upper :: data_model where
  "model_upper = model_default\<lparr>rename_all := Some Upper, no_recv := True\<rparr>"

theorem method_definition_follows_attributes_witness:
  "\<exists>m' out errs. generate_item_fn upper_case model_upper item_f 1 = Done (Expanded (m', out) errs) \<and>
    handled_methods m' = [\<lparr>is_req = False, method_ident = ''f'', name = [0x6E], routes = []\<rparr>]"
proof -
  obtain m' out errs where gen: "generate_item_fn upper_case model_upper item_f 1 = Done (Expanded (m', out) errs)"
    by (simp add: model_upper_def generate_item_fn_def expand_item_def initial_def_def item_f_def elevate_vis_level_def fn_def_body_def model_default_def Let_def
        super_segment_def)
  moreover have "literals_of ''name'' (fn_attrs item_f) = [[0x6E]]" "literals_of ''route'' (fn_attrs item_f) = []"
    "\<not> has_path ''no_recv'' (fn_attrs item_f)" "fn_ident item_f = ''f''" "fn_output item_f = None"
    by (simp_all add: item_f_def name_path_def is_ident_def get_ident_def has_path_def)
  ultimately show ?thesis
    using method_definition_follows_attributes [OF gen] by (auto simp: model_default_def model_upper_def upper_case_def Let_def)
qed

definition with_renaming ::
  "letter_case option \<Rightarrow> bytes option \<Rightarrow> bytes option \<Rightarrow> data_model \<Rightarrow> data_model" where
  "with_renaming ra np rp m = m\<lparr>rename_all := ra, name_prefix := np, route_prefix := rp\<rparr>"

lemma fn_def_body_renaming: "fn_def_body (with_renaming ra np rp m) = fn_def_body m"
proof (intro ext)
  have "no_recv (with_renaming ra np rp m) = no_recv m"
    "no_param_recv_newtype (with_renaming ra np rp m) = no_param_recv_newtype m"
    by (simp_all add: with_renaming_def)
  then show "fn_def_body (with_renaming ra np rp m) def item vo vi nr fwd = fn_def_body m def item vo vi nr fwd"
    for def item vo vi nr fwd
    by (simp only: fn_def_body_def)
qed

lemma expand_item_renaming:
  "expand_item (with_renaming ra np rp m) item d vo vi = (case expand_item m item d vo vi of
      Aborted es \<Rightarrow> Aborted es
    | Expanded (m', out) errs \<Rightarrow> Expanded (with_renaming ra np rp m', out) errs)"
proof -
  define st where "st = fold method_attr (fn_attrs item) \<lparr>at_def = d, at_no_recv = False, at_fwd = [], at_errs = []\<rparr>"
  define d2 where "d2 = (if name (at_def st) = [] then (at_def st)\<lparr>name := str (method_ident (at_def st))\<rparr> else at_def st)"
  have push: "with_renaming ra np rp m\<lparr>handled_methods := handled_methods (with_renaming ra np rp m) @ [d3]\<rparr> =
      with_renaming ra np rp (m\<lparr>handled_methods := handled_methods m @ [d3]\<rparr>)" for d3
    by (simp add: with_renaming_def)
  show ?thesis
    unfolding expand_item_def Let_def fn_def_body_renaming st_def [symmetric] d2_def [symmetric] push
    by (cases "fn_def_body m d2 item vo vi (at_no_recv st) (at_fwd st)") (auto split: prod.split)
qed

text \<open>The renaming arguments of the service have no effect. \<open>rename_all\<close> is applied before the name
  is known, to the empty string, and \<open>name_prefix\<close> and \<open>route_prefix\<close> are stored and never
  read: whatever they are, every method of the module gets the same definition and the same
  generated code as without them.\<close>

theorem renaming_arguments_are_ignored:
  assumes "\<And>c. to_case c [] = []"
  shows "generate_item_fn to_case (with_renaming ra np rp m) item n =
    obind (generate_item_fn to_case m item n) (\<lambda>x. Done (case x of
        Aborted es \<Rightarrow> Aborted es
      | Expanded (m', out) errs \<Rightarrow> Expanded (with_renaming ra np rp m', out) errs))"
proof (cases "elevate_vis_level (fn_vis item) n")
  case (Done vo)
  have "initial_def to_case (with_renaming ra np rp m) item = initial_def to_case m item"
    using initial_def_empty [of to_case] assms by simp
  then show ?thesis using Done
    by (cases "elevate_vis_level vo 1") (simp_all add: generate_item_fn_def expand_item_renaming)
qed (simp_all add: generate_item_fn_def)

theorem renaming_arguments_are_ignored_witness:
  "\<exists>m' out. generate_item_fn (\<lambda>c s. if c = Upper then map (\<lambda>b. b AND 0xDF) s else s)
      (with_renaming (Some Upper) (Some [0x70]) None model_default) item_f 1 = Done (Expanded (m', out) []) \<and>
    map name (handled_methods m') = [[0x6E]]"
  by (subst renaming_arguments_are_ignored)
    (simp_all add: generate_item_fn_def expand_item_def initial_def_def item_f_def elevate_vis_level_def fn_def_body_def model_default_def Let_def
      super_segment_def method_attr_def name_path_def is_ident_def get_ident_def with_renaming_def)

end
