(* ===== verification/Route.thy ===== *)
theory Route
  imports Builder
begin

text \<open>
  \<open>src/macros/route.rs\<close>: dispatching inbound messages by method name. A router builder keeps
  a vector of handlers and a route function from names to indices into it; the route
  function is an interface (\<open>RouterFuncBuilder\<close>, \<open>RouterFunc\<close>), here the locale
  \<open>route_table\<close>, which the crate implements for hash maps and tree maps.
\<close>

subsection \<open>Handlers and routers\<close>

datatype exec_error = RouteFailed | ExecParseError serde_error | RequestOnNotifyHandler

text \<open>
  A handler may take the message out of the option it is given, and it may act on the
  connection (respond, send).
\<close>

type_synonym ('p, 'd, 'q, 'u) exec_func =
  "('p, 'd, 'q, 'u) rpc_core \<Rightarrow> inbound_inner option
   \<Rightarrow> (('p, 'd, 'q, 'u) rpc_core \<times> inbound_inner option \<times> (exec_error + unit)) outcome"

record ('f, 'h) router =
  route_func :: 'f
  funcs :: "'h list"

text \<open>The interface of a route function, before and after \<open>finish\<close>.\<close>

record ('b, 'e, 'f) route_ops =
  rt_add_route :: "'b \<Rightarrow> bytes \<Rightarrow> usize \<Rightarrow> 'b \<times> ('e + unit)"
  rt_finish :: "'b \<Rightarrow> 'f"
  rt_route :: "'f \<Rightarrow> bytes \<Rightarrow> usize option"

text \<open>
  \<open>usize\<close> subtraction: with overflow checks (debug builds) it panics below zero, without
  them it wraps.
\<close>

definition usize_sub :: "bool \<Rightarrow> usize \<Rightarrow> usize \<Rightarrow> usize outcome" where
  "usize_sub checked a b = (if a < b \<and> checked then Panic else Done (a - b))"

definition funcs_len :: "('b, 'h) router \<Rightarrow> usize" where
  "funcs_len r = word_of_nat (length (funcs r))"

subsection \<open>Building a router\<close>

definition router_builder_new :: "'b \<Rightarrow> ('b, 'h) router" where
  "router_builder_new b = \<lparr>route_func = b, funcs = []\<rparr>"

definition push_handler :: "'h \<Rightarrow> ('b, 'h) router \<Rightarrow> ('b, 'h) router" where
  "push_handler h r = r\<lparr>funcs := funcs r @ [h]\<rparr>"

definition pop_handler :: "('b, 'h) router \<Rightarrow> ('b, 'h) router" where
  "pop_handler r = r\<lparr>funcs := butlast (funcs r)\<rparr>"

definition try_add_route_to_last ::
  "bool \<Rightarrow> ('b, 'e, 'f) route_ops \<Rightarrow> bytes \<Rightarrow> ('b, 'h) router
   \<Rightarrow> (('b, 'h) router \<times> ('e + unit)) outcome" where
  "try_add_route_to_last checked ops alias r =
     obind (usize_sub checked (funcs_len r) 1) (\<lambda>index.
       case rt_add_route ops (route_func r) alias index of
         (b, res) \<Rightarrow> Done (r\<lparr>route_func := b\<rparr>, res))"

definition try_add_routed_handler ::
  "('b, 'e, 'f) route_ops \<Rightarrow> bytes \<Rightarrow> 'h \<Rightarrow> ('b, 'h) router \<Rightarrow> ('b, 'h) router \<times> ('e + usize)" where
  "try_add_routed_handler ops path h r =
     (let index = funcs_len r in
      case rt_add_route ops (route_func r) path index of
        (b, Inl e) \<Rightarrow> (r\<lparr>route_func := b\<rparr>, Inl e)
      | (b, Inr _) \<Rightarrow> (r\<lparr>route_func := b, funcs := funcs r @ [h]\<rparr>, Inr index))"

definition router_finish ::
  "('b, 'e, 'f) route_ops \<Rightarrow> ('b, 'h) router \<Rightarrow> ('f, 'h) router" where
  "router_finish ops r = \<lparr>route_func = rt_finish ops (route_func r), funcs = funcs r\<rparr>"

subsection \<open>Routing a message\<close>

text \<open>
  \<open>self.funcs[index]\<close> panics out of range. A message the handler left in place is dropped
  on success, with its drop guard, and returned to the caller on error.
\<close>

definition router_route ::
  "('q, writer_directive) chan_ops \<Rightarrow> ('f \<Rightarrow> bytes \<Rightarrow> usize option)
   \<Rightarrow> ('f, ('p, 'd, 'q, 'u) exec_func) router \<Rightarrow> ('p, 'd, 'q, 'u) rpc_core \<Rightarrow> inbound_inner
   \<Rightarrow> (('p, 'd, 'q, 'u) rpc_core \<times> ((inbound_inner option \<times> exec_error) + unit)) outcome" where
  "router_route ops lookup r core ib =
     obind (inbound_method ib) (\<lambda>m.
       case lookup (route_func r) m of
         None \<Rightarrow> Done (core, Inl (Some ib, RouteFailed))
       | Some index \<Rightarrow>
           if unat index < length (funcs r) then
             obind ((funcs r ! unat index) core (Some ib)) (\<lambda>(core1, left, res).
               case res of
                 Inl e \<Rightarrow> Done (core1, Inl (left, e))
               | Inr _ \<Rightarrow>
                   (case left of
                      None \<Rightarrow> Done (core1, Inr ())
                    | Some ib1 \<Rightarrow> obind (inbound_drop ops core1 ib1) (\<lambda>core2. Done (core2, Inr ()))))
           else Panic)"

subsection \<open>The contract of a route function\<close>

text \<open>
  What the trait documents: adding reports an error when the expression is already
  registered, and a route that was added is found. What an error leaves behind is only
  bounded: no other expression changes.
\<close>

locale route_table =
  fixes ops :: "('b, 'e, 'f) route_ops" and routes :: "'b \<Rightarrow> bytes \<Rightarrow> usize option"
  assumes add_ok: "rt_add_route ops b path v = (b', Inr ()) \<Longrightarrow>
      routes b path = None \<and> routes b' = (routes b)(path \<mapsto> v)"
    and add_err: "rt_add_route ops b path v = (b', Inl e) \<Longrightarrow> q \<noteq> path \<Longrightarrow> routes b' q = routes b q"
    and add_fresh: "routes b path = None \<Longrightarrow> \<exists>b'. rt_add_route ops b path v = (b', Inr ())"
    and finish_routes: "rt_route ops (rt_finish ops b) = routes b"
begin

text \<open>Every route leads to a handler.\<close>

definition closed_routes :: "('b, 'h) router \<Rightarrow> bool" where
  "closed_routes r \<longleftrightarrow> (\<forall>q i. routes (route_func r) q = Some i \<longrightarrow> unat i < length (funcs r))"

lemma closed_push: "closed_routes r \<Longrightarrow> closed_routes (push_handler h r)"
  by (auto simp: closed_routes_def push_handler_def less_SucI)

lemma unat_len: "length (funcs r) < 2 ^ 64 \<Longrightarrow> unat (funcs_len r) = length (funcs r)"
  by (simp add: funcs_len_def unsigned_of_nat take_bit_nat_eq_self)

lemma added_handler:
  assumes "try_add_routed_handler ops path h r = (r', Inr i)"
  shows "i = funcs_len r" "funcs r' = funcs r @ [h]" "routes (route_func r) path = None"
    "routes (route_func r') = (routes (route_func r))(path \<mapsto> funcs_len r)"
proof -
  obtain b' res where add: "rt_add_route ops (route_func r) path (funcs_len r) = (b', res)" by fastforce
  then have "res = Inr ()"
    using assms by (cases res) (auto simp: try_add_routed_handler_def Let_def)
  then show "i = funcs_len r" "funcs r' = funcs r @ [h]" "routes (route_func r) path = None"
    "routes (route_func r') = (routes (route_func r))(path \<mapsto> funcs_len r)"
    using assms add add_ok [of "route_func r" path "funcs_len r" b']
    by (auto simp: try_add_routed_handler_def Let_def)
qed

lemma closed_add:
  assumes "closed_routes r" and "length (funcs r) < 2 ^ 64"
    and "try_add_routed_handler ops path h r = (r', Inr i)"
  shows "closed_routes r'"
  using assms(1) unat_len [OF assms(2)] added_handler [OF assms(3)]
  by (auto simp: closed_routes_def less_SucI)

lemma add_handler_fresh:
  "routes (route_func r) path = None \<Longrightarrow> \<exists>r' i. try_add_routed_handler ops path h r = (r', Inr i)"
  using add_fresh [of "route_func r" path "funcs_len r"]
  by (auto simp: try_add_routed_handler_def Let_def)

lemma finish_route:
  "rt_route ops (route_func (router_finish ops r)) = routes (route_func r)"
  "funcs (router_finish ops r) = funcs r"
  by (simp_all add: router_finish_def finish_routes)

end

subsection \<open>Maps as route functions\<close>

text \<open>
  \<open>define_for!\<close> implements both traits for the three map types with the same code: \<open>insert\<close>
  replaces the value and returns the old one.
\<close>

definition map_add_route :: "(bytes \<Rightarrow> usize option) \<Rightarrow> bytes \<Rightarrow> usize
   \<Rightarrow> (bytes \<Rightarrow> usize option) \<times> (unit + unit)" where
  "map_add_route m path v = (m(path \<mapsto> v), if m path = None then Inr () else Inl ())"

definition map_route_ops :: "(bytes \<Rightarrow> usize option, unit, bytes \<Rightarrow> usize option) route_ops" where
  "map_route_ops = \<lparr>rt_add_route = map_add_route, rt_finish = (\<lambda>m. m), rt_route = (\<lambda>m q. m q)\<rparr>"

interpretation mrt: route_table map_route_ops "\<lambda>m. m"
  by unfold_locales (auto simp: map_route_ops_def map_add_route_def split: if_splits)

subsection \<open>A router with one handler for each name\<close>

text \<open>Adding a list of handlers one after the other, as a user of the builder does.\<close>

fun add_handlers ::
  "('b, 'e, 'f) route_ops \<Rightarrow> (bytes \<times> 'h) list \<Rightarrow> ('b, 'h) router \<Rightarrow> ('b, 'h) router" where
  "add_handlers ops [] r = r"
| "add_handlers ops ((path, h) # hs) r = add_handlers ops hs (fst (try_add_routed_handler ops path h r))"

text \<open>The index a name gets, counting from \<open>k\<close>.\<close>

fun index_of :: "nat \<Rightarrow> (bytes \<times> 'h) list \<Rightarrow> bytes \<Rightarrow> nat option" where
  "index_of k [] q = None"
| "index_of k ((path, h) # hs) q = (if path = q then Some k else index_of (Suc k) hs q)"

lemma index_of_None: "index_of k hs q = None \<longleftrightarrow> map_of hs q = None"
  by (induction k hs q rule: index_of.induct) auto

lemma index_of_Some:
  "index_of k hs q = Some n \<Longrightarrow> k \<le> n \<and> n - k < length hs \<and> map_of hs q = Some (snd (hs ! (n - k)))"
proof (induction k hs q rule: index_of.induct)
  case (1 k q)
  then show ?case by simp
next
  case (2 k path h hs q)
  then show ?case by (cases "path = q") (auto simp: nth_Cons' Suc_le_eq Suc_diff_Suc)
qed

context route_table
begin

lemma add_handlers_routes:
  "distinct (map fst hs) \<Longrightarrow> \<forall>p \<in> fst ` set hs. routes (route_func r) p = None \<Longrightarrow>
   length (funcs r) + length hs < 2 ^ 64 \<Longrightarrow>
   funcs (add_handlers ops hs r) = funcs r @ map snd hs \<and>
   (\<forall>q. routes (route_func (add_handlers ops hs r)) q =
      (case index_of (length (funcs r)) hs q of
         None \<Rightarrow> routes (route_func r) q | Some n \<Rightarrow> Some (word_of_nat n)))"
proof (induction hs arbitrary: r)
  case Nil
  then show ?case by simp
next
  case (Cons x hs)
  obtain path h where x: "x = (path, h)" by (cases x)
  have "routes (route_func r) path = None" using Cons.prems(2) x by simp
  then obtain r1 i where add: "try_add_routed_handler ops path h r = (r1, Inr i)"
    using add_handler_fresh [of r path h] by blast
  note r1 = added_handler [OF add]
  have fresh: "\<forall>p \<in> fst ` set hs. routes (route_func r1) p = None"
    using Cons.prems(1,2) r1(4) x by auto
  have rest: "funcs (add_handlers ops hs r1) = funcs r1 @ map snd hs"
    "routes (route_func (add_handlers ops hs r1)) q =
      (case index_of (length (funcs r1)) hs q of
         None \<Rightarrow> routes (route_func r1) q | Some n \<Rightarrow> Some (word_of_nat n))" for q
    using Cons.IH [OF _ fresh] Cons.prems(1,3) r1(2) by simp_all
  have "index_of n hs path = None" for n
    using Cons.prems(1) x by (simp add: index_of_None map_of_eq_None_iff)
  then show ?case
    using rest r1(2,4) x add by (auto simp: funcs_len_def split: option.splits)
qed

end

subsection \<open>Properties\<close>

text \<open>C21: Routing calls the handler registered for the method, and no other: for a router built on a
  map from any list of handlers under distinct names, a message whose method has a handler
  is given to exactly that handler, and dropped (with its automatic response) when the
  handler succeeds and leaves it in place; a message with any other method is returned
  untouched with \<open>RouteFailed\<close>. The router itself never panics.\<close>

theorem router_dispatches_by_name:
  assumes "distinct (map fst hs)" and "length hs < 2 ^ 64" and "inbound_method ib = Done m"
  shows "router_route ops (rt_route map_route_ops)
      (router_finish map_route_ops (add_handlers map_route_ops hs (router_builder_new Map.empty))) core ib =
    (case map_of hs m of
       None \<Rightarrow> Done (core, Inl (Some ib, RouteFailed))
     | Some h \<Rightarrow> obind (h core (Some ib)) (\<lambda>(core1, left, res).
         case (res, left) of
           (Inl e, _) \<Rightarrow> Done (core1, Inl (left, e))
         | (Inr _, None) \<Rightarrow> Done (core1, Inr ())
         | (Inr _, Some ib1) \<Rightarrow> obind (inbound_drop ops core1 ib1) (\<lambda>core2. Done (core2, Inr ()))))"
proof -
  let ?r = "add_handlers map_route_ops hs (router_builder_new Map.empty)"
  have built: "funcs ?r = map snd hs"
    "route_func ?r m = map_option word_of_nat (index_of 0 hs m)"
    using mrt.add_handlers_routes [OF assms(1), of "router_builder_new Map.empty"] assms(2)
    by (auto simp: router_builder_new_def split: option.splits)
  show ?thesis
  proof (cases "index_of 0 hs m")
    case None
    then show ?thesis using built assms(3) index_of_None [of 0 hs m]
      by (simp add: router_route_def router_finish_def map_route_ops_def)
  next
    case (Some n)
    then have n: "n < length hs" "map_of hs m = Some (snd (hs ! n))"
      using index_of_Some [of 0 hs m n] by simp_all
    then have "unat (word_of_nat n :: usize) = n"
      using assms(2) by (simp add: unsigned_of_nat take_bit_nat_eq_self)
    then show ?thesis using n built assms(3) Some
      by (cases "snd (hs ! n) core (Some ib)")
        (auto simp: router_route_def router_finish_def map_route_ops_def split: sum.splits option.splits)
  qed
qed

text \<open>A handler for the witnesses: it refuses the message and leaves it in place.\<close>

definition refuse_handler :: "(bytes, bytes, writer_directive fifo, unit) exec_func" where
  "refuse_handler = (\<lambda>core ib. Done (core, ib, Inl RequestOnNotifyHandler))"

definition notify_A :: inbound_inner where
  "notify_A = inbound_new_notify [0x41] (RangeType 0 1) (RangeType 1 1)"

lemma notify_A_method: "inbound_method notify_A = Done [0x41]"
  by (simp add: notify_A_def inbound_new_notify_def inbound_method_def method_bytes_def index_by_eq
      index_range_def sub_bytes_def utf8_valid_ascii)

theorem router_dispatches_by_name_witness:
  "router_route fifo_ops (rt_route map_route_ops)
     (router_finish map_route_ops
       (add_handlers map_route_ops [([0x40], \<lambda>core ib. Panic), ([0x41], refuse_handler)]
          (router_builder_new Map.empty))) (core_one None) notify_A =
    Done (core_one None, Inl (Some notify_A, RequestOnNotifyHandler))"
  using router_dispatches_by_name [of "[([0x40], \<lambda>core ib. Panic), ([0x41], refuse_handler)]"
      notify_A "[0x41]" fifo_ops "core_one None"]
  by (simp add: notify_A_method refuse_handler_def)

text \<open>A rejected duplicate breaks the route that was there. The map implementation of
  \<open>add_route\<close> replaces the index before it reports the error, while the handler that was
  to get this index is discarded: afterwards a message for the name, which had a handler,
  makes the router panic with an index out of range.\<close>

theorem duplicate_route_panics:
  assumes "route_func r path = Some j" and "length (funcs r) < 2 ^ 64"
    and "inbound_method ib = Done path"
  shows "\<exists>r'. try_add_routed_handler map_route_ops path h r = (r', Inl ()) \<and> funcs r' = funcs r \<and>
    router_route ops (rt_route map_route_ops) (router_finish map_route_ops r') core ib = Panic"
proof -
  let ?r' = "r\<lparr>route_func := (route_func r)(path \<mapsto> funcs_len r)\<rparr>"
  have "try_add_routed_handler map_route_ops path h r = (?r', Inl ())"
    using assms(1) by (simp add: try_add_routed_handler_def map_route_ops_def map_add_route_def)
  moreover have "router_route ops (rt_route map_route_ops) (router_finish map_route_ops ?r') core ib = Panic"
    using assms(3) mrt.unat_len [OF assms(2)]
    by (simp add: router_route_def router_finish_def map_route_ops_def)
  ultimately show ?thesis by auto
qed

theorem duplicate_route_panics_witness:
  "\<exists>r'. try_add_routed_handler map_route_ops [0x41] refuse_handler
      (add_handlers map_route_ops [([0x41], refuse_handler)] (router_builder_new Map.empty)) = (r', Inl ()) \<and>
    router_route fifo_ops (rt_route map_route_ops) (router_finish map_route_ops r') (core_one None) notify_A = Panic"
  using duplicate_route_panics [of "add_handlers map_route_ops [([0x41], refuse_handler)] (router_builder_new Map.empty)"
      "[0x41]" 0 notify_A refuse_handler fifo_ops "core_one None"]
  by (auto simp: notify_A_method router_builder_new_def try_add_routed_handler_def map_route_ops_def
      map_add_route_def funcs_len_def)

end
