(* ===== verification/Typed_Methods.thy ===== *)
theory Typed_Methods
  imports Connection
begin

text \<open>
  \<open>src/macros/mod.rs\<close> and \<open>src/macros/inbound.rs\<close>: what the code generated by the service
  macro stands on. A method is a name with the serializers and deserializers of its
  parameter, result and error; a cached message is an inbound message together with its
  parsed parameter, and a typed future parses the response it receives.
\<close>

subsection \<open>Methods\<close>

text \<open>
  The traits \<open>NotifyMethod\<close> and \<open>RequestMethod\<close>. A value that is sent is turned into
  something serialisable (\<open>'p\<close>); a value that is received is read by a deserializer.
\<close>

record ('p, 'd, 'ps, 'pr) notify_method =
  METHOD_NAME :: bytes
  param_send :: "'ps \<Rightarrow> 'p"
  param_recv :: "'d \<Rightarrow> string + 'pr"

record ('p, 'd, 'ps, 'pr, 'os, 'ok, 'es, 'er) request_method = "('p, 'd, 'ps, 'pr) notify_method" +
  ok_send :: "'os \<Rightarrow> 'p"
  ok_recv :: "'d \<Rightarrow> string + 'ok"
  err_send :: "'es \<Rightarrow> 'p"
  err_recv :: "'d \<Rightarrow> string + 'er"

text \<open>
  \<open>parsed_pair\<close> parses the payload the message gives. The transmuted lifetimes have no
  counterpart here: the model's values do not point into buffers.
\<close>

definition parsed_pair ::
  "('p, 'd) codec \<Rightarrow> bytes outcome \<Rightarrow> ('d \<Rightarrow> string + 'r) \<Rightarrow> (serde_error + 'r) outcome" where
  "parsed_pair c payload deserialize = obind payload (\<lambda>bs. Done (parse_message c deserialize bs))"

subsection \<open>Cached messages\<close>

record 'v cached_notify =
  cn_v :: 'v
  cn_ib :: inbound_inner

record 'v cached_request =
  cr_inner :: "'v cached_notify"

definition cached_notify_create ::
  "('p, 'd) codec \<Rightarrow> ('d \<Rightarrow> string + 'v) \<Rightarrow> inbound_inner
   \<Rightarrow> ((inbound_inner \<times> serde_error) + 'v cached_notify) outcome" where
  "cached_notify_create c deserialize msg =
     obind (parsed_pair c (payload_bytes msg) deserialize) (\<lambda>parsed.
       case parsed of
         Inl err \<Rightarrow> Done (Inl (msg, err))
       | Inr ok \<Rightarrow> Done (Inr \<lparr>cn_v = ok, cn_ib = msg\<rparr>))"

definition cached_request_create ::
  "('p, 'd) codec \<Rightarrow> ('d \<Rightarrow> string + 'v) \<Rightarrow> inbound_inner
   \<Rightarrow> ((inbound_inner \<times> serde_error) + 'v cached_request) outcome" where
  "cached_request_create c deserialize msg =
     obind (cached_notify_create c deserialize msg) (\<lambda>r. Done (map_sum id (\<lambda>n. \<lparr>cr_inner = n\<rparr>) r))"

definition cached_args :: "'v cached_notify \<Rightarrow> 'v" where
  "cached_args n = cn_v n"

text \<open>\<open>Deref\<close> of the two: the inbound message of a notification, the notification of a request.\<close>

definition notify_deref :: "'v cached_notify \<Rightarrow> inbound_inner" where
  "notify_deref n = cn_ib n"

definition request_deref :: "'v cached_request \<Rightarrow> 'v cached_notify" where
  "request_deref r = cr_inner r"

definition with_inbound :: "'v cached_request \<Rightarrow> inbound_inner \<Rightarrow> 'v cached_request" where
  "with_inbound r ib = r\<lparr>cr_inner := (cr_inner r)\<lparr>cn_ib := ib\<rparr>\<rparr>"

text \<open>The result of the handler, as the payload the two response functions are given.\<close>

definition typed_payload ::
  "('p, 'd, 'ps, 'pr, 'os, 'ok, 'es, 'er) request_method \<Rightarrow> 'es + 'os \<Rightarrow> 'p response_payload" where
  "typed_payload M result =
     (case result of
        Inr msg \<Rightarrow> payload_from_result (Inr (ok_send M msg))
      | Inl msg \<Rightarrow> payload_from_result (Inl (err_send M msg)))"

definition cached_respond ::
  "('q, writer_directive) chan_ops \<Rightarrow> ('p, 'd, 'ps, 'pr, 'os, 'ok, 'es, 'er) request_method
   \<Rightarrow> ('p, 'd, 'q, 'u) rpc_core \<Rightarrow> 'pr cached_request \<Rightarrow> bytes \<Rightarrow> 'es + 'os
   \<Rightarrow> (('p, 'd, 'q, 'u) rpc_core \<times> 'pr cached_request \<times> bytes \<times> (send_response_error + unit) poll) outcome" where
  "cached_respond ops M core r buf result =
     obind (respond ops core (cn_ib (cr_inner r)) buf (typed_payload M result)) (\<lambda>(core1, ib, buf1, res).
       Done (core1, with_inbound r ib, buf1, res))"

definition cached_try_response ::
  "('q, writer_directive) chan_ops \<Rightarrow> ('p, 'd, 'ps, 'pr, 'os, 'ok, 'es, 'er) request_method
   \<Rightarrow> ('p, 'd, 'q, 'u) rpc_core \<Rightarrow> 'pr cached_request \<Rightarrow> bytes \<Rightarrow> 'es + 'os
   \<Rightarrow> (('p, 'd, 'q, 'u) rpc_core \<times> 'pr cached_request \<times> bytes \<times> (try_send_response_error + unit)) outcome" where
  "cached_try_response ops M core r buf result =
     obind (try_response ops core (cn_ib (cr_inner r)) buf (typed_payload M result)) (\<lambda>(core1, ib, buf1, res).
       Done (core1, with_inbound r ib, buf1, res))"

subsection \<open>Typed futures\<close>

datatype ('c, 'er) cached_wait_error =
  WaitClosed | WaitEmpty | WaitRetrieved
| WaitResponse "'c error_response" 'er
| WaitDeserializeFailed serde_error "'c error_response + 'c response_msg"

text \<open>A response with its parsed payload, \<open>CachedOkayObj\<close> and \<open>CachedErrorObj\<close>, is a pair.\<close>

fun okay_deref :: "'c response_msg \<times> 'ok \<Rightarrow> 'c response_msg" where
  "okay_deref (resp, _) = resp"

fun okay_value :: "'c response_msg \<times> 'ok \<Rightarrow> 'ok" where
  "okay_value (_, v) = v"

fun error_deref :: "'c error_response \<times> 'er \<Rightarrow> 'c error_response" where
  "error_deref (resp, _) = resp"

fun error_value :: "'c error_response \<times> 'er \<Rightarrow> 'er" where
  "error_value (_, v) = v"

fun cached_into_response :: "('c, 'er) cached_wait_error \<Rightarrow> ('c error_response \<times> 'er) option" where
  "cached_into_response (WaitResponse e v) = Some (e, v)"
| "cached_into_response _ = None"

fun cached_as_response :: "('c, 'er) cached_wait_error \<Rightarrow> ('c error_response \<times> 'er) option" where
  "cached_as_response (WaitResponse e v) = Some (e, v)"
| "cached_as_response _ = None"

definition cached_wait_result ::
  "('d \<Rightarrow> string + 'ok) \<Rightarrow> ('d \<Rightarrow> string + 'er)
   \<Rightarrow> ('p, 'd) codec response_receive_error + ('p, 'd) codec response_msg
   \<Rightarrow> ((('p, 'd) codec, 'er) cached_wait_error + ('p, 'd) codec response_msg \<times> 'ok) outcome" where
  "cached_wait_result okr errr r =
     (case r of
        Inr resp \<Rightarrow>
          obind (parsed_pair (resp_codec resp) (response_payload_bytes resp) okr) (\<lambda>parsed.
            Done (case parsed of
                Inr v \<Rightarrow> Inr (resp, v)
              | Inl e \<Rightarrow> Inl (WaitDeserializeFailed e (Inr resp))))
      | Inl RecvClosed \<Rightarrow> Done (Inl WaitClosed)
      | Inl RecvEmpty \<Rightarrow> Done (Inl WaitEmpty)
      | Inl RecvRetrieved \<Rightarrow> Done (Inl WaitRetrieved)
      | Inl (RecvResponse resp) \<Rightarrow>
          obind (parsed_pair (er_codec resp) (error_payload_bytes resp) errr) (\<lambda>parsed.
            Done (Inl (case parsed of
                Inr v \<Rightarrow> WaitResponse resp v
              | Inl e \<Rightarrow> WaitDeserializeFailed e (Inl resp)))))"

definition cached_wait_poll ::
  "('p, 'd) codec \<Rightarrow> ('p, 'd, 'ps, 'pr, 'os, 'ok, 'es, 'er) request_method \<Rightarrow> task \<Rightarrow> request_context
   \<Rightarrow> receive_response
   \<Rightarrow> (request_context \<times> receive_response
       \<times> ((('p, 'd) codec, 'er) cached_wait_error + ('p, 'd) codec response_msg \<times> 'ok) poll) outcome" where
  "cached_wait_poll c M t tc rr =
     obind (rr_poll c t tc rr) (\<lambda>(tc1, rr1, polled).
       case polled of
         Pending \<Rightarrow> Done (tc1, rr1, Pending)
       | Ready_now r \<Rightarrow>
           obind (cached_wait_result (ok_recv M) (err_recv M) r) (\<lambda>res. Done (tc1, rr1, Ready_now res)))"

text \<open>
  What the accessors give fits together: the value of a cached object is the parsed payload of
  the message it holds, and \<open>into_response\<close> gives what \<open>as_response\<close> shows.
\<close>

lemma cached_okay_consistent:
  assumes "cached_wait_result okr errr r = Done (Inr x)"
  shows "r = Inr (okay_deref x) \<and>
    parsed_pair (resp_codec (okay_deref x)) (response_payload_bytes (okay_deref x)) okr = Done (Inr (okay_value x))"
proof (cases r)
  case (Inl e)
  then show ?thesis using assms by (cases e) (simp_all add: cached_wait_result_def obind_Done_iff)
next
  case (Inr resp)
  then obtain parsed where parsed: "parsed_pair (resp_codec resp) (response_payload_bytes resp) okr = Done parsed"
    using assms by (auto simp: cached_wait_result_def obind_Done_iff)
  then show ?thesis using Inr assms by (cases parsed) (auto simp: cached_wait_result_def)
qed

lemma cached_error_consistent:
  assumes "cached_wait_result okr errr r = Done (Inl e)" and "cached_as_response e = Some x"
  shows "r = Inl (RecvResponse (error_deref x)) \<and> cached_into_response e = Some x \<and>
    parsed_pair (er_codec (error_deref x)) (error_payload_bytes (error_deref x)) errr = Done (Inr (error_value x))"
proof (cases r)
  case (Inr resp)
  then obtain parsed where "parsed_pair (resp_codec resp) (response_payload_bytes resp) okr = Done parsed"
    using assms(1) by (auto simp: cached_wait_result_def obind_Done_iff)
  then show ?thesis using Inr assms by (cases parsed) (auto simp: cached_wait_result_def)
next
  case (Inl f)
  show ?thesis
  proof (cases f)
    case (RecvResponse resp)
    then obtain parsed where "parsed_pair (er_codec resp) (error_payload_bytes resp) errr = Done parsed"
      using assms(1) Inl by (auto simp: cached_wait_result_def obind_Done_iff)
    then show ?thesis using Inl RecvResponse assms by (cases parsed) (auto simp: cached_wait_result_def)
  qed (use assms Inl in \<open>auto simp: cached_wait_result_def\<close>)
qed

subsection \<open>Typed senders\<close>

definition typed_notify ::
  "('q, writer_directive) chan_ops \<Rightarrow> ('p, 'd, 'ps, 'pr, 'z) notify_method_scheme
   \<Rightarrow> ('p, 'd, 'q, 'u) rpc_core \<Rightarrow> bytes \<Rightarrow> 'ps
   \<Rightarrow> (('p, 'd, 'q, 'u) rpc_core \<times> bytes \<times> (send_msg_error + unit)) poll outcome" where
  "typed_notify ops M core buf p = send_notify ops core buf (METHOD_NAME M) (param_send M p)"

definition typed_try_notify ::
  "('q, writer_directive) chan_ops \<Rightarrow> ('p, 'd, 'ps, 'pr, 'z) notify_method_scheme
   \<Rightarrow> ('p, 'd, 'q, 'u) rpc_core \<Rightarrow> bytes \<Rightarrow> 'ps
   \<Rightarrow> (('p, 'd, 'q, 'u) rpc_core \<times> bytes \<times> (try_send_msg_error + unit)) outcome" where
  "typed_try_notify ops M core buf p = try_send_notify ops core buf (METHOD_NAME M) (param_send M p)"

definition typed_prepare ::
  "('p, 'd, 'ps, 'pr, 'z) notify_method_scheme \<Rightarrow> ('p, 'd) codec \<Rightarrow> bytes \<Rightarrow> 'ps
   \<Rightarrow> bytes \<times> (encode_error + prepared_packet)" where
  "typed_prepare M c buf p = prepare_notify c buf (METHOD_NAME M) (param_send M p)"

definition sender_prepare ::
  "('p, 'd, 'ps, 'pr, 'z) notify_method_scheme \<Rightarrow> ('p, 'd, 'q, 'u) rpc_core \<Rightarrow> bytes \<Rightarrow> 'ps
   \<Rightarrow> bytes \<times> (encode_error + prepared_packet)" where
  "sender_prepare M core buf p = prepare_notify (core_codec core) buf (METHOD_NAME M) (param_send M p)"

definition typed_request ::
  "('q, writer_directive) chan_ops \<Rightarrow> ('p, 'd, 'ps, 'pr, 'os, 'ok, 'es, 'er) request_method
   \<Rightarrow> ('p, 'd, 'q, 'u) rpc_core \<Rightarrow> ('g \<Rightarrow> u64 \<times> 'g) \<Rightarrow> 'g \<Rightarrow> bytes \<Rightarrow> 'ps
   \<Rightarrow> (('p, 'd, 'q, 'u) rpc_core \<times> bytes \<times> 'g \<times> (send_msg_error + receive_response) suspended) outcome" where
  "typed_request ops M core rnd g buf p = send_request ops core rnd g buf (METHOD_NAME M) (param_send M p)"

definition typed_try_request ::
  "('q, writer_directive) chan_ops \<Rightarrow> ('p, 'd, 'ps, 'pr, 'os, 'ok, 'es, 'er) request_method
   \<Rightarrow> ('p, 'd, 'q, 'u) rpc_core \<Rightarrow> ('g \<Rightarrow> u64 \<times> 'g) \<Rightarrow> 'g \<Rightarrow> bytes \<Rightarrow> 'ps
   \<Rightarrow> (('p, 'd, 'q, 'u) rpc_core \<times> bytes \<times> 'g \<times> (try_send_msg_error + receive_response)) outcome" where
  "typed_try_request ops M core rnd g buf p =
     try_send_request ops core rnd g buf (METHOD_NAME M) (param_send M p)"

subsection \<open>Facts\<close>

lemma cached_request_create_Inr:
  assumes "payload_bytes ib = Done bs" and "parse_message c deserialize bs = Inr v"
  shows "cached_request_create c deserialize ib = Done (Inr \<lparr>cr_inner = \<lparr>cn_v = v, cn_ib = ib\<rparr>\<rparr>)"
  using assms by (simp add: cached_request_create_def cached_notify_create_def parsed_pair_def)

text \<open>A message is handed over or handed back; it is not lost in between.\<close>

lemma cached_create_keeps_message:
  assumes "cached_request_create c deserialize ib = Done r"
  shows "case r of Inr m \<Rightarrow> cn_ib (cr_inner m) = ib | Inl (ib', _) \<Rightarrow> ib' = ib"
  using assms
  by (cases "payload_bytes ib")
    (auto simp: cached_request_create_def cached_notify_create_def parsed_pair_def obind_Done_iff
      split: sum.splits)

text \<open>What a typed future yields when the untyped one yields an answer.\<close>

lemma answers_typed:
  assumes "answers payload_of carried (encode_payload (typed_payload M result)) res"
    and "\<And>msg. res = Inr msg \<Longrightarrow> resp_codec msg = c" and "\<And>e. res = Inl (RecvResponse e) \<Longrightarrow> er_codec e = c"
    and "\<And>y. result = Inr y \<Longrightarrow> parse_message c (ok_recv M) (payload_of (ok_send M y)) = Inr (okv y)"
    and "\<And>e. result = Inl e \<Longrightarrow> parse_message c (err_recv M) (payload_of (err_send M e)) = Inr (errv e)"
  shows "case result of
      Inr y \<Rightarrow> \<exists>resp. cached_wait_result (ok_recv M) (err_recv M) res = Done (Inr (resp, okv y))
    | Inl e \<Rightarrow> \<exists>err. cached_wait_result (ok_recv M) (err_recv M) res = Done (Inl (WaitResponse err (errv e))) \<and>
        er_errc err = carried Unknown"
proof (cases result)
  case (Inr y)
  then obtain msg where "res = Inr msg" "response_payload_bytes msg = Done (payload_of (ok_send M y))"
    using assms(1) by (auto simp: answers_def typed_payload_def payload_from_result_def)
  then show ?thesis using Inr assms(2,4) by (simp add: cached_wait_result_def parsed_pair_def)
next
  case (Inl e)
  then obtain err where "res = Inl (RecvResponse err)" "error_payload_bytes err = Done (payload_of (err_send M e))"
    "er_errc err = carried Unknown"
    using assms(1) by (auto simp: answers_def typed_payload_def payload_from_result_def)
  then show ?thesis using Inl assms(3,5) by (simp add: cached_wait_result_def parsed_pair_def)
qed

lemma make_response_codec:
  "make_response c raw payload errc = Inr msg \<Longrightarrow> resp_codec msg = c"
  "make_response c raw payload errc = Inl err \<Longrightarrow> er_codec err = c"
  by (cases errc; auto simp: make_response_def)+

lemma rr_poll_codec:
  assumes "rr_poll c t tc rr = Done (tc1, rr1, Ready_now res)"
  shows "res = Inr msg \<Longrightarrow> resp_codec msg = c" and "res = Inl (RecvResponse err) \<Longrightarrow> er_codec err = c"
proof -
  have "(\<forall>msg. res = Inr msg \<longrightarrow> resp_codec msg = c) \<and> (\<forall>err. res = Inl (RecvResponse err) \<longrightarrow> er_codec err = c)"
  proof (cases "rr_state rr")
    case None
    then show ?thesis using assms by (auto simp: rr_poll_def)
  next
    case (Some h)
    then obtain tc2 polled where rp: "receive_poll (waker_register (rcv_obj h) t tc) h = Done (tc2, polled)"
      using assms by (auto simp: rr_poll_def obind_Done_iff)
    show ?thesis
    proof (cases polled)
      case Pending
      then show ?thesis using assms Some rp
        by (auto simp: rr_poll_def obind_Done_iff split: if_splits)
    next
      case (Ready_now x)
      show ?thesis
      proof (cases x)
        case None
        then show ?thesis using assms Some rp Ready_now by (auto simp: rr_poll_def obind_Done_iff)
      next
        case (Some y)
        obtain raw errc payload where y: "y = (raw, errc, payload)" by (cases y)
        have "res = map_err RecvResponse (make_response c raw payload errc)"
          using assms \<open>rr_state rr = Some h\<close> rp Ready_now Some y
          by (auto simp: rr_poll_def obind_Done_iff)
        then show ?thesis
          using make_response_codec [of c raw payload errc]
          by (cases "make_response c raw payload errc") auto
      qed
    qed
  qed
  then show "res = Inr msg \<Longrightarrow> resp_codec msg = c" "res = Inl (RecvResponse err) \<Longrightarrow> er_codec err = c" by blast+
qed

subsection \<open>Properties\<close>

text \<open>C1: A typed call returns what the handler returned. The ends are as for the untyped round
  trip: open channels with room, a client that is not expired, an identifier not in its
  table that the codec transports, parameters that can be encoded, frames of less than
  \<open>2 ^ 32\<close> bytes; and serde reads back what it wrote for the method's parameter, result and
  error. Then the handler is given a message whose argument is the value the caller passed
  and whose raw identifier the codec reads as the caller's. Whatever the handler responds
  with, a result or an error, if the codec can encode and transport that response under this
  raw identifier, it is queued as one frame, and that frame gives the caller's typed future
  its value: a result as the parsed result, an error as a response error with the parsed
  error value.\<close>

theorem typed_call_returns:
  assumes "codec_contract c good_method payload_of carried good_id good_response"
    and "mpsc_channel ops queue closed capacity"
    and "core_codec client = c" and "core_reqs client = Some tc" and "table_ok tc" and "\<not> expired tc"
    and "t_tx_deferred client = Some q" and "\<not> closed q" and "has_room (capacity q) (queue q)"
    and "rnd g = (v, g1)" and "v \<noteq> 0" and "good_method (METHOD_NAME M)"
    and "encode_request c (RequestId v) (METHOD_NAME M) (param_send M x) [] = (f, Inr i)" and "length f < 2 ^ 32"
    and "map_of (wait_list tc) i = None"
    and "core_codec server = c" and "t_tx_deferred server = Some q2" and "\<not> closed q2"
    and "has_room (capacity q2) (queue q2)" and "good_id i"
    and param: "parse_message c (param_recv M) (payload_of (param_send M x)) = Inr arg"
    and ok: "\<And>y. parse_message c (ok_recv M) (payload_of (ok_send M y)) = Inr (okv y)"
    and err: "\<And>e. parse_message c (err_recv M) (payload_of (err_send M e)) = Inr (errv e)"
  shows "\<exists>client1 resp ib req raw. typed_try_request ops M client rnd g buf x = Done (client1, [], g1, Inr resp) \<and>
    handle_inbound_once server f [] = Done (server, [], Inr (Some ib)) \<and>
    cached_request_create c (param_recv M) ib = Done (Inr req) \<and> cached_args (cr_inner req) = arg \<and>
    inbound_request_id ib = Done (Some raw) \<and> restore_request_id c raw = Inr i \<and>
    (\<forall>result f2. encode_response c raw (encode_payload (typed_payload M result)) [] = (f2, Inr ()) \<longrightarrow>
       length f2 < 2 ^ 32 \<longrightarrow> good_response (encode_payload (typed_payload M result)) \<longrightarrow>
       (\<exists>server1 req1 q2'. cached_try_response ops M server req [] result = Done (server1, req1, [], Inr ()) \<and>
          t_tx_deferred server1 = Some q2' \<and> queue q2' = queue q2 @ [WriteMsg f2]) \<and>
       (\<exists>client2 tc1 tc2 res. handle_inbound_once client1 f2 [] = Done (client2, [], Inr None) \<and>
          core_reqs client2 = Some tc1 \<and>
          cached_wait_poll c M t tc1 resp = Done (tc2, \<lparr>rr_state = None\<rparr>, Ready_now res) \<and>
          (case result of
             Inr y \<Rightarrow> \<exists>msg. res = Inr (msg, okv y)
           | Inl e \<Rightarrow> \<exists>er. res = Inl (WaitResponse er (errv e)) \<and> er_errc er = carried Unknown)))"
proof -
  obtain client1 resp q' ib raw where sent: "typed_try_request ops M client rnd g buf x = Done (client1, [], g1, Inr resp)"
    and ib: "handle_inbound_once server f [] = Done (server, [], Inr (Some ib))"
    "payload_bytes ib = Done (payload_of (param_send M x))"
    and raw: "inbound_request_id ib = Done (Some raw)" "restore_request_id c raw = Inr i"
    and returns: "\<forall>result f2. encode_response c raw (encode_payload result) [] = (f2, Inr ()) \<longrightarrow> length f2 < 2 ^ 32 \<longrightarrow>
        good_response (encode_payload result) \<longrightarrow>
        (\<exists>server1 ib1 q2'. try_response ops server ib [] result = Done (server1, ib1, [], Inr ()) \<and>
           t_tx_deferred server1 = Some q2' \<and> queue q2' = queue q2 @ [WriteMsg f2]) \<and>
        (\<exists>client2 tc1 tc2 res. handle_inbound_once client1 f2 [] = Done (client2, [], Inr None) \<and>
           core_reqs client2 = Some tc1 \<and>
           rr_poll c t tc1 resp = Done (tc2, \<lparr>rr_state = None\<rparr>, Ready_now res) \<and>
           answers payload_of carried (encode_payload result) res \<and>
           map_of (wait_list tc2) = map_of (wait_list tc))"
    using round_trip [where rnd = rnd and g = g, OF assms(1-20), of buf t]
    by (auto simp: typed_try_request_def)
  let ?req = "\<lparr>cr_inner = \<lparr>cn_v = arg, cn_ib = ib\<rparr>\<rparr>"
  have req: "cached_request_create c (param_recv M) ib = Done (Inr ?req)"
    by (rule cached_request_create_Inr [OF ib(2) param])
  have responds: "(\<exists>server1 req1 q2'. cached_try_response ops M server ?req [] result = Done (server1, req1, [], Inr ()) \<and>
          t_tx_deferred server1 = Some q2' \<and> queue q2' = queue q2 @ [WriteMsg f2]) \<and>
       (\<exists>client2 tc1 tc2 res. handle_inbound_once client1 f2 [] = Done (client2, [], Inr None) \<and>
          core_reqs client2 = Some tc1 \<and>
          cached_wait_poll c M t tc1 resp = Done (tc2, \<lparr>rr_state = None\<rparr>, Ready_now res) \<and>
          (case result of
             Inr y \<Rightarrow> \<exists>msg. res = Inr (msg, okv y)
           | Inl e \<Rightarrow> \<exists>er. res = Inl (WaitResponse er (errv e)) \<and> er_errc er = carried Unknown))"
    if enc: "encode_response c raw (encode_payload (typed_payload M result)) [] = (f2, Inr ())"
      and len: "length f2 < 2 ^ 32" and good: "good_response (encode_payload (typed_payload M result))"
    for result f2
  proof
    obtain server1 ib1 q2' where "try_response ops server ib [] (typed_payload M result) = Done (server1, ib1, [], Inr ())"
      "t_tx_deferred server1 = Some q2'" "queue q2' = queue q2 @ [WriteMsg f2]"
      using returns enc len good by blast
    then show "\<exists>server1 req1 q2'. cached_try_response ops M server ?req [] result = Done (server1, req1, [], Inr ()) \<and>
          t_tx_deferred server1 = Some q2' \<and> queue q2' = queue q2 @ [WriteMsg f2]"
      by (simp add: cached_try_response_def)
    obtain client2 tc1 tc2 res where h: "handle_inbound_once client1 f2 [] = Done (client2, [], Inr None)"
      "core_reqs client2 = Some tc1" and poll: "rr_poll c t tc1 resp = Done (tc2, \<lparr>rr_state = None\<rparr>, Ready_now res)"
      and ans: "answers payload_of carried (encode_payload (typed_payload M result)) res"
      using returns enc len good by blast
    have "case result of
      Inr y \<Rightarrow> \<exists>msg. cached_wait_result (ok_recv M) (err_recv M) res = Done (Inr (msg, okv y))
    | Inl e \<Rightarrow> \<exists>er. cached_wait_result (ok_recv M) (err_recv M) res = Done (Inl (WaitResponse er (errv e))) \<and>
        er_errc er = carried Unknown"
      by (rule answers_typed [where c = c, OF ans]) (use rr_poll_codec [OF poll] ok err in auto)
    then have "\<exists>r. cached_wait_poll c M t tc1 resp = Done (tc2, \<lparr>rr_state = None\<rparr>, Ready_now r) \<and>
      (case result of Inr y \<Rightarrow> \<exists>msg. r = Inr (msg, okv y)
       | Inl e \<Rightarrow> \<exists>er. r = Inl (WaitResponse er (errv e)) \<and> er_errc er = carried Unknown)"
      using poll by (cases result) (auto simp: cached_wait_poll_def)
    then show "\<exists>client2 tc1 tc2 res. handle_inbound_once client1 f2 [] = Done (client2, [], Inr None) \<and>
          core_reqs client2 = Some tc1 \<and>
          cached_wait_poll c M t tc1 resp = Done (tc2, \<lparr>rr_state = None\<rparr>, Ready_now res) \<and>
          (case result of
             Inr y \<Rightarrow> \<exists>msg. res = Inr (msg, okv y)
           | Inl e \<Rightarrow> \<exists>er. res = Inl (WaitResponse er (errv e)) \<and> er_errc er = carried Unknown)"
      using h by blast
  qed
  have "cached_args (cr_inner ?req) = arg" by (simp add: cached_args_def)
  then show ?thesis using sent ib(1) raw req responds by blast
qed

text \<open>A method on byte strings in the wire format, for the witness.\<close>

definition wire_recv :: "bytes \<Rightarrow> string + bytes" where
  "wire_recv d = (case read_varint d of
      Some (n, r) \<Rightarrow> if length r = n then Inr r else Inl ''length'' | None \<Rightarrow> Inl ''length'')"

definition wire_method :: "(bytes, bytes, bytes, bytes, bytes, bytes, bytes, bytes) request_method" where
  "wire_method = \<lparr>METHOD_NAME = [0x41], param_send = (\<lambda>p. p), param_recv = wire_recv,
     ok_send = (\<lambda>p. p), ok_recv = wire_recv, err_send = (\<lambda>p. p), err_recv = wire_recv\<rparr>"

lemma wire_method_parses:
  "parse_message (raw_codec wire_ops True 1) wire_recv (postcard.value_bytes wire_ops p) = Inr p"
proof -
  have "de_payload wire_ops d = d" for d by (simp add: wire_ops_def)
  then show ?thesis
    by (simp add: wire_value_bytes parse_message_def raw_codec_def wire_recv_def read_varint_roundtrip)
qed

theorem typed_call_returns_witness:
  "\<exists>client1 resp ib req. typed_try_request fifo_ops wire_method raw_core count_up 8 [] [1, 2] =
      Done (client1, [], 9, Inr resp) \<and>
    handle_inbound_once raw_core [1, 8, 8, 0, 0, 0, 0, 0, 0, 0, 1, 0x41, 2, 1, 2] [] =
      Done (raw_core, [], Inr (Some ib)) \<and>
    cached_request_create (raw_codec wire_ops True 1) wire_recv ib = Done (Inr req) \<and>
    cached_args (cr_inner req) = [1, 2] \<and>
    (\<exists>server1 req1 q2. cached_try_response fifo_ops wire_method raw_core req [] (Inr [5]) =
         Done (server1, req1, [], Inr ()) \<and> t_tx_deferred server1 = Some q2 \<and>
       fifo_items q2 = [WriteMsg [2, 8, 8, 0, 0, 0, 0, 0, 0, 0, 1, 5]]) \<and>
    (\<exists>client2 tc1 tc2 msg. handle_inbound_once client1 [2, 8, 8, 0, 0, 0, 0, 0, 0, 0, 1, 5] [] =
         Done (client2, [], Inr None) \<and> core_reqs client2 = Some tc1 \<and>
       cached_wait_poll (raw_codec wire_ops True 1) wire_method 4 tc1 resp =
         Done (tc2, \<lparr>rr_state = None\<rparr>, Ready_now (Inr (msg, [5]))))"
proof -
  let ?c = "raw_codec wire_ops True 1" and ?f = "[1, 8, 8, 0, 0, 0, 0, 0, 0, 0, 1, 0x41, 2, 1, 2] :: bytes"
  let ?f2 = "[2, 8, 8, 0, 0, 0, 0, 0, 0, 0, 1, 5] :: bytes"
  have cap: "has_room (fifo_cap (fifo_new None)) (fifo_items (fifo_new None :: writer_directive fifo))"
    by (simp add: has_room_def fifo_new_def)
  have core: "core_codec raw_core = ?c" "core_reqs raw_core = Some table_one"
    "t_tx_deferred raw_core = Some (fifo_new None)" "\<not> fifo_closed (fifo_new None :: writer_directive fifo)"
    by (simp_all add: raw_core_def fifo_new_def)
  have enc: "encode_request ?c (RequestId 8) (METHOD_NAME wire_method) (param_send wire_method [1, 2]) [] =
      (?f, Inr (RequestId 8))"
    using raw_core_request by (simp add: wire_method_def)
  have parses:
    "parse_message ?c (param_recv wire_method) (postcard.value_bytes wire_ops (param_send wire_method x)) = Inr x"
    "parse_message ?c (ok_recv wire_method) (postcard.value_bytes wire_ops (ok_send wire_method x)) = Inr x"
    "parse_message ?c (err_recv wire_method) (postcard.value_bytes wire_ops (err_send wire_method x)) = Inr x" for x
    using wire_method_parses by (simp_all add: wire_method_def)
  have name: "utf8_valid (METHOD_NAME wire_method)" by (simp add: wire_method_def utf8_valid_ascii)
  have recv: "param_recv wire_method = wire_recv" by (simp add: wire_method_def)
  obtain client1 resp ib req raw where call: "typed_try_request fifo_ops wire_method raw_core count_up 8 [] [1, 2] =
      Done (client1, [], 9, Inr resp)" "handle_inbound_once raw_core ?f [] = Done (raw_core, [], Inr (Some ib))"
      "cached_request_create ?c wire_recv ib = Done (Inr req)" "cached_args (cr_inner req) = [1, 2]"
    and raw: "restore_request_id ?c raw = Inr (RequestId 8)"
    and ans: "\<And>result f2. encode_response ?c raw (encode_payload (typed_payload wire_method result)) [] = (f2, Inr ()) \<Longrightarrow>
      length f2 < 2 ^ 32 \<Longrightarrow>
      (\<exists>server1 req1 q2. cached_try_response fifo_ops wire_method raw_core req [] result = Done (server1, req1, [], Inr ()) \<and>
         t_tx_deferred server1 = Some q2 \<and> fifo_items q2 = [WriteMsg f2]) \<and>
      (\<exists>client2 tc1 tc2 res. handle_inbound_once client1 f2 [] = Done (client2, [], Inr None) \<and>
         core_reqs client2 = Some tc1 \<and>
         cached_wait_poll ?c wire_method 4 tc1 resp = Done (tc2, \<lparr>rr_state = None\<rparr>, Ready_now res) \<and>
         (case result of Inr y \<Rightarrow> \<exists>msg. res = Inr (msg, y)
          | Inl e \<Rightarrow> \<exists>er. res = Inl (WaitResponse er e) \<and> er_errc er = Unknown))"
    using typed_call_returns [where rnd = count_up and g = 8 and client = raw_core and server = raw_core
        and buf = "[]" and t = 4,
        OF wire.contract fifo.mpsc_channel_axioms core(1,2) table_one_simps(3,2) core(3,4) cap count_up_def [of 8]
          _ name enc _ _ core(1,3,4) cap TrueI parses]
    by (fastforce simp: fifo_new_def recv)
  have "encode_response ?c raw (encode_payload (typed_payload wire_method (Inr [5]))) [] = (?f2, Inr ())"
    using raw_core_response [OF raw] by (simp add: typed_payload_def payload_from_result_def wire_method_def)
  then show ?thesis using call ans by fastforce
qed

end
