(* ===== verification/Route_Macro.thy ===== *)
theory Route_Macro
  imports Service_Macro Route Typed_Methods
begin

text \<open>
  The routers generated by \<open>macros/src/gen_route.rs\<close>: which methods a \<open>Route\<close> constant lists
  and under which names, the check for duplicates, and what the two generated functions
  do. \<open>install\<close> pushes one handler for each target into a \<open>RouterBuilder\<close> and registers
  its routes; \<open>route\<close> matches the method name directly. The functions of this theory that
  stand for generated code are translations of the quoted Rust text.
\<close>

subsection \<open>Targets\<close>

record gen_desc =
  variant_ident :: "string option"
  no_default_route :: bool
  gd_attrs :: "syn_meta list"
  gd_def :: method_def

definition gen_desc_new :: "method_def \<Rightarrow> gen_desc" where
  "gen_desc_new d = \<lparr>variant_ident = None, no_default_route = False, gd_attrs = [], gd_def = d\<rparr>"

definition push_route :: "syn_expr \<Rightarrow> gen_desc \<times> string list \<Rightarrow> gen_desc \<times> string list" where
  "push_route e st =
     (case st of (g, errs) \<Rightarrow>
        (case expr_into_lit_str e of
           (Some lit, _) \<Rightarrow> (g\<lparr>gd_def := (gd_def g)\<lparr>routes := routes (gd_def g) @ [lit]\<rparr>\<rparr>, errs)
         | (None, es) \<Rightarrow> (g, errs @ es @ [''failed to parse expression''])))"

definition setup_field :: "member \<times> field_expr \<Rightarrow> gen_desc \<times> string list \<Rightarrow> gen_desc \<times> string list" where
  "setup_field f st =
     (case st of (g, errs) \<Rightarrow>
        (case fst f of
           MUnnamed _ \<Rightarrow> (g, errs @ [''failed to parse expression''])
         | MNamed mem \<Rightarrow>
             if mem = ''no_default_route'' then (g\<lparr>no_default_route := True\<rparr>, errs)
             else if mem = ''routes'' then
               (case snd f of
                  FEOther _ \<Rightarrow> (g, errs @ [''failed to parse expression''])
                | FEArray elems \<Rightarrow> fold push_route elems (g, errs))
             else (g, errs @ [''Unknown field''])))"

definition setup_by_struct_expr :: "expr_struct \<Rightarrow> bool \<Rightarrow> gen_desc \<Rightarrow> gen_desc \<times> string list" where
  "setup_by_struct_expr expr ndr g =
     (case fold setup_field (es_fields expr)
         (g\<lparr>variant_ident := get_ident (es_path expr), no_default_route := ndr\<rparr>, []) of
        (g', errs) \<Rightarrow>
          (if no_default_route g' then g'\<lparr>gd_def := (gd_def g')\<lparr>routes := []\<rparr>\<rparr> else g', errs))"

text \<open>The three marker attributes are taken out of the list.\<close>

record route_flags =
  global_no_default_route :: bool
  generate_install :: bool
  generate_direct :: bool

definition is_marker :: "string \<Rightarrow> syn_meta \<Rightarrow> bool" where
  "is_marker i m = (case m of MetaPath p \<Rightarrow> is_ident p i | _ \<Rightarrow> False)"

definition route_flags_of :: "syn_meta list \<Rightarrow> route_flags \<times> syn_meta list" where
  "route_flags_of attrs =
     (\<lparr>global_no_default_route = list_ex (is_marker ''no_default_route'') attrs,
       generate_install = list_ex (is_marker ''install'') attrs,
       generate_direct = list_ex (is_marker ''direct'') attrs\<rparr>,
      filter (\<lambda>m. \<not> (is_marker ''no_default_route'' m \<or> is_marker ''install'' m \<or> is_marker ''direct'' m)) attrs)"

definition target_of ::
  "data_model \<Rightarrow> bool \<Rightarrow> route_elem \<Rightarrow> (gen_desc list \<times> string list) outcome" where
  "target_of m ndr elem =
     (case elem of
        ElPath False p attrs \<Rightarrow>
          Done (case find_method_by_path m p of
              Some d \<Rightarrow> ([(gen_desc_new d)\<lparr>gd_attrs := attrs\<rparr>], [])
            | None \<Rightarrow> ([], [''Unknown method'']))
      | ElAssign None _ \<Rightarrow> Done ([], [''Expected path''])
      | ElAssign (Some (p, attrs)) rhs \<Rightarrow>
          (case find_method_by_path m p of
             None \<Rightarrow> Done ([], [''Unknown method''])
           | Some d \<Rightarrow>
               (let g = (gen_desc_new d)\<lparr>gd_attrs := attrs\<rparr> in
                case rhs of
                  RhsStruct s \<Rightarrow> Done (case setup_by_struct_expr s ndr g of (g', es) \<Rightarrow> ([g'], es))
                | RhsPath q \<Rightarrow> obind (unwrap (get_ident q)) (\<lambda>i. Done ([g\<lparr>variant_ident := Some i\<rparr>], []))
                | RhsOther _ \<Rightarrow> Done ([g], [''Expected `MethodAlias` or `MethodAlias {..}`''])))
      | ElStruct s \<Rightarrow>
          Done (case find_method_by_path m (es_path s) of
              None \<Rightarrow> ([], [''Unknown method''])
            | Some d \<Rightarrow>
                (case setup_by_struct_expr s ndr ((gen_desc_new d)\<lparr>gd_attrs := es_attrs s\<rparr>) of
                   (g', es) \<Rightarrow> ([g'], es)))
      | _ \<Rightarrow> Done ([], [''Expected path, struct or assignment style declaration'']))"

fun targets_of ::
  "data_model \<Rightarrow> bool \<Rightarrow> route_elem list \<Rightarrow> (gen_desc list \<times> string list) outcome" where
  "targets_of m ndr [] = Done ([], [])"
| "targets_of m ndr (e # es) =
     obind (target_of m ndr e) (\<lambda>(gs, errs). obind (targets_of m ndr es) (\<lambda>(gs', errs').
       Done (gs @ gs', errs @ errs')))"

text \<open>
  \<open>ident_case\<close> is the conversion of an identifier to Pascal case followed by \<open>syn::Ident::new\<close>. It is
  nothing where the latter panics: \<open>_1\<close> becomes \<open>1\<close>, which is no identifier.
\<close>

fun pascal_targets :: "(string \<Rightarrow> string option) \<Rightarrow> method_def list \<Rightarrow> gen_desc list outcome" where
  "pascal_targets ident_case [] = Done []"
| "pascal_targets ident_case (d # ds) =
     obind (unwrap (ident_case (method_ident d))) (\<lambda>i.
     obind (pascal_targets ident_case ds) (\<lambda>gs. Done ((gen_desc_new d)\<lparr>variant_ident := Some i\<rparr> # gs)))"

definition generate_targets ::
  "(string \<Rightarrow> string option) \<Rightarrow> data_model \<Rightarrow> bool \<Rightarrow> route_expr \<Rightarrow> (gen_desc list \<times> string list) outcome" where
  "generate_targets ident_case m ndr e =
     (case e of
        RxPath False p \<Rightarrow>
          if is_ident p ''ALL'' then Done (map gen_desc_new (handled_methods m), [])
          else if is_ident p ''ALL_PASCAL_CASE'' then
            obind (pascal_targets ident_case (handled_methods m)) (\<lambda>gs. Done (gs, []))
          else Done ([], [''Expected ALL|ALL_PASCAL_CASE or list of method names''])
      | RxArray elems \<Rightarrow> targets_of m ndr elems
      | _ \<Rightarrow> Done ([], [''Expected ALL|ALL_PASCAL_CASE or list of method names'']))"

subsection \<open>Route names and the check for duplicates\<close>

definition route_strs :: "bool \<Rightarrow> gen_desc \<Rightarrow> bytes list" where
  "route_strs ndr g =
     (if no_default_route g \<or> ndr then [] else [name (gd_def g)]) @ routes (gd_def g)"

text \<open>Four messages for each route that replaces one in the map.\<close>

fun insert_routes ::
  "string \<Rightarrow> bytes list \<Rightarrow> (bytes \<Rightarrow> string option) \<times> string list \<Rightarrow> (bytes \<Rightarrow> string option) \<times> string list" where
  "insert_routes i [] st = st"
| "insert_routes i (r # rs) (seen, errs) =
     insert_routes i rs (seen(r \<mapsto> i),
       errs @ (case seen r of
           None \<Rightarrow> []
         | Some _ \<Rightarrow> [''Duplicated route'', ''Duplicated route between'', ''Duplicated route between'',
             ''Failed to generate routes'']))"

definition check_routes :: "bool \<Rightarrow> gen_desc list \<Rightarrow> string list" where
  "check_routes ndr targets =
     snd (fold (\<lambda>g. insert_routes (method_ident (gd_def g)) (route_strs ndr g)) targets (Map.empty, []))"

text \<open>What is generated for one \<open>Route\<close> constant.\<close>

record gen_router =
  gr_attrs :: "syn_meta list"
  gr_vis :: syn_vis
  gr_ident :: string
  gr_flags :: route_flags
  gr_targets :: "gen_desc list"

definition generate_route ::
  "(string \<Rightarrow> string option) \<Rightarrow> data_model \<Rightarrow> const_item \<Rightarrow> nat \<Rightarrow> (gen_router \<times> string list) outcome" where
  "generate_route ident_case m item vis_offset =
     (case route_flags_of (ci_attrs item) of (flags, attrs) \<Rightarrow>
       obind (generate_targets ident_case m (global_no_default_route flags) (ci_expr item)) (\<lambda>(targets, errs).
       obind (elevate_vis_level (ci_vis item) vis_offset) (\<lambda>v.
         Done (\<lparr>gr_attrs = attrs, gr_vis = v, gr_ident = ci_ident item, gr_flags = flags, gr_targets = targets\<rparr>,
               errs @ check_routes (global_no_default_route flags) targets))))"

subsection \<open>The generated code\<close>

definition variant_name :: "gen_desc \<Rightarrow> string" where
  "variant_name g = (case variant_ident g of Some i \<Rightarrow> i | None \<Rightarrow> method_ident (gd_def g))"

text \<open>
  The variants of the generated enum: forwarded attributes, name, whether it holds a cached
  request or a cached notification, and the method. An enum without targets gets a variant
  that can not be matched.
\<close>

datatype enum_variant = EmptyVariant | Variant "syn_meta list" string bool string

definition enum_variants :: "gen_desc list \<Rightarrow> enum_variant list" where
  "enum_variants targets =
     (if targets = [] then [EmptyVariant]
      else map (\<lambda>g. Variant (gd_attrs g) (variant_name g) (is_req (gd_def g)) (method_ident (gd_def g))) targets)"

text \<open>A value of the generated enum: the variant and the cached message.\<close>

datatype 'v routed = RoutedRequest string "'v cached_request" | RoutedNotify string "'v cached_notify"

text \<open>
  \<open>__internal_create\<close> of the cached type of the target. \<open>de\<close> gives the parser of each
  method's parameter.
\<close>

definition create_variant ::
  "('p, 'd) codec \<Rightarrow> (string \<Rightarrow> 'd \<Rightarrow> string + 'v) \<Rightarrow> gen_desc \<Rightarrow> inbound_inner
   \<Rightarrow> ((inbound_inner \<times> serde_error) + 'v routed) outcome" where
  "create_variant c de g ib =
     (if is_req (gd_def g) then
        obind (cached_request_create c (de (method_ident (gd_def g))) ib) (\<lambda>r.
          Done (map_sum id (RoutedRequest (variant_name g)) r))
      else
        obind (cached_notify_create c (de (method_ident (gd_def g))) ib) (\<lambda>r.
          Done (map_sum id (RoutedNotify (variant_name g)) r)))"

text \<open>The closure that \<open>install\<close> pushes for a target; \<open>handler\<close> is the user's.\<close>

definition install_handler ::
  "(string \<Rightarrow> 'd \<Rightarrow> string + 'v)
   \<Rightarrow> (('p, 'd, 'q, 'u) rpc_core \<Rightarrow> 'v routed \<Rightarrow> ('p, 'd, 'q, 'u) rpc_core outcome)
   \<Rightarrow> gen_desc \<Rightarrow> ('p, 'd, 'q, 'u) exec_func" where
  "install_handler de handler g core inbound =
     obind (unwrap inbound) (\<lambda>ib.
       if \<not> is_req (gd_def g) \<and> is_request ib then Done (core, Some ib, Inl RequestOnNotifyHandler)
       else obind (create_variant (core_codec core) de g ib) (\<lambda>r.
         case r of
           Inl (ib', err) \<Rightarrow> Done (core, Some ib', Inl (ExecParseError err))
         | Inr v \<Rightarrow> obind (handler core v) (\<lambda>core1. Done (core1, None, Inr ()))))"

datatype route_fail_response = IgnoreAndContinue | RFPanic | RFAbort

text \<open>The closure may return nothing or a boolean instead, which are converted.\<close>

fun route_fail_of_unit :: "unit \<Rightarrow> route_fail_response" where
  "route_fail_of_unit _ = RFPanic"

fun route_fail_of_bool :: "bool \<Rightarrow> route_fail_response" where
  "route_fail_of_bool value = (if value then IgnoreAndContinue else RFAbort)"

text \<open>
  Registering the routes of the handler pushed last. \<open>on_err\<close> is the caller's closure with
  its state; the flag tells that the installation goes on.
\<close>

fun install_routes ::
  "bool \<Rightarrow> ('b, 'e, 'f) route_ops \<Rightarrow> ('s \<Rightarrow> string \<Rightarrow> bytes \<Rightarrow> 'e \<Rightarrow> 's \<times> route_fail_response) \<Rightarrow> string
   \<Rightarrow> bytes list \<Rightarrow> 's \<Rightarrow> ('b, 'h) router \<Rightarrow> ('s \<times> ('b, 'h) router \<times> bool) outcome" where
  "install_routes checked ops on_err i [] s r = Done (s, r, True)"
| "install_routes checked ops on_err i (path # paths) s r =
     obind (try_add_route_to_last checked ops path r) (\<lambda>(r1, res).
       case res of
         Inr _ \<Rightarrow> install_routes checked ops on_err i paths s r1
       | Inl e \<Rightarrow>
           (case on_err s i path e of
              (s1, IgnoreAndContinue) \<Rightarrow> install_routes checked ops on_err i paths s1 r1
            | (_, RFPanic) \<Rightarrow> Panic
            | (s1, RFAbort) \<Rightarrow> Done (s1, r1, False)))"

fun install ::
  "bool \<Rightarrow> ('b, 'e, 'f) route_ops \<Rightarrow> ('s \<Rightarrow> string \<Rightarrow> bytes \<Rightarrow> 'e \<Rightarrow> 's \<times> route_fail_response) \<Rightarrow> bool
   \<Rightarrow> (gen_desc \<Rightarrow> 'h) \<Rightarrow> gen_desc list \<Rightarrow> 's \<Rightarrow> ('b, 'h) router \<Rightarrow> ('s \<times> ('b, 'h) router) outcome" where
  "install checked ops on_err ndr handler_of [] s r = Done (s, r)"
| "install checked ops on_err ndr handler_of (g # gs) s r =
     obind (install_routes checked ops on_err (method_ident (gd_def g)) (route_strs ndr g) s
         (push_handler (handler_of g) r)) (\<lambda>(s1, r1, go).
       if go then install checked ops on_err ndr handler_of gs s1 r1 else Done (s1, r1))"

text \<open>\<open>___inner_match_index\<close>: the first arm with a matching literal.\<close>

fun match_index :: "bool \<Rightarrow> gen_desc list \<Rightarrow> nat \<Rightarrow> bytes \<Rightarrow> nat option" where
  "match_index ndr [] k r = None"
| "match_index ndr (g # gs) k r = (if r \<in> set (route_strs ndr g) then Some k else match_index ndr gs (Suc k) r)"

definition route_matches :: "bool \<Rightarrow> gen_desc list \<Rightarrow> bytes \<Rightarrow> bool" where
  "route_matches ndr targets r \<longleftrightarrow> match_index ndr targets 0 r \<noteq> None"

definition direct_route ::
  "bool \<Rightarrow> gen_desc list \<Rightarrow> ('p, 'd) codec \<Rightarrow> (string \<Rightarrow> 'd \<Rightarrow> string + 'v) \<Rightarrow> inbound_inner
   \<Rightarrow> ((inbound_inner \<times> exec_error) + 'v routed) outcome" where
  "direct_route ndr targets c de ib =
     obind (inbound_method ib) (\<lambda>m.
       case match_index ndr targets 0 m of
         None \<Rightarrow> Done (Inl (ib, RouteFailed))
       | Some i \<Rightarrow>
           if i < length targets then
             obind (create_variant c de (targets ! i) ib) (\<lambda>r.
               Done (case r of Inl (ib', err) \<Rightarrow> Inl (ib', ExecParseError err) | Inr v \<Rightarrow> Inr v))
           else Panic)"

text \<open>
  What the macro emits for the direct router: for each target the arm of the match over the
  route, the literals with the index they yield, and the arm of the match over the index.
\<close>

definition direct_contents :: "bool \<Rightarrow> gen_desc list \<Rightarrow> ((bytes list \<times> nat) \<times> nat \<times> gen_desc) list" where
  "direct_contents ndr targets =
     map (\<lambda>(index, g). ((route_strs ndr g, index), (index, g))) (enumerate 0 targets)"

text \<open>\<open>TryFrom\<close> of the generated enum.\<close>

definition direct_try_from ::
  "bool \<Rightarrow> gen_desc list \<Rightarrow> ('p, 'd) codec \<Rightarrow> (string \<Rightarrow> 'd \<Rightarrow> string + 'v) \<Rightarrow> inbound_inner
   \<Rightarrow> ((inbound_inner \<times> exec_error) + 'v routed) outcome" where
  "direct_try_from ndr targets c de ib = direct_route ndr targets c de ib"

subsection \<open>Facts\<close>

text \<open>
  A match over string literals takes the first arm that contains the route, and the match
  over the index finds the target in the list.
\<close>

lemma match_index_arms:
  "match_index ndr gs k q =
     map_option snd (List.find (\<lambda>(literals, i). q \<in> set literals)
       (map (\<lambda>(i, g). (route_strs ndr g, i)) (enumerate k gs)))"
  by (induction gs arbitrary: k) auto

lemma direct_contents_arms:
  "match_index ndr gs 0 q =
     map_option snd (List.find (\<lambda>(literals, i). q \<in> set literals) (map fst (direct_contents ndr gs)))"
  "map_of (map snd (direct_contents ndr gs)) i = (if i < length gs then Some (gs ! i) else None)"
proof -
  have arms: "map fst (direct_contents ndr gs) = map (\<lambda>(i, g). (route_strs ndr g, i)) (enumerate 0 gs)"
    "map snd (direct_contents ndr gs) = enumerate 0 gs"
    by (simp_all add: direct_contents_def case_prod_unfold comp_def)
  show "match_index ndr gs 0 q =
      map_option snd (List.find (\<lambda>(literals, i). q \<in> set literals) (map fst (direct_contents ndr gs)))"
    by (simp only: arms match_index_arms)
  have "map_of (enumerate k gs) i = (if k \<le> i \<and> i < k + length gs then Some (gs ! (i - k)) else None)" for k
    by (induction gs arbitrary: k) (auto simp: nth_Cons')
  from this [of 0]
  show "map_of (map snd (direct_contents ndr gs)) i = (if i < length gs then Some (gs ! i) else None)"
    by (simp only: arms) simp
qed

lemma builder_fields [simp]:
  "route_func (router_builder_new b) = b" "funcs (router_builder_new b) = []"
  "route_func (push_handler h r) = route_func r" "funcs (push_handler h r) = funcs r @ [h]"
  by (simp_all add: router_builder_new_def push_handler_def)

lemma insert_routes_result:
  assumes "insert_routes i rs (seen, errs) = (seen', errs')"
  shows "dom seen' = dom seen \<union> set rs"
    and "errs' = [] \<longleftrightarrow> errs = [] \<and> distinct rs \<and> set rs \<inter> dom seen = {}"
  using assms
proof (induction rs arbitrary: seen errs)
  case (Cons r rs)
  {
    case 1
    then show ?case using Cons.IH(1) by (auto split: option.splits)
  next
    case 2
    then show ?case using Cons.IH(2) by (cases "seen r") (auto simp: domIff split: if_splits)
  }
qed simp_all

lemma check_routes_fold:
  assumes "fold (\<lambda>g. insert_routes (method_ident (gd_def g)) (route_strs ndr g)) targets (seen, errs) = (seen', errs')"
  shows "errs' = [] \<longleftrightarrow> errs = [] \<and> distinct (concat (map (route_strs ndr) targets)) \<and>
    set (concat (map (route_strs ndr) targets)) \<inter> dom seen = {}"
  using assms
proof (induction targets arbitrary: seen errs)
  case (Cons g gs)
  obtain seen1 errs1 where one: "insert_routes (method_ident (gd_def g)) (route_strs ndr g) (seen, errs) = (seen1, errs1)"
    by fastforce
  show ?case
    using Cons.IH [of seen1 errs1] Cons.prems one insert_routes_result [OF one] by auto
qed simp

lemma check_routes_distinct: "check_routes ndr targets = [] \<longleftrightarrow> distinct (concat (map (route_strs ndr) targets))"
proof -
  obtain seen errs where "fold (\<lambda>g. insert_routes (method_ident (gd_def g)) (route_strs ndr g)) targets (Map.empty, []) =
      (seen, errs)" by fastforce
  then show ?thesis using check_routes_fold [of ndr targets Map.empty "[]" seen errs] by (simp add: check_routes_def)
qed

lemma match_index_None: "match_index ndr gs k r = None \<longleftrightarrow> r \<notin> set (concat (map (route_strs ndr) gs))"
  by (induction gs arbitrary: k) auto

lemma match_index_Some:
  "match_index ndr gs k r = Some i \<Longrightarrow> k \<le> i \<and> i - k < length gs \<and> r \<in> set (route_strs ndr (gs ! (i - k)))"
proof (induction gs arbitrary: k)
  case (Cons g gs)
  then show ?case
    by (cases "r \<in> set (route_strs ndr g)") (auto simp: nth_Cons' Suc_le_eq Suc_diff_Suc dest!: Cons.IH)
qed simp

context route_table
begin

lemma add_last_ok:
  assumes "routes (route_func r) path = None" and "funcs r = fs @ [h]" and "length (funcs r) < 2 ^ 64"
  obtains r1 where "try_add_route_to_last checked ops path r = Done (r1, Inr ())" "funcs r1 = funcs r"
    "routes (route_func r1) = (routes (route_func r))(path \<mapsto> word_of_nat (length fs))"
proof -
  have "unat (funcs_len r) = Suc (length fs)" using unat_len [OF assms(3)] assms(2) by simp
  then have "usize_sub checked (funcs_len r) 1 = Done (word_of_nat (length fs))"
    using assms(2) by (simp add: usize_sub_def word_less_nat_alt funcs_len_def)
  moreover obtain b where add: "rt_add_route ops (route_func r) path (word_of_nat (length fs)) = (b, Inr ())"
    using add_fresh [OF assms(1)] by blast
  ultimately show thesis
    using that [of "r\<lparr>route_func := b\<rparr>"] add_ok [OF add] by (simp add: try_add_route_to_last_def)
qed

lemma install_routes_ok:
  "distinct paths \<Longrightarrow> \<forall>p \<in> set paths. routes (route_func r) p = None \<Longrightarrow> funcs r = fs @ [h] \<Longrightarrow>
   length (funcs r) < 2 ^ 64 \<Longrightarrow>
   \<exists>r1. install_routes checked ops on_err i paths s r = Done (s, r1, True) \<and> funcs r1 = funcs r \<and>
     (\<forall>q. routes (route_func r1) q =
        (if q \<in> set paths then Some (word_of_nat (length fs)) else routes (route_func r) q))"
proof (induction paths arbitrary: r)
  case (Cons p ps)
  obtain r1 where add: "try_add_route_to_last checked ops p r = Done (r1, Inr ())" "funcs r1 = funcs r"
    "routes (route_func r1) = (routes (route_func r))(p \<mapsto> word_of_nat (length fs))"
    using add_last_ok [of r p fs h checked] Cons.prems by auto
  have "\<forall>q \<in> set ps. routes (route_func r1) q = None" using Cons.prems(1,2) add(3) by auto
  then obtain r2 where "install_routes checked ops on_err i ps s r1 = Done (s, r2, True)" "funcs r2 = funcs r1"
    "\<forall>q. routes (route_func r2) q = (if q \<in> set ps then Some (word_of_nat (length fs)) else routes (route_func r1) q)"
    using Cons.IH [of r1] Cons.prems add(2) by auto
  then show ?case using add by auto
qed simp

lemma install_ok:
  "distinct (concat (map (route_strs ndr) gs)) \<Longrightarrow>
   \<forall>p \<in> set (concat (map (route_strs ndr) gs)). routes (route_func r) p = None \<Longrightarrow>
   length (funcs r) + length gs < 2 ^ 64 \<Longrightarrow>
   \<exists>r1. install checked ops on_err ndr handler_of gs s r = Done (s, r1) \<and>
     funcs r1 = funcs r @ map handler_of gs \<and>
     (\<forall>q. routes (route_func r1) q =
        (case match_index ndr gs (length (funcs r)) q of
           None \<Rightarrow> routes (route_func r) q | Some n \<Rightarrow> Some (word_of_nat n)))"
proof (induction gs arbitrary: r)
  case (Cons g gs)
  let ?r0 = "push_handler (handler_of g) r"
  obtain r1 where r1: "install_routes checked ops on_err (method_ident (gd_def g)) (route_strs ndr g) s ?r0 =
      Done (s, r1, True)" "funcs r1 = funcs ?r0"
    "\<forall>q. routes (route_func r1) q = (if q \<in> set (route_strs ndr g) then Some (word_of_nat (length (funcs r)))
      else routes (route_func r) q)"
    using install_routes_ok [of "route_strs ndr g" ?r0 "funcs r" "handler_of g" checked on_err
        "method_ident (gd_def g)" s] Cons.prems
    by auto
  have "\<forall>p \<in> set (concat (map (route_strs ndr) gs)). routes (route_func r1) p = None"
    using Cons.prems(1,2) r1(3) by auto
  then obtain r2 where r2: "install checked ops on_err ndr handler_of gs s r1 = Done (s, r2)"
    "funcs r2 = funcs r1 @ map handler_of gs"
    "\<forall>q. routes (route_func r2) q = (case match_index ndr gs (length (funcs r1)) q of
       None \<Rightarrow> routes (route_func r1) q | Some n \<Rightarrow> Some (word_of_nat n))"
    using Cons.IH [of r1] Cons.prems r1(2) by auto
  have len: "length (funcs r1) = Suc (length (funcs r))" using r1(2) by simp
  have "routes (route_func r2) q = (case match_index ndr (g # gs) (length (funcs r)) q of
       None \<Rightarrow> routes (route_func r) q | Some n \<Rightarrow> Some (word_of_nat n))" for q
  proof (cases "q \<in> set (route_strs ndr g)")
    case True
    then have "match_index ndr gs k q = None" for k using Cons.prems(1) by (auto simp: match_index_None)
    then show ?thesis using True r2(3) r1(3) by simp
  next
    case False
    then show ?thesis using r2(3) r1(3) len by (simp split: option.split)
  qed
  then show ?case using r1(1,2) r2(1,2) by simp
qed simp

end

lemma map_sum_Inr_iff: "map_sum f g x = Inr y \<longleftrightarrow> (\<exists>z. x = Inr z \<and> y = g z)"
  by (cases x) auto

text \<open>What a target parses into is a value of a declared variant, of the declared kind.\<close>

lemma create_variant_declared:
  assumes "create_variant c de g ib = Done (Inr v)" and "g \<in> set gs"
  shows "(case v of RoutedRequest i _ \<Rightarrow> Variant (gd_attrs g) i True (method_ident (gd_def g))
    | RoutedNotify i _ \<Rightarrow> Variant (gd_attrs g) i False (method_ident (gd_def g))) \<in> set (enum_variants gs)"
proof -
  have "Variant (gd_attrs g) (variant_name g) (is_req (gd_def g)) (method_ident (gd_def g)) \<in> set (enum_variants gs)"
    using assms(2) by (auto simp: enum_variants_def)
  then show ?thesis using assms(1)
    by (cases "is_req (gd_def g)") (auto simp: create_variant_def obind_Done_iff map_sum_Inr_iff)
qed

subsection \<open>Properties\<close>

lemma generate_route_no_errors:
  assumes "generate_route ident_case m item n = Done (gr, [])"
  shows "distinct (concat (map (route_strs (global_no_default_route (gr_flags gr))) (gr_targets gr)))"
  using assms
  by (cases "route_flags_of (ci_attrs item)")
    (auto simp: generate_route_def obind_Done_iff simp flip: check_routes_distinct)

text \<open>C36: The two generated routers agree. When the macro reports no error for a \<open>Route\<close> constant,
  \<open>install\<close> fills an empty router without ever calling the error callback, and that router
  treats every message whose kind fits its method just as the generated \<open>route\<close> does,
  followed by the handler: the same target, chosen by the same names, with the same parsed
  argument, the same errors for unknown names and unreadable parameters, and the message
  handed back with them.\<close>

theorem generated_routers_agree:
  assumes "generate_route ident_case m item n = Done (gr, [])"
    and "length (gr_targets gr) < 2 ^ 64" and "inbound_method ib = Done mth"
    and "\<And>i. match_index (global_no_default_route (gr_flags gr)) (gr_targets gr) 0 mth = Some i \<Longrightarrow>
      is_req (gd_def (gr_targets gr ! i)) \<or> \<not> is_request ib"
  shows "\<exists>r. install checked map_route_ops on_err (global_no_default_route (gr_flags gr)) (install_handler de handler)
        (gr_targets gr) s (router_builder_new Map.empty) = Done (s, r) \<and>
    router_route ops (rt_route map_route_ops) (router_finish map_route_ops r) core ib =
      obind (direct_route (global_no_default_route (gr_flags gr)) (gr_targets gr) (core_codec core) de ib) (\<lambda>res.
        case res of
          Inl (ib', e) \<Rightarrow> Done (core, Inl (Some ib', e))
        | Inr v \<Rightarrow> obind (handler core v) (\<lambda>core1. Done (core1, Inr ())))"
proof -
  let ?ndr = "global_no_default_route (gr_flags gr)" and ?gs = "gr_targets gr"
  have "\<exists>r. install checked map_route_ops on_err ?ndr (install_handler de handler) ?gs s
      (router_builder_new Map.empty) = Done (s, r) \<and> funcs r = map (install_handler de handler) ?gs \<and>
      (\<forall>q. route_func r q = map_option word_of_nat (match_index ?ndr ?gs 0 q))"
    using mrt.install_ok [OF generate_route_no_errors [OF assms(1)], of "router_builder_new Map.empty" checked
        on_err "install_handler de handler" s] assms(2)
    by (simp add: map_option_case cong: option.case_cong)
  then obtain r where r: "install checked map_route_ops on_err ?ndr (install_handler de handler) ?gs s
      (router_builder_new Map.empty) = Done (s, r)"
    and funcs: "funcs r = map (install_handler de handler) ?gs"
    and routes: "\<forall>q. route_func r q = map_option word_of_nat (match_index ?ndr ?gs 0 q)"
    by blast
  show ?thesis
  proof (cases "match_index ?ndr ?gs 0 mth")
    case None
    then show ?thesis using r routes assms(3)
      by (simp add: router_route_def router_finish_def map_route_ops_def direct_route_def)
  next
    case (Some i)
    have i: "i < length ?gs" using match_index_Some [OF Some] by simp
    then have "unat (word_of_nat i :: usize) = i"
      using assms(2) by (simp add: unsigned_of_nat take_bit_nat_eq_self)
    then have "router_route ops (rt_route map_route_ops) (router_finish map_route_ops r) core ib =
        obind (install_handler de handler (?gs ! i) core (Some ib)) (\<lambda>(core1, left, res).
          case res of Inl e \<Rightarrow> Done (core1, Inl (left, e))
          | Inr _ \<Rightarrow> (case left of None \<Rightarrow> Done (core1, Inr ())
              | Some ib1 \<Rightarrow> obind (inbound_drop ops core1 ib1) (\<lambda>core2. Done (core2, Inr ()))))"
      using Some routes funcs i assms(3)
      by (simp add: router_route_def router_finish_def map_route_ops_def)
    also have "\<dots> = obind (create_variant (core_codec core) de (?gs ! i) ib) (\<lambda>x. case x of
          Inl (ib', err) \<Rightarrow> Done (core, Inl (Some ib', ExecParseError err))
        | Inr v \<Rightarrow> obind (handler core v) (\<lambda>core1. Done (core1, Inr ())))"
    proof (cases "create_variant (core_codec core) de (?gs ! i) ib")
      case (Done x)
      then show ?thesis using assms(4) [OF Some]
        by (cases x; cases "handler core (projr x)") (auto simp: install_handler_def)
    qed (use assms(4) [OF Some] in \<open>auto simp: install_handler_def\<close>)
    also have "\<dots> = obind (direct_route ?ndr ?gs (core_codec core) de ib) (\<lambda>res.
        case res of
          Inl (ib', e) \<Rightarrow> Done (core, Inl (Some ib', e))
        | Inr v \<Rightarrow> obind (handler core v) (\<lambda>core1. Done (core1, Inr ())))"
      using Some i assms(3)
      by (cases "create_variant (core_codec core) de (?gs ! i) ib")
        (auto simp: direct_route_def split: sum.split)
    finally show ?thesis using r by blast
  qed
qed

text \<open>A service with one notification \<open>A\<close> and a route constant over all of its methods.\<close>

definition service_A :: data_model where
  "service_A = model_default\<lparr>handled_methods :=
     [\<lparr>is_req = False, method_ident = ''a'', name = [0x41], routes = []\<rparr>]\<rparr>"

definition path_of :: "string \<Rightarrow> syn_path" where
  "path_of i = SynPath False [Segment i NoArgs]"

definition routes_A :: const_item where
  "routes_A = \<lparr>ci_attrs = [MetaPath (path_of ''install''), MetaPath (path_of ''direct'')], ci_vis = VInherited,
     ci_ident = ''R'', ci_ty = TPath None (path_of ''Route''), ci_expr = RxPath False (path_of ''ALL'')\<rparr>"

theorem generated_routers_agree_witness:
  "\<exists>gr r. generate_route Some service_A routes_A 0 = Done (gr, []) \<and> length (gr_targets gr) = 1 \<and>
    install True map_route_ops (\<lambda>s i p e. (s, RFPanic)) False (install_handler (\<lambda>_. wire_recv) (\<lambda>core v. Done core))
      (gr_targets gr) () (router_builder_new Map.empty) = Done ((), r) \<and>
    router_route fifo_ops (rt_route map_route_ops) (router_finish map_route_ops r) raw_core notify_A =
      obind (direct_route False (gr_targets gr) (core_codec raw_core) (\<lambda>_. wire_recv) notify_A) (\<lambda>res.
        case res of
          Inl (ib', e) \<Rightarrow> Done (raw_core, Inl (Some ib', e))
        | Inr v \<Rightarrow> Done (raw_core, Inr ()))"
proof -
  obtain gr where gr: "generate_route Some service_A routes_A 0 = Done (gr, [])" "length (gr_targets gr) = 1"
    "global_no_default_route (gr_flags gr) = False"
    by (simp add: generate_route_def routes_A_def service_A_def route_flags_of_def is_marker_def is_ident_def
        get_ident_def path_of_def generate_targets_def elevate_vis_level_def check_routes_def route_strs_def
        gen_desc_new_def model_default_def)
  have "\<not> is_request notify_A"
    by (simp add: notify_A_def inbound_new_notify_def is_request_def)
  then show ?thesis
    using generated_routers_agree [OF gr(1) _ notify_A_method, of True "\<lambda>s i p e. (s, RFPanic)" "\<lambda>_. wire_recv"
        "\<lambda>core v. Done core" "()" fifo_ops raw_core] gr
    by auto
qed

text \<open>
  They differ on a request for a notification: the installed handler refuses it and hands it
  back, the direct router parses and accepts it.
\<close>

lemma request_on_notify_differs:
  assumes "\<not> is_req (gd_def g)" and "is_request ib" and "route_strs ndr g = [mth]" and "inbound_method ib = Done mth"
    and "payload_bytes ib = Done bs" and "parse_message c (de (method_ident (gd_def g))) bs = Inr v"
  shows "install_handler de handler g core (Some ib) = Done (core, Some ib, Inl RequestOnNotifyHandler)"
    and "direct_route ndr [g] c de ib = Done (Inr (RoutedNotify (variant_name g) \<lparr>cn_v = v, cn_ib = ib\<rparr>))"
  using assms
  by (simp_all add: install_handler_def direct_route_def create_variant_def cached_notify_create_def parsed_pair_def)

end
