(* ===== verification/Service_Main.thy ===== *)
theory Service_Main
  imports Route_Macro
begin

text \<open>
  The attribute macro as a whole, \<open>service\<close> and \<open>DataModel::main\<close> in \<open>macros/src/lib.rs\<close>: the
  arguments, then the items of the module in order, then the \<open>Route\<close> constants that were set
  aside, against the methods of the complete module. Last, what the attribute
  \<open>#[proc_macro_error]\<close> of \<open>service\<close> does with the errors that were recorded: on the stable
  compiler they replace the whole output.
\<close>

record item_mod =
  mod_vis :: syn_vis
  mod_ident :: string
  mod_content :: "module_item list option"
    \<comment> \<open>nothing for \<open>mod name;\<close>\<close>

record gen_module =
  gm_vis :: syn_vis
  gm_ident :: string
  gm_pass_thru :: "module_item list"
  gm_routes :: "gen_router list"
  gm_methods :: "gen_fn list"

fun generate_routes ::
  "(string \<Rightarrow> string option) \<Rightarrow> data_model \<Rightarrow> const_item list \<Rightarrow> (gen_router list \<times> string list) outcome" where
  "generate_routes ident_case m [] = Done ([], [])"
| "generate_routes ident_case m (c # cs) =
     obind (generate_route ident_case m c vis_level) (\<lambda>(g, es).
     obind (generate_routes ident_case m cs) (\<lambda>(gs, es'). Done (g # gs, es @ es')))"

definition main ::
  "(letter_case \<Rightarrow> bytes \<Rightarrow> bytes) \<Rightarrow> (string \<Rightarrow> string option) \<Rightarrow> data_model \<Rightarrow> item_mod
   \<Rightarrow> gen_module expansion outcome" where
  "main to_case ident_case m item =
     (let m1 = m\<lparr>vis := Some (mod_vis item)\<rparr> in
      obind (unwrap (mod_content item)) (\<lambda>items.
      obind (main_items to_case items
          \<lparr>ms_model = m1, ms_pass_thru = [], ms_route_items = [], ms_methods = [], ms_errs = []\<rparr>) (\<lambda>x.
        case x of
          expansion.Aborted es \<Rightarrow> Done (expansion.Aborted es)
        | Expanded st _ \<Rightarrow>
            obind (generate_routes ident_case (ms_model st) (ms_route_items st)) (\<lambda>(gs, es).
              Done (Expanded \<lparr>gm_vis = model_vis (ms_model st), gm_ident = mod_ident item,
                  gm_pass_thru = ms_pass_thru st, gm_routes = gs, gm_methods = ms_methods st\<rparr> (ms_errs st @ es))))))"

text \<open>The output is the list of errors or the module.\<close>

definition service ::
  "(letter_case \<Rightarrow> bytes \<Rightarrow> bytes) \<Rightarrow> (string \<Rightarrow> string option) \<Rightarrow> string + syn_meta list \<Rightarrow> item_mod
   \<Rightarrow> (string list + gen_module) outcome" where
  "service to_case ident_case attrs item =
     (case parse_attr attrs model_default of (m, errs) \<Rightarrow>
        obind (main to_case ident_case m item) (\<lambda>x. Done (case x of
            expansion.Aborted es \<Rightarrow> Inl (errs @ es)
          | Expanded gm es \<Rightarrow> if errs @ es = [] then Inr gm else Inl (errs @ es))))"

subsection \<open>What the module is made of\<close>

text \<open>The function of an item, and its \<open>Route\<close> constant.\<close>

fun fn_item :: "module_item \<Rightarrow> item_fn option" where
  "fn_item (IFn f) = Some f"
| "fn_item (IVerbatim (Some (FFn f # _)) _) = Some f"
| "fn_item _ = None"

fun route_item :: "module_item \<Rightarrow> const_item option" where
  "route_item (IConst c) =
     (if map_option seg_ident (type_path_as_mono_seg (ci_ty c)) = Some ''Route'' then Some c else None)"
| "route_item _ = None"

definition fn_items :: "module_item list \<Rightarrow> item_fn list" where
  "fn_items is = List.map_filter fn_item is"

definition route_items :: "module_item list \<Rightarrow> const_item list" where
  "route_items is = List.map_filter route_item is"

definition other_items :: "module_item list \<Rightarrow> module_item list" where
  "other_items is = filter (\<lambda>i. fn_item i = None \<and> route_item i = None) is"

lemma item_lists [simp]:
  "fn_items [] = []" "route_items [] = []" "other_items [] = []"
  "fn_items (i # is) = (case fn_item i of None \<Rightarrow> [] | Some f \<Rightarrow> [f]) @ fn_items is"
  "route_items (i # is) = (case route_item i of None \<Rightarrow> [] | Some c \<Rightarrow> [c]) @ route_items is"
  "other_items (i # is) = (if fn_item i = None \<and> route_item i = None then [i] else []) @ other_items is"
  by (simp_all add: fn_items_def route_items_def other_items_def map_filter_def split: option.split)

text \<open>One item adds to one of the lists.\<close>

definition handled_idents :: "item_fn list \<Rightarrow> string list" where
  "handled_idents fs = map fn_ident (filter (\<lambda>f. \<not> has_path ''no_recv'' (fn_attrs f)) fs)"

definition item_effect :: "module_item list \<Rightarrow> main_state \<Rightarrow> main_state \<Rightarrow> bool" where
  "item_effect is st st' \<longleftrightarrow>
     map gf_ident (ms_methods st') = map gf_ident (ms_methods st) @ map fn_ident (fn_items is) \<and>
     ms_route_items st' = ms_route_items st @ route_items is \<and>
     ms_pass_thru st' = ms_pass_thru st @ other_items is \<and>
     map method_ident (handled_methods (ms_model st')) =
       map method_ident (handled_methods (ms_model st)) @ handled_idents (fn_items is) \<and>
     vis (ms_model st') = vis (ms_model st)"

lemma item_effect_append:
  assumes "item_effect [i] st st1" and "item_effect is st1 st2"
  shows "item_effect (i # is) st st2"
  using assms by (auto simp: item_effect_def handled_idents_def)

lemma expansion_case_iff:
  "(case x of expansion.Aborted e \<Rightarrow> expansion.Aborted (h e) | Expanded y es \<Rightarrow> f y es) = Expanded z zs \<longleftrightarrow>
     (\<exists>y es. x = Expanded y es \<and> f y es = Expanded z zs)"
  "(case x of expansion.Aborted e \<Rightarrow> Done (expansion.Aborted (h e)) | Expanded y es \<Rightarrow> k y es) = Done (Expanded z zs) \<longleftrightarrow>
     (\<exists>y es. x = Expanded y es \<and> k y es = Done (Expanded z zs))"
  by (cases x; simp)+

lemma request_types_Some: "request_types t \<noteq> (None, es)"
proof (cases "find_result_t t")
  case None
  then show ?thesis using retr_ser_de_params_Some [of t] by (auto simp: request_types_def)
next
  case (Some p)
  then show ?thesis
    using retr_ser_de_params_Some [of "fst p"] retr_ser_de_params_Some [of "snd p"]
    by (cases p) (auto simp: request_types_def)
qed

lemma fn_def_body_out:
  assumes "fn_def_body m def item vo vi nr fwd = Expanded (def', out) es"
  shows "\<exists>g. out = Some g \<and> gf_ident g = method_ident def \<and> method_ident def' = method_ident def"
  using assms
  by (auto simp: fn_def_body_def Let_def ser_de_all_Some request_types_Some split: option.splits prod.split_asm)

lemma generate_item_fn_effect:
  assumes "generate_item_fn to_case m item n = Done (Expanded (m', out) es)"
  shows "\<exists>g. out = Some g \<and> gf_ident g = fn_ident item"
    and "map method_ident (handled_methods m') =
      map method_ident (handled_methods m) @ handled_idents [item] \<and> vis m' = vis m"
proof -
  let ?d1 = "initial_def to_case m item"
  let ?ini = "\<lparr>at_def = ?d1, at_no_recv = False, at_fwd = [], at_errs = []\<rparr>"
  let ?st = "fold method_attr (fn_attrs item) ?ini"
  let ?d2 = "if name (at_def ?st) = [] then (at_def ?st)\<lparr>name := str (method_ident (at_def ?st))\<rparr> else at_def ?st"
  obtain vo vi d3 es' where body: "fn_def_body m ?d2 item vo vi (at_no_recv ?st) (at_fwd ?st) = Expanded (d3, out) es'"
    and m': "m' = (if at_no_recv ?st then m else m\<lparr>handled_methods := handled_methods m @ [d3]\<rparr>)"
    using assms
    by (auto simp: generate_item_fn_def expand_item_def obind_Done_iff Let_def expansion_case_iff split: prod.split_asm)
  have "method_ident ?d1 = fn_ident item"
    by (simp add: initial_def_def Let_def split: option.split)
  then have "method_ident ?d2 = fn_ident item" "at_no_recv ?st \<longleftrightarrow> has_path ''no_recv'' (fn_attrs item)"
    using method_attrs_fold [of "fn_attrs item" ?ini] by simp_all
  then show "\<exists>g. out = Some g \<and> gf_ident g = fn_ident item"
    "map method_ident (handled_methods m') =
      map method_ident (handled_methods m) @ handled_idents [item] \<and> vis m' = vis m"
    using fn_def_body_out [OF body] m' by (auto simp: handled_idents_def)
qed

lemma main_fn_effect:
  assumes "main_fn to_case item st = Done (Expanded st' es)" and "fn_item i = Some item"
  shows "item_effect [i] st st'"
proof -
  obtain m' out es' where gen: "generate_item_fn to_case (ms_model st) item vis_level = Done (Expanded (m', out) es')"
    and st': "st' = st\<lparr>ms_model := m', ms_methods := ms_methods st @ (case out of None \<Rightarrow> [] | Some g \<Rightarrow> [g]),
      ms_errs := ms_errs st @ es'\<rparr>"
    using assms(1) by (auto simp: main_fn_def obind_Done_iff expansion_case_iff split: prod.split_asm)
  have "route_item i = None" using assms(2) by (cases i) auto
  then show ?thesis
    using generate_item_fn_effect [OF gen] st' assms(2) by (auto simp: item_effect_def)
qed

lemma pass_thru_effect: "fn_item i = None \<Longrightarrow> route_item i = None \<Longrightarrow> item_effect [i] st (pass_thru i st)"
  by (simp add: item_effect_def pass_thru_def handled_idents_def)

lemma main_item_effect:
  assumes "main_item to_case i st = Done (Expanded st' es)"
  shows "item_effect [i] st st'"
proof (cases i)
  case (IFn f)
  then show ?thesis using assms main_fn_effect [of to_case f st st' es i] by (simp add: main_item_def)
next
  case (IConst c)
  show ?thesis
  proof (cases "route_item i")
    case None
    then have "st' = pass_thru i st"
      using assms IConst by (auto simp: main_item_def split: option.splits if_splits)
    then show ?thesis using None IConst by (simp add: pass_thru_effect)
  next
    case (Some c')
    then have "c' = c" "st' = st\<lparr>ms_route_items := ms_route_items st @ [c]\<rparr>"
      using assms IConst by (auto simp: main_item_def split: option.splits if_splits)
    then show ?thesis using Some IConst by (simp add: item_effect_def handled_idents_def)
  qed
next
  case (IVerbatim x t)
  consider f fs where "x = Some (FFn f # fs)" | u fs where "x = Some (FOther u # fs)" | "x = Some []" | "x = None"
    by (metis foreign_item.exhaust list.exhaust option.exhaust)
  then show ?thesis
  proof cases
    case 1
    then show ?thesis using assms IVerbatim main_fn_effect [of to_case f st st' es i] by (simp add: main_item_def)
  qed (use assms IVerbatim in \<open>auto simp: main_item_def intro: pass_thru_effect\<close>)
next
  case (IOther t)
  then show ?thesis using assms by (auto simp: main_item_def intro: pass_thru_effect)
qed

lemma main_items_effect:
  "main_items to_case is st = Done (Expanded st' es) \<Longrightarrow> item_effect is st st'"
proof (induction "is" arbitrary: st es)
  case Nil
  then show ?case by (simp add: item_effect_def handled_idents_def)
next
  case (Cons i "is")
  then obtain st1 es1 where "main_item to_case i st = Done (Expanded st1 es1)"
    "main_items to_case is st1 = Done (Expanded st' es)"
    by (auto simp: obind_Done_iff expansion_case_iff)
  then show ?case using Cons.IH main_item_effect item_effect_append by blast
qed

lemma generate_routes_all:
  "generate_routes ident_case m cs = Done (gs, es) \<Longrightarrow>
   list_all2 (\<lambda>c g. \<exists>es'. set es' \<subseteq> set es \<and> generate_route ident_case m c vis_level = Done (g, es')) cs gs"
proof (induction cs arbitrary: gs es)
  case (Cons c cs)
  then obtain g es1 gs' es2 where "generate_route ident_case m c vis_level = Done (g, es1)"
    and rest: "generate_routes ident_case m cs = Done (gs', es2)" and "gs = g # gs'" "es = es1 @ es2"
    by (auto simp: obind_Done_iff split: prod.split_asm)
  moreover have "list_all2 (\<lambda>c g. \<exists>es'. set es' \<subseteq> set (es1 @ es2) \<and>
      generate_route ident_case m c vis_level = Done (g, es')) cs gs'"
    by (rule list_all2_mono [OF Cons.IH [OF rest]]) auto
  ultimately show ?case by auto
qed simp

lemma parse_meta_handled: "handled_methods (fst (parse_meta meta st)) = handled_methods (fst st)"
proof -
  obtain m errs where "st = (m, errs)" by (cases st)
  then show ?thesis by (cases meta) (auto simp: parse_meta_def split: option.split prod.split)
qed

lemma parse_attr_handled: "handled_methods (fst (parse_attr attrs m)) = handled_methods m"
proof -
  have "handled_methods (fst (fold parse_meta ms st)) = handled_methods (fst st)" for ms st
    by (induction ms arbitrary: st) (simp_all add: parse_meta_handled)
  then show ?thesis by (cases attrs) (simp_all add: parse_attr_def)
qed

text \<open>A macro that is aborted has recorded an error.\<close>

lemma generate_item_fn_aborted: "generate_item_fn to_case m item n \<noteq> Done (expansion.Aborted [])"
  by (auto simp: generate_item_fn_def expand_item_def fn_def_body_def obind_Done_iff Let_def
      split: option.splits prod.splits expansion.splits)

lemma main_item_aborted: "main_item to_case i st \<noteq> Done (expansion.Aborted [])"
  using generate_item_fn_aborted
  by (auto simp: main_item_def main_fn_def obind_Done_iff
      split: module_item.splits option.splits list.splits foreign_item.splits expansion.splits prod.splits if_splits)

lemma main_items_aborted: "main_items to_case is st \<noteq> Done (expansion.Aborted [])"
  using main_item_aborted
  by (induction "is" arbitrary: st) (auto simp: obind_Done_iff split: expansion.splits)

lemma main_aborted: "main to_case ident_case m item \<noteq> Done (expansion.Aborted [])"
  using main_items_aborted
  by (auto simp: main_def obind_Done_iff Let_def split: expansion.splits prod.splits)

text \<open>A module expanded without error.\<close>

lemma main_expands:
  assumes "main to_case ident_case m0 item = Done (Expanded gm [])"
  shows "\<exists>items m. mod_content item = Some items \<and>
    map gf_ident (gm_methods gm) = map fn_ident (fn_items items) \<and>
    gm_pass_thru gm = other_items items \<and>
    map method_ident (handled_methods m) = map method_ident (handled_methods m0) @ handled_idents (fn_items items) \<and>
    list_all2 (\<lambda>c g. generate_route ident_case m c vis_level = Done (g, [])) (route_items items) (gm_routes gm) \<and>
    gm_vis gm = mod_vis item \<and> gm_ident gm = mod_ident item \<and>
    (\<forall>g \<in> set (gm_routes gm).
       distinct (concat (map (route_strs (global_no_default_route (gr_flags g))) (gr_targets g))))"
proof -
  obtain items st es gs where items: "mod_content item = Some items"
    and run: "main_items to_case items \<lparr>ms_model = m0\<lparr>vis := Some (mod_vis item)\<rparr>, ms_pass_thru = [],
      ms_route_items = [], ms_methods = [], ms_errs = []\<rparr> = Done (Expanded st es)"
    and routers: "generate_routes ident_case (ms_model st) (ms_route_items st) = Done (gs, [])"
    and gm: "gm = \<lparr>gm_vis = model_vis (ms_model st), gm_ident = mod_ident item, gm_pass_thru = ms_pass_thru st,
      gm_routes = gs, gm_methods = ms_methods st\<rparr>"
    using assms
    by (cases "mod_content item") (auto simp: main_def Let_def obind_Done_iff expansion_case_iff split: prod.split_asm)
  note effect = main_items_effect [OF run, unfolded item_effect_def]
  have all: "list_all2 (\<lambda>c g. generate_route ident_case (ms_model st) c vis_level = Done (g, [])) (route_items items) gs"
    using generate_routes_all [OF routers] effect by simp
  have "distinct (concat (map (route_strs (global_no_default_route (gr_flags g))) (gr_targets g)))"
    if g: "g \<in> set gs" for g
  proof -
    obtain i where "i < length gs" "g = gs ! i" using g by (auto simp: in_set_conv_nth)
    then show ?thesis using all by (intro generate_route_no_errors) (auto simp: list_all2_conv_all_nth)
  qed
  then show ?thesis
    using items effect gm all by (intro exI [of _ items] exI [of _ "ms_model st"]) (auto simp: model_vis_def)
qed

subsection \<open>Properties\<close>

text \<open>C37: What the macro puts out is either errors or the whole module. If any error was recorded, or
  the macro is aborted, the output is a list of errors, not empty, and no part of the module.
  Otherwise each function of the module, also one without a body, has become exactly one method
  of the output, in order; each \<open>Route\<close> constant has become one router, generated without
  error against the methods of the whole module, wherever it stands, and these are the
  functions that are not marked \<open>no_recv\<close> themselves (the argument \<open>no_recv\<close> of the service
  leaves them registered); every other item is passed through unchanged; and the
  names of each router are distinct.\<close>

theorem service_expands_every_item:
  assumes "service to_case ident_case attrs item = Done out"
  shows "case out of
      Inl errs \<Rightarrow> errs \<noteq> []
    | Inr gm \<Rightarrow> snd (parse_attr attrs model_default) = [] \<and>
        (\<exists>items m. mod_content item = Some items \<and>
          map gf_ident (gm_methods gm) = map fn_ident (fn_items items) \<and>
          gm_pass_thru gm = other_items items \<and>
          map method_ident (handled_methods m) = handled_idents (fn_items items) \<and>
          list_all2 (\<lambda>c g. generate_route ident_case m c vis_level = Done (g, [])) (route_items items) (gm_routes gm) \<and>
          gm_vis gm = mod_vis item \<and> gm_ident gm = mod_ident item \<and>
          (\<forall>g \<in> set (gm_routes gm).
             distinct (concat (map (route_strs (global_no_default_route (gr_flags g))) (gr_targets g)))))"
proof -
  obtain m0 errs0 x where m0: "parse_attr attrs model_default = (m0, errs0)"
    and x: "main to_case ident_case m0 item = Done x"
    and out: "out = (case x of
        expansion.Aborted es \<Rightarrow> Inl (errs0 @ es)
      | Expanded gm es \<Rightarrow> if errs0 @ es = [] then Inr gm else Inl (errs0 @ es))"
    using assms by (auto simp: service_def obind_Done_iff split: prod.split_asm)
  show ?thesis
  proof (cases out)
    case (Inl errs)
    then show ?thesis using out x main_aborted [of to_case ident_case m0 item]
      by (cases x) (auto split: if_splits)
  next
    case (Inr gm)
    then have "errs0 = []" and main: "main to_case ident_case m0 item = Done (Expanded gm [])"
      using out x by (cases x; simp split: if_splits)+
    then show ?thesis using Inr m0 main_expands [OF main]
      using parse_attr_handled [of attrs model_default] by (simp add: model_default_def)
  qed
qed

text \<open>A module whose \<open>Route\<close> constant stands before its only method.\<close>

definition module_f :: item_mod where
  "module_f = \<lparr>mod_vis = VPublic, mod_ident = ''svc'',
     mod_content = Some [IConst routes_A, IFn item_f, IOther ''struct S;'']\<rparr>"

lemmas module_f_expands =
  service_def parse_attr_def parse_meta_def main_def module_f_def main_item_def main_fn_def pass_thru_def routes_A_def
  item_f_def path_of_def path_as_mono_seg_def generate_item_fn_def elevate_vis_level_def vis_level_def super_segment_def
  expand_item_def initial_def_def model_default_def method_attr_def name_path_def is_ident_def get_ident_def
  fn_def_body_def generate_route_def route_flags_of_def is_marker_def generate_targets_def check_routes_def
  route_strs_def gen_desc_new_def unexpected_argument_def Let_def

theorem service_expands_every_item_witness:
  "(\<exists>gm. service (\<lambda>_ s. s) Some (Inr []) module_f = Done (Inr gm) \<and>
    map gf_ident (gm_methods gm) = [''f''] \<and> length (gm_routes gm) = 1 \<and> gm_pass_thru gm = [IOther ''struct S;''] \<and>
    (\<forall>g \<in> set (gm_routes gm).
       distinct (concat (map (route_strs (global_no_default_route (gr_flags g))) (gr_targets g))))) \<and>
   (\<exists>errs. service (\<lambda>_ s. s) Some (Inr [MetaPath (path_of ''recv'')]) module_f = Done (Inl errs) \<and> errs \<noteq> [])"
proof -
  obtain gm where gm: "service (\<lambda>_ s. s) Some (Inr []) module_f = Done (Inr gm)"
    by (simp add: module_f_expands)
  obtain errs where errs: "service (\<lambda>_ s. s) Some (Inr [MetaPath (path_of ''recv'')]) module_f = Done (Inl errs)"
    by (simp add: module_f_expands)
  show ?thesis
    using service_expands_every_item [OF gm] service_expands_every_item [OF errs] gm errs
    by (auto simp: module_f_def routes_A_def path_of_def path_as_mono_seg_def item_f_def dest: list_all2_lengthD)
qed

end
