(* ===== verification/Spec2Isabelle.thy ===== *)
theory Spec2Isabelle
  imports Json_Text Msgpack_Rpc Link Handles_Safety Adapters Dynamic_Codec Service_Main
begin

text \<open>
  Verification of \<open>rpc-it\<close>, a Rust library for remote procedure calls over any transport that
  carries frames and any codec. This theory imports the whole development.

  \<^bold>\<open>The program.\<close> A connection consists of a shared core (\<open>RpcCore\<close>), sender handles, a writer
  task and a receiver. A sender encodes a message with the connection's codec and puts a
  directive into a channel; the writer task takes directives out and writes frames to the
  transport. A request first registers a fresh identifier in the request context and
  returns a future. The receiver decodes the frames of the transport: a response is stored
  in the request context and wakes the future, a notification or a request is handed to
  the user as an inbound message, which answers at most once and answers \<open>Unhandled\<close> when
  it is dropped unanswered. A router dispatches inbound messages by method name. The
  attribute macro \<open>service\<close> generates typed senders, typed messages and routers from
  function declarations.

  \<^bold>\<open>Theories and sources.\<close> Definitions keep the names of the Rust items; a clashing or generic
  name gets the type in front (\<open>rr_poll\<close> is \<open>ReceiveResponse::poll\<close>).

  \<^item> \<open>Prelude\<close>: words, byte strings, outcomes (\<open>Done\<close>, \<open>Panic\<close>, \<open>Undef\<close>), results, slicing, UTF-8
    validation, little-endian numbers.
  \<^item> \<open>Defs\<close>: \<open>src/lib.rs\<close>, ranges of 32-bit positions and request identifiers.
  \<^item> \<open>Codec_Types\<close>: \<open>src/codec.rs\<close>, error codes, payloads, frame descriptions, the trait \<open>Codec\<close>
    as a record of functions. \<open>Codec_Contract\<close>: what the trait documents, as a locale.
    \<open>Dynamic_Codec\<close>: the object-safe trait and the codec made of it.
  \<^item> \<open>Channel\<close>: the contract of the crate \<open>async-channel\<close>, as the locale \<open>mpsc_channel\<close>.
  \<^item> \<open>Req_Rep\<close>, \<open>Response_Future\<close>: \<open>src/rpc/req_rep.rs\<close>, the table of pending requests and the
    future \<open>ReceiveResponse\<close>.
  \<^item> \<open>Sender\<close>: \<open>src/rpc/sender.rs\<close>, notifications, requests, prepared packets, bursts, shutdown.
  \<^item> \<open>Writer\<close>: \<open>write_runner\<close> of \<open>src/rpc/core.rs\<close> over the transport trait of \<open>src/io.rs\<close>.
  \<^item> \<open>Receiver\<close>: \<open>src/rpc/receiver.rs\<close>, decoding, inbound messages, the two read tasks.
  \<^item> \<open>Builder\<close>: the connection builder of \<open>src/rpc/core.rs\<close>.
  \<^item> \<open>Sender_Session\<close>: the sender handles in use, each operation tried at once or awaited, next to
    the rounds of the writer task and the futures of \<open>src/rpc/req_rep.rs\<close>.
  \<^item> \<open>Adapters\<close>, \<open>In_Memory\<close>: the rest of \<open>src/io.rs\<close>, sinks and streams as transports, and the
    in-memory transport.
  \<^item> \<open>Rawrpc\<close>, \<open>Jsonrpc\<close>, \<open>Msgpack_Rpc\<close>: the three codecs under \<open>src/ext_codec\<close>. \<open>Json_Contract\<close> proves
    the contract for the JSON codec, \<open>Json_Text\<close> is a writer and reader of JSON text for it.
  \<^item> \<open>Connection\<close>: two ends of a connection over one codec.
  \<^item> \<open>Handles\<close>: the handles of \<open>src/rpc/sender.rs\<close> and \<open>src/rpc/receiver.rs\<close> as owners of the shared
    core, its reference count, and the read task of \<open>into_weak_runner_task\<close> step by step;
    \<open>Handles_Safety\<close>: what the unchecked accesses take for granted holds in every reachable step.
  \<^item> \<open>Link\<close>: a writer task and a reader over the in-memory transport, under an executor.
  \<^item> \<open>Route\<close>: \<open>src/macros/route.rs\<close>. \<open>Typed_Methods\<close>: \<open>src/macros/mod.rs\<close> and \<open>inbound.rs\<close>, cached
    messages and typed futures.
  \<^item> \<open>Type_Util\<close>, \<open>Service_Macro\<close>, \<open>Route_Macro\<close>, \<open>Service_Main\<close>: the procedural macro crate, files
    \<open>type_util.rs\<close>, \<open>gen_func.rs\<close>, \<open>gen_route.rs\<close> and \<open>lib.rs\<close> under \<open>macros/src\<close>.

  \<^bold>\<open>State and effects.\<close> A structure is a record and an operation a function that returns the
  updated record with its result. \<open>Result\<close> is a sum with the error on the left. \<open>unwrap\<close>,
  failed assertions, indexing out of range and checked arithmetic are \<open>Panic\<close>;
  \<open>unwrap_unchecked\<close> on nothing is \<open>Undef\<close>. Integers whose width matters are words.
  The request context is one record: the table of identifiers and a heap of wait objects,
  which the table and the futures refer to by index. A step of a session is one call, such as
  a poll, a drop, the registration of a request or the handling of a frame, and a session is any
  interleaving of such steps by any number of futures, tasks and incoming frames. A call that
  takes several locks one after the other is still one step: a poll and a \<open>try_recv\<close> lock the
  wait object and then the table, and a poll reads the flag of expiry between them, so that
  what another thread does between these sections is not covered. The read task of \<open>Handles\<close> is
  split finer, at its upgrade, registration and release. The in-memory transport is an
  interleaving of the single atomic operations of its two ends, with a program counter for
  each end; memory is sequentially consistent, and a push may fail spuriously. Suspension of an
  \<open>async\<close> function is the result \<open>Pending\<close>, with the state it leaves.

  \<^bold>\<open>What the lemmas show.\<close>

  \<^item> End to end (\<open>Typed_Methods\<close>, \<open>Connection\<close>, \<open>Link\<close>): a typed call hands the handler the argument
    that was passed, and the caller's future yields what the handler responded, over every
    codec and channel with their contracts; notifications that are sent over the in-memory
    transport are received unchanged, once each and in order.
  \<^item> Safety: no use of the sender handles of a client, a server or a write-only connection
    panics, and the writer task does not (\<open>Sender_Session\<close>); a sender made on a read-only
    connection is undefined (\<open>Builder\<close>, a finding), and the decoders can panic in exactly the
    cases stated in \<open>Jsonrpc\<close> and \<open>Msgpack_Rpc\<close>. The unreachable states of the future are
    unreachable, and the table holds exactly the requests that have a live future
    (\<open>Response_Future\<close>); a request is answered at most once, method names are UTF-8
    (\<open>Receiver\<close>); what the generated code declares is well formed (\<open>Type_Util\<close>).
  \<^item> Ownership (\<open>Handles\<close>, \<open>Handles_Safety\<close>): the core lives exactly as long as something owns it,
    whatever the users and the tasks do; a connection that nobody owns any more winds down;
    and in a connection that can send, a core is used only while it is alive, has its channel, and
    method names are UTF-8, which is what the unchecked accesses of the crate take for granted.
  \<^item> Liveness: the end of the writer task and the end of the split receiver task release every
    waiting future, by \<open>mark_expired\<close>; the end of the read task of \<open>into_weak_runner_task\<close> does not,
    which is a finding. The in-memory transport loses no wakeup,
    and every transfer over it ends, however its two tasks are scheduled.
  \<^item> Refinement: the writer task refines an interpreter of the list of directives, and on a
    transport that does not fail it writes the queued frames in order.
  \<^item> Round trips: the codecs read back what they write; the raw codec and the JSON codec have
    the contract of a connection, and the dynamic codec is the codec it is made of. The
    MessagePack codec has it for identifiers from \<open>2 ^ 16\<close> on and for responses other than an
    error object that starts with \<open>nil\<close> or contains a code.
  \<^item> Equivalence: the two routers the macro generates agree; a visibility elevated by the macro
    names the same scope. The macro puts out the whole module or, on the stable compiler, only the
    errors it recorded.
  \<^item> Faults of the code that came up are stated as theorems, next to the operations they
    concern; \<open>PROJECT.json\<close> lists them as findings.

  \<^bold>\<open>Bounds and fuel.\<close> Only \<open>runner_loop\<close> has fuel: one unit for each queued directive and one for
  the end of the channel, which \<open>write_runner_refines_deliver\<close> proves to be enough. The retry
  loop of \<open>encode_request\<close> has the bound of the source. The loops of the receiver end with
  the list of reads. A transfer of \<open>n\<close> frames over the in-memory transport takes at most
  \<open>32 * n + 15\<close> atomic steps, by the measure \<open>link_rank\<close>. Frames have fewer than \<open>2 ^ 32\<close> bytes, as \<open>src/codec.rs\<close> documents, and
  routers fewer than \<open>2 ^ 64\<close> handlers.

  \<^bold>\<open>Parameters.\<close> Code outside the repository is an argument with a contract as a locale: the
  channel (\<open>mpsc_channel\<close>), \<open>postcard\<close>, \<open>serde_json\<close>, the MessagePack crates (\<open>rmp\<close>),
  \<open>erased_serde\<close>. Without a contract: the random numbers of \<open>rand\<close>, deserializers,
  \<open>SinkExt::send\<close>, streams, \<open>convert_case\<close>. A deserializer is a function of the bytes it was made
  from, and each is used for one value, as the sources do. The trees of \<open>syn\<close> are datatypes with the
  constructors the macros distinguish, and tokens that are only copied are strings. Every
  locale is interpreted on concrete functions, among them executable encodings in the
  style of \<open>postcard\<close>, in MessagePack and in JSON.

  \<^bold>\<open>Not modelled.\<close> \<open>Debug\<close> implementations, re-exports and type-level configuration, which have no
  behaviour; the memory orderings of the atomics; Rust's rules on aliasing and data races, against
  which \<open>Inbound::atomic_take_req_range\<close> offends (a finding): the model has its swap as an update
  of the message; \<open>forward_request\<close>, which the source disables; the code that \<open>syn\<close> and
  \<open>quote\<close> parse and print, beyond the data that is interpolated; the tests.
\<close>

end
